(* ===== verification/Gw_Prelude.thy ===== *)
theory Gw_Prelude
  imports Main "HOL-Library.Word" "HOL-Library.Monad_Syntax"
begin

unbundle bit_operations_syntax

text \<open>
  Shared vocabulary of the gateway development.

  \<^item> Fixed-width integer types of the C++ sources as words.
  \<^item> Memory: an array is a byte list; \<open>rd\<close> and \<open>put\<close> are the guarded
    reads and writes through a pointer. \<open>None\<close> means that the C++ program has no
    defined behaviour there, so a theorem that a routine returns \<open>Some\<close> is a
    memory-safety theorem.
  \<^item> Network byte order: \<open>htons\<close>, \<open>htonl\<close> and the object representation of an
    integer on the little-endian hosts the gateway runs on.
  \<^item> Interfaces used by several components: fixed-width codecs, incremental framing of
    a byte stream and state machines with an invariant.
\<close>

section \<open>Types and lemma collections\<close>

type_synonym byte = "8 word"
type_synonym u16 = "16 word"
type_synonym u32 = "32 word"
type_synonym u64 = "64 word"

named_theorems wire_simps \<open>byte-order and word-splitting facts\<close>
named_theorems mem_simps \<open>guarded memory accesses that are in bounds\<close>

section \<open>Memory\<close>

text \<open>A read \<open>p[i]\<close> through a pointer into an array.\<close>

definition rd :: "byte list \<Rightarrow> nat \<Rightarrow> byte option" where
  "rd p i = (if i < length p then Some (p ! i) else None)"

text \<open>A run of \<open>n\<close> bytes read by \<open>memcpy\<close> from \<open>p + i\<close>.\<close>

definition rd_run :: "byte list \<Rightarrow> nat \<Rightarrow> nat \<Rightarrow> byte list option" where
  "rd_run p i n = (if i + n \<le> length p then Some (take n (drop i p)) else None)"

text \<open>The bytes \<open>bs\<close> stored at \<open>p + i\<close>, by assignments or by \<open>memcpy\<close>.\<close>

definition put :: "nat \<Rightarrow> byte list \<Rightarrow> byte list \<Rightarrow> byte list option" where
  "put i bs p =
     (if i + length bs \<le> length p
      then Some (take i p @ bs @ drop (i + length bs) p) else None)"

section \<open>Byte order\<close>

text \<open>Big-endian splitting by shifts and masks, as the serialisers write it out.\<close>

definition be16 :: "u16 \<Rightarrow> byte list" where
  "be16 w = [ucast (drop_bit 8 w AND 0xFF), ucast (w AND 0xFF)]"

definition be32 :: "u32 \<Rightarrow> byte list" where
  "be32 w = [ucast (drop_bit 24 w AND 0xFF), ucast (drop_bit 16 w AND 0xFF),
             ucast (drop_bit 8 w AND 0xFF), ucast (w AND 0xFF)]"

text \<open>Object representation on a little-endian host: what \<open>memcpy\<close> copies.\<close>

definition mem16 :: "u16 \<Rightarrow> byte list" where
  "mem16 w = [ucast w, ucast (drop_bit 8 w)]"

definition mem32 :: "u32 \<Rightarrow> byte list" where
  "mem32 w = [ucast w, ucast (drop_bit 8 w), ucast (drop_bit 16 w), ucast (drop_bit 24 w)]"

definition of_mem16 :: "byte \<Rightarrow> byte \<Rightarrow> u16" where
  "of_mem16 a b = ucast a OR push_bit 8 (ucast b)"

definition of_mem32 :: "byte \<Rightarrow> byte \<Rightarrow> byte \<Rightarrow> byte \<Rightarrow> u32" where
  "of_mem32 a b c d =
     ucast a OR push_bit 8 (ucast b) OR push_bit 16 (ucast c) OR push_bit 24 (ucast d)"

text \<open>Byte swaps of a little-endian host; each is its own inverse.\<close>

definition htons :: "u16 \<Rightarrow> u16" where
  "htons w = push_bit 8 (w AND 0xFF) OR (drop_bit 8 w AND 0xFF)"

definition htonl :: "u32 \<Rightarrow> u32" where
  "htonl w = push_bit 24 (w AND 0xFF) OR push_bit 16 (drop_bit 8 w AND 0xFF)
             OR push_bit 8 (drop_bit 16 w AND 0xFF) OR (drop_bit 24 w AND 0xFF)"

abbreviation ntohs :: "u16 \<Rightarrow> u16" where "ntohs \<equiv> htons"
abbreviation ntohl :: "u32 \<Rightarrow> u32" where "ntohl \<equiv> htonl"

text \<open>Reassembly by shifts: \<open>(b[0] << 8) | b[1]\<close> and its four-byte form.\<close>

definition join16 :: "byte \<Rightarrow> byte \<Rightarrow> u16" where
  "join16 a b = push_bit 8 (ucast a) OR ucast b"

definition join32 :: "byte \<Rightarrow> byte \<Rightarrow> byte \<Rightarrow> byte \<Rightarrow> u32" where
  "join32 a b c d =
     push_bit 24 (ucast a) OR push_bit 16 (ucast b) OR push_bit 8 (ucast c) OR ucast d"


section \<open>Facts about memory\<close>

lemma rd_in [mem_simps, simp]: "i < length p \<Longrightarrow> rd p i = Some (p ! i)"
  by (simp add: rd_def)

lemma rd_Some_iff: "rd p i = Some b \<longleftrightarrow> i < length p \<and> p ! i = b"
  by (auto simp: rd_def)

lemma rd_run_in [mem_simps]: "i + n \<le> length p \<Longrightarrow> rd_run p i n = Some (take n (drop i p))"
  by (simp add: rd_run_def)

lemma length_put: "put i bs p = Some q \<Longrightarrow> length q = length p"
  by (auto simp: put_def split: if_splits)

text \<open>Filling a zeroed buffer from the front: each store extends the written prefix.\<close>

lemma put_next:
  assumes "i = length ws" and "length bs \<le> k"
  shows "put i bs (ws @ replicate k 0) = Some ((ws @ bs) @ replicate (k - length bs) 0)"
  using assms by (simp add: put_def)

lemma put_at:
  "i = length ws \<Longrightarrow> length bs = length ms \<Longrightarrow> put i bs (ws @ ms @ rest) = Some (ws @ bs @ rest)"
  by (simp add: put_def)

text \<open>Overwriting a buffer from the front.\<close>

lemma put_seq:
  "i = length ws \<Longrightarrow> length bs \<le> length t \<Longrightarrow> put i bs (ws @ t) = Some ((ws @ bs) @ drop (length bs) t)"
  by (simp add: put_def)

lemma put_seq0: "length bs \<le> length t \<Longrightarrow> put 0 bs t = Some (bs @ drop (length bs) t)"
  by (simp add: put_def)

lemma length_ge_2E:
  assumes "2 \<le> length xs" obtains a b rest where "xs = a # b # rest"
  using assms by (auto simp: Suc_le_length_iff numeral_2_eq_2)

lemma length_ge_4E:
  assumes "4 \<le> length xs" obtains a b c d rest where "xs = a # b # c # d # rest"
  using assms by (auto simp: Suc_le_length_iff eval_nat_numeral)

lemma unat_u32: "unat (w :: u32) < 2 ^ 32"
  using unsigned_less [where 'b = 32 and 'a = nat, of w] by simp

lemma unat_of_nat_u16: "n < 2 ^ 16 \<Longrightarrow> unat (of_nat n :: u16) = n"
  by (simp add: unat_of_nat take_bit_eq_mod)

lemma unat_of_nat_u32: "n < 2 ^ 32 \<Longrightarrow> unat (of_nat n :: u32) = n"
  by (simp add: unat_of_nat take_bit_eq_mod)

lemma rd_append: "rd p i = Some b \<Longrightarrow> rd (p @ q) i = Some b"
  by (auto simp: rd_def nth_append split: if_splits)

section \<open>Facts about byte order\<close>

lemma and_0xFF: "(w :: 'a::len word) AND 0xFF = take_bit 8 w"
  by (simp add: take_bit_eq_mask mask_eq_exp_minus_1)

lemma bit_high: "LENGTH('a) \<le> n \<Longrightarrow> \<not> bit (w :: 'a::len word) n"
  using bit_imp_le_length by fastforce

lemma bit_unat_less:
  assumes "unat (w :: 'a::len word) < 2 ^ k" and "k \<le> n" shows "\<not> bit w n"
proof -
  have "unat w < 2 ^ n" using assms by (meson less_le_trans power_increasing one_le_numeral)
  then have "\<not> bit (unat w) n" by (simp add: bit_iff_odd)
  then show ?thesis by (auto simp: bit_unsigned_iff dest: bit_imp_le_length)
qed

lemmas wire_defs = be16_def be32_def mem16_def mem32_def of_mem16_def of_mem32_def
  htons_def htonl_def join16_def join32_def and_0xFF

lemma length_be [simp]: "length (be16 w) = 2" "length (be32 v) = 4"
  by (simp_all add: be16_def be32_def)

lemma mem16_htons [wire_simps]: "mem16 (htons w) = be16 w"
  by (auto intro!: bit_word_eqI simp: wire_defs bit_simps)

lemma mem32_htonl [wire_simps]: "mem32 (htonl w) = be32 w"
  by (auto intro!: bit_word_eqI simp: wire_defs bit_simps)

lemma be16_join16 [wire_simps]: "be16 (join16 a b) = [a, b]"
  by (auto intro!: bit_word_eqI simp: wire_defs bit_simps bit_high)

lemma be32_join32 [wire_simps]: "be32 (join32 a b c d) = [a, b, c, d]"
  by (auto intro!: bit_word_eqI simp: wire_defs bit_simps bit_high)

lemma ntohs_of_mem16 [wire_simps]: "ntohs (of_mem16 a b) = join16 a b"
  by (rule bit_word_eqI) (auto simp: wire_defs bit_simps bit_high)

lemma join16_be16: "join16 (be16 w ! 0) (be16 w ! 1) = w"
  by (rule bit_word_eqI) (auto simp: wire_defs bit_simps)

lemma join16_eq_iff: "join16 a b = w \<longleftrightarrow> [a, b] = be16 w"
  using be16_join16 [of a b] join16_be16 [of w] by (metis One_nat_def nth_Cons_0 nth_Cons_Suc)

lemma byte_range_cases:
  assumes "n < (32::nat)"
  shows "n < 8 \<or> (\<exists>k<8. n = 8 + k) \<or> (\<exists>k<8. n = 16 + k) \<or> (\<exists>k<8. n = 24 + k)"
  using assms by presburger

lemma word32_byte_eqI:
  fixes v w :: u32
  assumes "\<And>n. n < 8 \<Longrightarrow> bit v n = bit w n" and "\<And>n. n < 8 \<Longrightarrow> bit v (8 + n) = bit w (8 + n)"
    and "\<And>n. n < 8 \<Longrightarrow> bit v (16 + n) = bit w (16 + n)"
    and "\<And>n. n < 8 \<Longrightarrow> bit v (24 + n) = bit w (24 + n)"
  shows "v = w"
proof (rule bit_word_eqI)
  fix n assume "n < LENGTH(32)"
  then have "n < 8 \<or> (\<exists>k<8. n = 8 + k) \<or> (\<exists>k<8. n = 16 + k) \<or> (\<exists>k<8. n = 24 + k)"
    by (simp add: byte_range_cases)
  then show "bit v n \<longleftrightarrow> bit w n" using assms by (elim disjE exE conjE) simp_all
qed

lemma ntohl_of_mem32 [wire_simps]: "ntohl (of_mem32 a b c d) = join32 a b c d"
  by (rule word32_byte_eqI) (simp_all add: wire_defs bit_simps bit_high)

lemma join32_be32:
  "join32 (be32 w ! 0) (be32 w ! 1) (be32 w ! 2) (be32 w ! 3) = w"
  by (rule word32_byte_eqI) (simp_all add: wire_defs bit_simps bit_high)

lemma htonl_htonl [simp]: "htonl (htonl w) = w"
  by (rule word32_byte_eqI) (simp_all add: wire_defs bit_simps bit_high)

section \<open>Interface: fixed-width codecs\<close>

text \<open>
  A record with an encoder of constant width and a decoder that reads one record from the
  front of a byte sequence, whatever follows, and returns what the encoding keeps of it
  (\<open>view\<close>), for the records whose fields fit (\<open>fit\<close>).
\<close>

locale fixed_codec =
  fixes enc :: "'a \<Rightarrow> byte list" and dec :: "byte list \<Rightarrow> 'b option" and width :: nat
    and view :: "'a \<Rightarrow> 'b" and fit :: "'a \<Rightarrow> bool"
  assumes enc_width: "length (enc x) = width"
    and dec_enc: "fit x \<Longrightarrow> dec (enc x @ rest) = Some (view x)"
begin

lemma enc_inj: "fit x \<Longrightarrow> fit y \<Longrightarrow> enc x = enc y \<Longrightarrow> view x = view y"
  by (metis dec_enc option.inject)

lemma length_concat_enc: "length (concat (map enc xs)) = width * length xs"
  by (induction xs) (simp_all add: enc_width)

text \<open>The records of an array are found at multiples of the width.\<close>

lemma dec_nth:
  "\<forall>x\<in>set xs. fit x \<Longrightarrow> i < length xs \<Longrightarrow>
   dec (drop (width * i) (concat (map enc xs) @ rest)) = Some (view (xs ! i))"
proof (induction xs arbitrary: i)
  case Nil
  then show ?case by simp
next
  case (Cons x xs)
  then show ?case by (cases i) (simp_all add: dec_enc enc_width)
qed

lemma enc_nth:
  "i < length xs \<Longrightarrow> k < width \<Longrightarrow> (concat (map enc xs) @ rest) ! (width * i + k) = enc (xs ! i) ! k"
proof (induction xs arbitrary: i)
  case Nil
  then show ?case by simp
next
  case (Cons x xs)
  then show ?case by (cases i) (simp_all add: nth_append enc_width)
qed

lemma dec_array:
  assumes "\<forall>x\<in>set xs. fit x"
  shows "those (map (\<lambda>i. dec (drop (width * i) (concat (map enc xs) @ rest))) [0..<length xs]) = Some (map view xs)"
proof -
  have "map (\<lambda>i. dec (drop (width * i) (concat (map enc xs) @ rest))) [0..<length xs] = map Some (map view xs)"
    using dec_nth [OF assms] by (intro nth_equalityI) simp_all
  moreover have "those (map Some ys) = Some ys" for ys :: "'b list" by (induction ys) simp_all
  ultimately show ?thesis by (simp only:)
qed

lemma concat_enc_inj:
  assumes "0 < width" and "\<forall>x\<in>set xs. fit x" and "\<forall>y\<in>set ys. fit y"
    and "concat (map enc xs) = concat (map enc ys)"
  shows "map view xs = map view ys"
proof -
  from assms(4) have "width * length xs = width * length ys"
    by (metis length_concat_enc)
  with assms(1) have len: "length xs = length ys" by simp
  have "view (xs ! i) = view (ys ! i)" if "i < length xs" for i
    using dec_nth [OF assms(2) that, of "[]"] dec_nth [OF assms(3), of i "[]"] assms(4) len that by simp
  with len show ?thesis by (simp add: list_eq_iff_nth_eq)
qed

end

definition dec16 :: "byte list \<Rightarrow> u16 option" where
  "dec16 bs = do { a \<leftarrow> rd bs 0; b \<leftarrow> rd bs 1; Some (join16 a b) }"

definition dec32 :: "byte list \<Rightarrow> u32 option" where
  "dec32 bs = do { a \<leftarrow> rd bs 0; b \<leftarrow> rd bs 1; c \<leftarrow> rd bs 2; d \<leftarrow> rd bs 3; Some (join32 a b c d) }"

lemma dec16_be16: "dec16 (be16 w @ rest) = Some w"
proof -
  obtain a b where ab: "be16 w = [a, b]" by (simp add: be16_def)
  with join16_be16 [of w] show ?thesis by (simp add: dec16_def rd_def)
qed

lemma dec32_be32: "dec32 (be32 w @ rest) = Some w"
proof -
  obtain a b c d where abcd: "be32 w = [a, b, c, d]" by (simp add: be32_def)
  with join32_be32 [of w] show ?thesis by (simp add: dec32_def rd_def)
qed

lemma dec_append: "dec16 bs = Some v \<Longrightarrow> dec16 (bs @ cs) = Some v" "dec32 bs = Some w \<Longrightarrow> dec32 (bs @ cs) = Some w"
  by (auto simp: dec16_def dec32_def bind_eq_Some_conv rd_append)

interpretation w16: fixed_codec be16 dec16 2 id "\<lambda>_. True"
  by unfold_locales (simp_all add: dec16_be16)

interpretation w32: fixed_codec be32 dec32 4 id "\<lambda>_. True"
  by unfold_locales (simp_all add: dec32_be32)

section \<open>Interface: framing of a byte stream\<close>

text \<open>
  \<open>deframe next bs\<close> cuts messages off the front of \<open>bs\<close> while \<open>next\<close> finds one
  (the message and the number of bytes it takes) and returns them with the rest.
\<close>

function deframe :: "(byte list \<Rightarrow> ('m \<times> nat) option) \<Rightarrow> byte list \<Rightarrow> 'm list \<times> byte list" where
  "deframe next bs =
     (case next bs of
        None \<Rightarrow> ([], bs)
      | Some (m, n) \<Rightarrow>
          if 0 < n \<and> n \<le> length bs
          then (case deframe next (drop n bs) of (ms, r) \<Rightarrow> (m # ms, r))
          else ([], bs))"
  by pat_completeness auto
termination
  by (relation "measure (\<lambda>(next, bs). length bs)") auto

declare deframe.simps [simp del]

locale frame_stream =
  fixes "next" :: "byte list \<Rightarrow> ('m \<times> nat) option"
  assumes next_progress: "next bs = Some (m, n) \<Longrightarrow> 0 < n \<and> n \<le> length bs"
    and next_stable: "next bs = Some (m, n) \<Longrightarrow> next (bs @ cs) = Some (m, n)"
begin

lemma deframe_None: "next bs = None \<Longrightarrow> deframe next bs = ([], bs)"
  by (simp add: deframe.simps [of "next" bs])

lemma deframe_Some:
  "next bs = Some (m, n) \<Longrightarrow>
   deframe next bs = (m # fst (deframe next (drop n bs)), snd (deframe next (drop n bs)))"
  using next_progress [of bs m n] by (simp add: deframe.simps [of "next" bs] split: prod.split)

lemma deframe_rest: "next (snd (deframe next bs)) = None"
proof (induction "length bs" arbitrary: bs rule: less_induct)
  case less
  show ?case
  proof (cases "next bs")
    case None
    then show ?thesis by (simp add: deframe_None)
  next
    case (Some mn)
    obtain m n where mn: "next bs = Some (m, n)" using Some by (cases mn) auto
    have "length (drop n bs) < length bs" using next_progress [OF mn] by auto
    from less [OF this] show ?thesis by (simp add: deframe_Some [OF mn])
  qed
qed

text \<open>Framing is incremental: bytes that arrive later only extend what was found.\<close>

lemma deframe_append:
  "deframe next (bs @ cs) =
     (fst (deframe next bs) @ fst (deframe next (snd (deframe next bs) @ cs)),
      snd (deframe next (snd (deframe next bs) @ cs)))"
proof (induction "length bs" arbitrary: bs rule: less_induct)
  case less
  show ?case
  proof (cases "next bs")
    case None
    then show ?thesis by (simp add: deframe_None)
  next
    case (Some mn)
    obtain m n where mn: "next bs = Some (m, n)" using Some by (cases mn) auto
    have le: "n \<le> length bs" and "length (drop n bs) < length bs"
      using next_progress [OF mn] by auto
    from less [OF this(2)] le show ?thesis
      by (simp add: deframe_Some [OF mn] deframe_Some [OF next_stable [OF mn]])
  qed
qed

end

section \<open>Interface: state machines with an invariant\<close>

text \<open>
  A deterministic component: a step takes the state and an input to the next state and
  the outputs it produced; a run feeds it a sequence of inputs.
\<close>

fun run_steps :: "('s \<Rightarrow> 'i \<Rightarrow> 's \<times> 'o list) \<Rightarrow> 's \<Rightarrow> 'i list \<Rightarrow> 's \<times> 'o list" where
  "run_steps step s [] = (s, [])"
| "run_steps step s (i # is) =
     (case step s i of (s', os) \<Rightarrow>
        (case run_steps step s' is of (s'', os') \<Rightarrow> (s'', os @ os')))"

lemma run_steps_Cons:
  "run_steps step s (i # is) =
     (fst (run_steps step (fst (step s i)) is),
      snd (step s i) @ snd (run_steps step (fst (step s i)) is))"
  by (simp split: prod.split)

lemma run_steps_append:
  "run_steps step s (is @ js) =
     (let (s', os) = run_steps step s is; (s'', os') = run_steps step s' js in (s'', os @ os'))"
  by (induction "is" arbitrary: s) (auto split: prod.splits)

text \<open>A step of the code may have no defined behaviour; a run then has none either.\<close>

fun try_steps :: "('s \<Rightarrow> 'i \<Rightarrow> ('s \<times> 'o list) option) \<Rightarrow> 's \<Rightarrow> 'i list \<Rightarrow> ('s \<times> 'o list) option" where
  "try_steps step s [] = Some (s, [])"
| "try_steps step s (i # is) = do {
     (s', os) \<leftarrow> step s i;
     (s'', os') \<leftarrow> try_steps step s' is;
     Some (s'', os @ os') }"

text \<open>
  A component that implements an abstract machine: on states that satisfy its invariant and
  admissible inputs, a step is defined, keeps the invariant, and does to the abstract state and
  puts out exactly what the abstract step does.
\<close>

locale machine_refinement =
  fixes step :: "'s \<Rightarrow> 'i \<Rightarrow> ('s \<times> 'o list) option" and inv :: "'s \<Rightarrow> bool" and ok_in :: "'i \<Rightarrow> bool"
    and abs :: "'s \<Rightarrow> 'a" and astep :: "'a \<Rightarrow> 'i \<Rightarrow> 'a \<times> 'o list"
  assumes step_sim: "inv s \<Longrightarrow> ok_in i \<Longrightarrow>
    \<exists>s'. step s i = Some (s', snd (astep (abs s) i)) \<and> abs s' = fst (astep (abs s) i) \<and> inv s'"
begin

lemma run_sim:
  "inv s \<Longrightarrow> \<forall>i\<in>set is. ok_in i \<Longrightarrow>
   \<exists>s'. try_steps step s is = Some (s', snd (run_steps astep (abs s) is))
      \<and> abs s' = fst (run_steps astep (abs s) is) \<and> inv s'"
proof (induction "is" arbitrary: s)
  case Nil
  then show ?case by simp
next
  case (Cons i "is")
  obtain s1 where s1: "step s i = Some (s1, snd (astep (abs s) i))" "abs s1 = fst (astep (abs s) i)" "inv s1"
    using step_sim Cons.prems by fastforce
  obtain s2 where "try_steps step s1 is = Some (s2, snd (run_steps astep (abs s1) is))"
    "abs s2 = fst (run_steps astep (abs s1) is)" "inv s2"
    using Cons.IH [OF s1(3)] Cons.prems by auto
  with s1 show ?case by (simp add: run_steps_Cons del: run_steps.simps)
qed

text \<open>What holds of every output of the abstract machine holds of every output of the code.\<close>

lemma run_outputs:
  assumes "inv s" and "\<forall>i\<in>set is. ok_in i"
    and "\<And>a i out. out \<in> set (snd (astep a i)) \<Longrightarrow> P out"
  shows "\<exists>s' os. try_steps step s is = Some (s', os) \<and> inv s' \<and> (\<forall>out\<in>set os. P out)"
proof -
  have "out \<in> set (snd (run_steps astep a is)) \<Longrightarrow> P out" for a out
    by (induction "is" arbitrary: a) (auto simp: run_steps_Cons assms(3) simp del: run_steps.simps(2))
  with run_sim [OF assms(1,2)] show ?thesis by fastforce
qed

end

section \<open>Interface: session numbers\<close>

text \<open>
  A component that stamps every message it sends with its session counter: the messages of one
  step carry consecutive numbers from the counter on, and the counter moves past them. Then the
  same holds of a whole run.
\<close>

locale session_numbering =
  fixes astep :: "'a \<Rightarrow> 'i \<Rightarrow> 'a \<times> 'o list" and session :: "'a \<Rightarrow> u16"
    and sent :: "'o \<Rightarrow> bool" and stamped :: "u16 \<Rightarrow> 'o \<Rightarrow> bool"
  assumes step_counter: "session (fst (astep a i)) = session a + of_nat (length (filter sent (snd (astep a i))))"
    and step_stamp: "k < length (filter sent (snd (astep a i))) \<Longrightarrow>
      stamped (session a + of_nat k) (filter sent (snd (astep a i)) ! k)"
begin

lemma run_counter: "session (fst (run_steps astep a is)) = session a + of_nat (length (filter sent (snd (run_steps astep a is))))"
proof (induction "is" arbitrary: a)
  case (Cons i "is")
  from Cons [of "fst (astep a i)"] show ?case by (simp only: run_steps_Cons fst_conv snd_conv step_counter) (simp add: ac_simps)
qed simp

lemma run_stamp:
  "k < length (filter sent (snd (run_steps astep a is))) \<Longrightarrow>
   stamped (session a + of_nat k) (filter sent (snd (run_steps astep a is)) ! k)"
proof (induction "is" arbitrary: a k)
  case Nil
  then show ?case by simp
next
  case (Cons i "is")
  let ?out = "filter sent (snd (astep a i))" and ?rest = "filter sent (snd (run_steps astep (fst (astep a i)) is))"
  have out: "filter sent (snd (run_steps astep a (i # is))) = ?out @ ?rest" by (simp only: run_steps_Cons snd_conv filter_append)
  show ?case
  proof (cases "k < length ?out")
    case True
    then show ?thesis unfolding out using step_stamp [OF True] by (simp only: nth_append if_True)
  next
    case False
    then have "k - length ?out < length ?rest" using Cons.prems unfolding out by simp
    from Cons.IH [OF this] have "stamped (session a + (of_nat (length ?out) + of_nat (k - length ?out))) (?rest ! (k - length ?out))"
      unfolding step_counter by (simp only: add.assoc)
    with False show ?thesis unfolding out by (simp add: nth_append flip: of_nat_add)
  qed
qed

end

end
