(* ===== verification/Doip_Message.thy ===== *)
theory Doip_Message
  imports Gw_Prelude
begin

text \<open>
  DoIP messages (\<^verbatim>\<open>src/doip/doip_message.hpp\<close>, \<^verbatim>\<open>doip_message.cpp\<close>): the eight-byte
  header with its parser and serialiser, and the builder of whole messages. The framing of
  a TCP byte stream into messages is the reference the server is compared with.
\<close>

section \<open>Constants and data\<close>

definition DOIP_PROTO_VERSION :: byte where "DOIP_PROTO_VERSION = 0x02"
definition DOIP_PROTO_VERSION_INV :: byte where "DOIP_PROTO_VERSION_INV = 0xFD"
definition DOIP_ROUTING_ACTIVATION_REQ :: u16 where "DOIP_ROUTING_ACTIVATION_REQ = 0x0005"
definition DOIP_ROUTING_ACTIVATION_RES :: u16 where "DOIP_ROUTING_ACTIVATION_RES = 0x0006"
definition DOIP_DIAGNOSTIC_MESSAGE :: u16 where "DOIP_DIAGNOSTIC_MESSAGE = 0x8001"
definition DOIP_DIAGNOSTIC_ACK :: u16 where "DOIP_DIAGNOSTIC_ACK = 0x8002"
definition DOIP_ALIVE_CHECK_REQ :: u16 where "DOIP_ALIVE_CHECK_REQ = 0x0007"
definition DOIP_ALIVE_CHECK_RES :: u16 where "DOIP_ALIVE_CHECK_RES = 0x0008"
definition DOIP_ROUTING_OK :: byte where "DOIP_ROUTING_OK = 0x10"
definition DOIP_ACK_OK :: byte where "DOIP_ACK_OK = 0x00"
definition DOIP_ECU_ADDRESS :: u16 where "DOIP_ECU_ADDRESS = 0x0001"

abbreviation DOIP_HEADER_SIZE :: nat where "DOIP_HEADER_SIZE \<equiv> 8"

lemmas doip_consts = DOIP_PROTO_VERSION_def DOIP_PROTO_VERSION_INV_def
  DOIP_ROUTING_ACTIVATION_REQ_def DOIP_ROUTING_ACTIVATION_RES_def DOIP_DIAGNOSTIC_MESSAGE_def
  DOIP_DIAGNOSTIC_ACK_def DOIP_ALIVE_CHECK_REQ_def DOIP_ALIVE_CHECK_RES_def DOIP_ROUTING_OK_def
  DOIP_ACK_OK_def DOIP_ECU_ADDRESS_def

record doip_header =
  proto_version :: byte
  proto_version_inv :: byte
  payload_type :: u16
  payload_length :: u32

definition DoIpHeader :: doip_header where
  "DoIpHeader = \<lparr>proto_version = DOIP_PROTO_VERSION, proto_version_inv = DOIP_PROTO_VERSION_INV,
     payload_type = 0, payload_length = 0\<rparr>"

section \<open>Operations\<close>

text \<open>The parser's boolean result and its output parameter.\<close>

definition DoIpHeader_parse ::
  "byte list \<Rightarrow> nat \<Rightarrow> doip_header \<Rightarrow> (bool \<times> doip_header) option" where
  "DoIpHeader_parse buf len out =
     (if len < DOIP_HEADER_SIZE then Some (False, out)
      else do {
        b0 \<leftarrow> rd buf 0; b1 \<leftarrow> rd buf 1; b2 \<leftarrow> rd buf 2; b3 \<leftarrow> rd buf 3;
        b4 \<leftarrow> rd buf 4; b5 \<leftarrow> rd buf 5; b6 \<leftarrow> rd buf 6; b7 \<leftarrow> rd buf 7;
        Some (True, out\<lparr>proto_version := b0, proto_version_inv := b1,
          payload_type := join16 b2 b3, payload_length := join32 b4 b5 b6 b7\<rparr>) })"

definition DoIpHeader_serialize :: "doip_header \<Rightarrow> byte list \<Rightarrow> byte list option" where
  "DoIpHeader_serialize h buf = do {
     buf \<leftarrow> put 0 [proto_version h] buf;
     buf \<leftarrow> put 1 [proto_version_inv h] buf;
     buf \<leftarrow> put 2 [ucast (drop_bit 8 (payload_type h) AND 0xFF)] buf;
     buf \<leftarrow> put 3 [ucast (payload_type h AND 0xFF)] buf;
     let pl = htonl (payload_length h);
     put 4 (mem32 pl) buf }"

definition make_doip_message :: "u16 \<Rightarrow> byte list \<Rightarrow> byte list option" where
  "make_doip_message ptype payload = do {
     let buf = replicate (DOIP_HEADER_SIZE + length payload) 0;
     let hdr = DoIpHeader\<lparr>payload_type := ptype, payload_length := of_nat (length payload)\<rparr>;
     buf \<leftarrow> DoIpHeader_serialize hdr buf;
     if length payload > 0 then put DOIP_HEADER_SIZE payload buf else Some buf }"

section \<open>Reference: header bytes, whole messages, framing\<close>

definition header_bytes :: "doip_header \<Rightarrow> byte list" where
  "header_bytes h = [proto_version h, proto_version_inv h] @ be16 (payload_type h) @ be32 (payload_length h)"

definition doip_frame :: "u16 \<Rightarrow> byte list \<Rightarrow> byte list" where
  "doip_frame ptype payload =
     [DOIP_PROTO_VERSION, DOIP_PROTO_VERSION_INV] @ be16 ptype @ be32 (of_nat (length payload)) @ payload"

definition doip_next :: "byte list \<Rightarrow> ((u16 \<times> byte list) \<times> nat) option" where
  "doip_next bs =
     (if length bs < 8 then None
      else let n = unat (join32 (bs ! 4) (bs ! 5) (bs ! 6) (bs ! 7)) in
        if length bs < 8 + n then None
        else Some ((join16 (bs ! 2) (bs ! 3), take n (drop 8 bs)), 8 + n))"

section \<open>The serialiser writes the reference bytes\<close>

lemma serialize_header:
  assumes "length ms = 8"
  shows "DoIpHeader_serialize h (ms @ rest) = Some (header_bytes h @ rest)"
proof -
  from assms obtain m0 m1 m2 m3 m4 m5 m6 m7 where "ms = [m0, m1, m2, m3, m4, m5, m6, m7]"
    by (auto simp: length_Suc_conv eval_nat_numeral)
  then show ?thesis
    by (simp add: DoIpHeader_serialize_def header_bytes_def put_def be16_def mem32_htonl)
qed

lemma make_doip_message_frame: "make_doip_message ty payload = Some (doip_frame ty payload)"
proof -
  let ?h = "DoIpHeader\<lparr>payload_type := ty, payload_length := of_nat (length payload)\<rparr>"
  have "replicate (8 + length payload) (0::byte) = replicate 8 0 @ replicate (length payload) 0"
    by (rule replicate_add)
  then have "DoIpHeader_serialize ?h (replicate (8 + length payload) 0)
      = Some (header_bytes ?h @ replicate (length payload) 0)"
    by (simp only: serialize_header length_replicate)
  then show ?thesis
    by (simp add: make_doip_message_def doip_frame_def header_bytes_def DoIpHeader_def put_def)
qed

section \<open>The parser inverts the serialiser\<close>

definition parse_front :: "byte list \<Rightarrow> doip_header option" where
  "parse_front bs = map_option snd (DoIpHeader_parse bs (length bs) DoIpHeader)"

lemma parse_header_bytes:
  assumes "8 \<le> len"
  shows "DoIpHeader_parse (header_bytes h @ rest) len out = Some (True, h)"
proof -
  obtain a b where ab: "be16 (payload_type h) = [a, b]" by (simp add: be16_def)
  obtain c d e f where cd: "be32 (payload_length h) = [c, d, e, f]" by (simp add: be32_def)
  from join16_be16 [of "payload_type h"] join32_be32 [of "payload_length h"] assms show ?thesis
    by (simp add: DoIpHeader_parse_def header_bytes_def ab cd rd_def)
qed

interpretation doip_hdr: fixed_codec header_bytes parse_front 8 id "\<lambda>_. True"
proof
  show "length (header_bytes h) = 8" for h by (simp add: header_bytes_def)
  then show "parse_front (header_bytes h @ rest) = Some (id h)" for h rest
    by (simp add: parse_front_def parse_header_bytes)
qed

section \<open>Framing is incremental\<close>

interpretation doip_stream: frame_stream doip_next
proof
  show "0 < n \<and> n \<le> length bs" if "doip_next bs = Some (m, n)" for bs m n
    using that by (auto simp: doip_next_def Let_def split: if_splits)
  show "doip_next (bs @ cs) = Some (m, n)" if "doip_next bs = Some (m, n)" for bs m n cs
    using that by (auto simp: doip_next_def Let_def nth_append split: if_splits)
qed

lemma doip_next_frame:
  assumes "length payload < 2 ^ 32"
  shows "doip_next (doip_frame ty payload @ rest) = Some ((ty, payload), 8 + length payload)"
proof -
  obtain a b where ab: "be16 ty = [a, b]" by (simp add: be16_def)
  obtain c d e f where cd: "be32 (of_nat (length payload)) = [c, d, e, f]" by (simp add: be32_def)
  have "unat (of_nat (length payload) :: u32) = length payload"
    using assms by (simp add: unat_of_nat take_bit_nat_eq_self)
  with join16_be16 [of ty] join32_be32 [of "of_nat (length payload)"] show ?thesis
    by (simp add: doip_next_def doip_frame_def ab cd)
qed

text \<open>Any sequence of messages put on the wire is recovered in order.\<close>

lemma deframe_frames:
  assumes "\<forall>(ty, payload) \<in> set ms. length payload < 2 ^ 32"
  shows "deframe doip_next (concat (map (\<lambda>(ty, payload). doip_frame ty payload) ms)) = (ms, [])"
  using assms
proof (induction ms)
  case Nil
  have "doip_next [] = None" by (simp add: doip_next_def)
  then show ?case by (simp add: doip_stream.deframe_None)
next
  case (Cons m ms)
  obtain ty payload where m: "m = (ty, payload)" by (cases m)
  have "length (doip_frame ty payload) = 8 + length payload" by (simp add: doip_frame_def)
  moreover have "length payload < 2 ^ 32" using Cons.prems m by simp
  ultimately show ?case
    using Cons m by (simp add: doip_stream.deframe_Some [OF doip_next_frame])
qed

section \<open>Properties\<close>

text \<open>
  C31: Message construction and framing are inverse: the buffer that
  \<open>make_doip_message\<close> fills (header fields by shifts and \<open>htonl\<close>, payload by
  \<open>memcpy\<close>) never overflows, and any sequence of messages it built, sent back to back, is
  cut into exactly those messages, types and payloads in order, with nothing left over.
\<close>

theorem doip_message_roundtrip:
  assumes "\<forall>(ty, payload) \<in> set ms. length payload < 2 ^ 32"
  shows "\<exists>wire. map (\<lambda>(ty, payload). make_doip_message ty payload) ms = map Some wire
           \<and> deframe doip_next (concat wire) = (ms, [])"
proof (intro exI conjI)
  show "map (\<lambda>(ty, payload). make_doip_message ty payload) ms
      = map Some (map (\<lambda>(ty, payload). doip_frame ty payload) ms)"
    by (auto simp: make_doip_message_frame)
  show "deframe doip_next (concat (map (\<lambda>(ty, payload). doip_frame ty payload) ms)) = (ms, [])"
    using assms by (rule deframe_frames)
qed

theorem doip_message_roundtrip_witness:
  "\<exists>wire. map (\<lambda>(ty, payload). make_doip_message ty payload) [(0x0005, [0x0E, 0x00]), (0x0007, [])]
       = map Some wire
     \<and> deframe doip_next (concat wire) = ([(0x0005, [0x0E, 0x00]), (0x0007, [])], [])"
  by (rule doip_message_roundtrip) simp

text \<open>
  The header parser inverts the header serialiser on every header and any buffer of at
  least eight bytes, and refuses shorter input by returning false with the output untouched.
\<close>

theorem doip_header_roundtrip:
  "(length ms = 8 \<longrightarrow>
      (\<exists>buf. DoIpHeader_serialize h (ms @ rest) = Some buf
         \<and> DoIpHeader_parse buf (8 + length rest) out = Some (True, h)))
   \<and> (len < 8 \<longrightarrow> DoIpHeader_parse ms len out = Some (False, out))"
  by (simp add: serialize_header parse_header_bytes DoIpHeader_parse_def [of ms])

theorem doip_header_roundtrip_witness:
  "\<exists>buf. DoIpHeader_serialize (DoIpHeader\<lparr>payload_type := 0x8001, payload_length := 0x12345678\<rparr>)
       (replicate 8 0 @ [7]) = Some buf
     \<and> DoIpHeader_parse buf 9 DoIpHeader
         = Some (True, DoIpHeader\<lparr>payload_type := 0x8001, payload_length := 0x12345678\<rparr>)"
  using doip_header_roundtrip [of "replicate 8 0" _ "[7]" DoIpHeader 0] by simp

end
