(* ===== verification/Uds_Handler.thy ===== *)
theory Uds_Handler
  imports Gw_Prelude
begin

text \<open>
  The UDS request handler (\<^verbatim>\<open>src/doip/uds_handler.hpp\<close>, \<^verbatim>\<open>uds_handler.cpp\<close>).
  A request is a pointer into memory (a byte list that may extend past the request) and a
  length. Every handler returns the response bytes; \<open>None\<close> would be an access outside
  the memory behind the pointer. What the handlers print is modelled in \<^verbatim>\<open>Console\<close>.
\<close>

section \<open>Constants and data\<close>

definition UDS_SESSION_CONTROL :: byte where "UDS_SESSION_CONTROL = 0x10"
definition UDS_READ_DTC :: byte where "UDS_READ_DTC = 0x19"
definition UDS_READ_DATA_BY_ID :: byte where "UDS_READ_DATA_BY_ID = 0x22"
definition UDS_ECU_RESET :: byte where "UDS_ECU_RESET = 0x11"
definition UDS_NEGATIVE_RESPONSE :: byte where "UDS_NEGATIVE_RESPONSE = 0x7F"
definition UDS_NRC_SERVICE_NOT_SUPPORTED :: byte where "UDS_NRC_SERVICE_NOT_SUPPORTED = 0x11"
definition UDS_NRC_REQUEST_OUT_OF_RANGE :: byte where "UDS_NRC_REQUEST_OUT_OF_RANGE = 0x31"

lemmas uds_consts = UDS_SESSION_CONTROL_def UDS_READ_DTC_def UDS_READ_DATA_BY_ID_def
  UDS_ECU_RESET_def UDS_NEGATIVE_RESPONSE_def UDS_NRC_SERVICE_NOT_SUPPORTED_def
  UDS_NRC_REQUEST_OUT_OF_RANGE_def

record dtc =
  dtc_code :: u32
  dtc_status :: byte
  dtc_description :: string

record uds_handler =
  dtcs :: "dtc list"

definition UdsHandler :: uds_handler where
  "UdsHandler = \<lparr>dtcs =
     [\<lparr>dtc_code = 0x012345, dtc_status = 0x08,
        dtc_description = ''Engine coolant temperature sensor''\<rparr>,
      \<lparr>dtc_code = 0x023456, dtc_status = 0x09, dtc_description = ''Throttle position sensor''\<rparr>,
      \<lparr>dtc_code = 0x034567, dtc_status = 0x00,
        dtc_description = ''Vehicle speed sensor (inactive)''\<rparr>]\<rparr>"

section \<open>Operations\<close>

definition string_bytes :: "string \<Rightarrow> byte list" where
  "string_bytes s = map of_char s"

definition negative_response :: "byte \<Rightarrow> byte \<Rightarrow> byte list" where
  "negative_response service_id nrc = [UDS_NEGATIVE_RESPONSE, service_id, nrc]"

definition handle_session_control :: "byte list \<Rightarrow> nat \<Rightarrow> byte list option" where
  "handle_session_control req len =
     (if len < 2 then Some (negative_response UDS_SESSION_CONTROL UDS_NRC_REQUEST_OUT_OF_RANGE)
      else do { session_type \<leftarrow> rd req 1; Some [0x50, session_type] })"

text \<open>One DTC record: three code bytes and the status byte.\<close>

definition dtc_record :: "dtc \<Rightarrow> byte list" where
  "dtc_record d =
     [ucast (drop_bit 16 (dtc_code d) AND 0xFF), ucast (drop_bit 8 (dtc_code d) AND 0xFF),
      ucast (dtc_code d AND 0xFF), dtc_status d]"

definition handle_read_dtc :: "uds_handler \<Rightarrow> byte list \<Rightarrow> nat \<Rightarrow> byte list option" where
  "handle_read_dtc u req len =
     (if len < 2 then Some (negative_response UDS_READ_DTC UDS_NRC_REQUEST_OUT_OF_RANGE)
      else do {
        sub_func \<leftarrow> rd req 1;
        Some ([0x59, sub_func, 0xFF, 0x09, 0x00, of_nat (length (dtcs u))]
              @ concat (map dtc_record (dtcs u))) })"

definition handle_read_data_by_id :: "byte list \<Rightarrow> nat \<Rightarrow> byte list option" where
  "handle_read_data_by_id req len =
     (if len < 3 then Some (negative_response UDS_READ_DATA_BY_ID UDS_NRC_REQUEST_OUT_OF_RANGE)
      else do {
        hi \<leftarrow> rd req 1;
        lo \<leftarrow> rd req 2;
        let did = join16 hi lo;
        let response = [0x62, ucast (drop_bit 8 did AND 0xFF), ucast (did AND 0xFF)];
        Some (if did = 0xF190 then response @ string_bytes ''BBB0000000000001''
              else if did = 0xF18C then response @ string_bytes ''ECU-BBB-2024-001''
              else if did = 0xF187 then response @ string_bytes ''v1.0.0-automotive-gateway''
              else negative_response UDS_READ_DATA_BY_ID UDS_NRC_REQUEST_OUT_OF_RANGE) })"

definition handle_ecu_reset :: "byte list \<Rightarrow> nat \<Rightarrow> byte list option" where
  "handle_ecu_reset req len =
     (if len < 2 then Some (negative_response UDS_ECU_RESET UDS_NRC_REQUEST_OUT_OF_RANGE)
      else do { reset_type \<leftarrow> rd req 1; Some [0x51, reset_type] })"

definition uds_handle :: "uds_handler \<Rightarrow> byte list \<Rightarrow> nat \<Rightarrow> byte list option" where
  "uds_handle u req len =
     (if len < 1 then Some (negative_response 0x00 UDS_NRC_SERVICE_NOT_SUPPORTED)
      else do {
        service_id \<leftarrow> rd req 0;
        if service_id = UDS_SESSION_CONTROL then handle_session_control req len
        else if service_id = UDS_READ_DTC then handle_read_dtc u req len
        else if service_id = UDS_READ_DATA_BY_ID then handle_read_data_by_id req len
        else if service_id = UDS_ECU_RESET then handle_ecu_reset req len
        else Some (negative_response service_id UDS_NRC_SERVICE_NOT_SUPPORTED) })"

lemmas uds_defs = handle_session_control_def handle_read_dtc_def handle_read_data_by_id_def
  handle_ecu_reset_def uds_handle_def

section \<open>Interface: a diagnostic service\<close>

text \<open>
  What the DoIP transport relies on: the service answers every request that lies inside
  the memory it is given, with a non-empty response, and looks at nothing but the request.
\<close>

definition reply_of :: "(byte list \<Rightarrow> nat \<Rightarrow> byte list option) \<Rightarrow> byte list \<Rightarrow> byte list" where
  "reply_of handle req = the (handle req (length req))"

locale diag_service =
  fixes handle :: "byte list \<Rightarrow> nat \<Rightarrow> byte list option"
  assumes handle_total: "len \<le> length req \<Longrightarrow> \<exists>r. handle req len = Some r"
    and handle_nonempty: "handle req len = Some r \<Longrightarrow> r \<noteq> []"
    and handle_local: "len \<le> length req \<Longrightarrow> handle req len = handle (take len req) len"
begin

lemma handle_reply: "len \<le> length req \<Longrightarrow> handle req len = Some (reply_of handle (take len req))"
proof -
  assume le: "len \<le> length req"
  then obtain r where r: "handle (take len req) len = Some r"
    using handle_total [of len "take len req"] by auto
  moreover have "handle req len = handle (take len req) len" by (rule handle_local [OF le])
  moreover have "length (take len req) = len" using le by simp
  ultimately show ?thesis unfolding reply_of_def by simp
qed

lemma reply_nonempty: "reply_of handle req \<noteq> []"
  using handle_total [of "length req" req] handle_nonempty by (auto simp: reply_of_def)

end

lemma uds_handle_total: "len \<le> length req \<Longrightarrow> \<exists>r. uds_handle u req len = Some r"
  by (cases req) (auto simp: uds_defs Let_def rd_def)

lemma uds_handle_nonempty: "uds_handle u req len = Some r \<Longrightarrow> r \<noteq> []"
  by (auto simp: uds_defs Let_def negative_response_def rd_Some_iff Option.bind_eq_Some_conv
      split: if_splits)

lemma uds_handle_local: "len \<le> length req \<Longrightarrow> uds_handle u req len = uds_handle u (take len req) len"
  by (cases req) (auto simp: uds_defs Let_def rd_def)

interpretation uds: diag_service "uds_handle u" for u
  by unfold_locales (fact uds_handle_total uds_handle_nonempty uds_handle_local)+

section \<open>DTC records as a codec\<close>

text \<open>The reader's view of one record: the 24-bit code and the status.\<close>

definition dec_dtc :: "byte list \<Rightarrow> (u32 \<times> byte) option" where
  "dec_dtc bs = do {
     a \<leftarrow> rd bs 0; b \<leftarrow> rd bs 1; c \<leftarrow> rd bs 2; st \<leftarrow> rd bs 3;
     Some (join32 0 a b c, st) }"

lemma dec_dtc_record:
  assumes "unat (dtc_code d) < 2 ^ 24"
  shows "dec_dtc (dtc_record d @ rest) = Some (dtc_code d, dtc_status d)"
proof -
  have "\<not> bit (dtc_code d) (24 + n)" for n
    using assms by (metis bit_take_bit_iff le_add1 not_le take_bit_nat_eq_self unsigned_take_bit_eq
        word_unat_eq_iff take_bit_nat_eq_self_iff)
  then have "join32 0 (dtc_record d ! 0) (dtc_record d ! 1) (dtc_record d ! 2) = dtc_code d"
    by (intro word32_byte_eqI) (simp_all add: dtc_record_def wire_defs bit_simps bit_high)
  then show ?thesis by (simp add: dec_dtc_def dtc_record_def rd_def)
qed

lemma length_dtc_record [simp]: "length (dtc_record d) = 4"
  by (simp add: dtc_record_def)

interpretation dtc_codec: fixed_codec dtc_record dec_dtc 4 "\<lambda>d. (dtc_code d, dtc_status d)"
    "\<lambda>d. unat (dtc_code d) < 2 ^ 24"
  by unfold_locales (simp_all add: dec_dtc_record)

section \<open>Reference answers\<close>

text \<open>
  The answer to a request, by its bytes: the positive response is the service identifier plus
  \<open>0x40\<close> and the parameters, a request too short for its parameters or with an unknown data
  identifier is refused with code \<open>31\<close>, an unknown service with code \<open>11\<close>.
\<close>

definition data_record :: "byte \<Rightarrow> byte \<Rightarrow> string option" where
  "data_record hi lo =
     (if hi = 0xF1 \<and> lo = 0x90 then Some ''BBB0000000000001''
      else if hi = 0xF1 \<and> lo = 0x8C then Some ''ECU-BBB-2024-001''
      else if hi = 0xF1 \<and> lo = 0x87 then Some ''v1.0.0-automotive-gateway''
      else None)"

fun uds_answer :: "uds_handler \<Rightarrow> byte list \<Rightarrow> byte list" where
  "uds_answer u [] = [0x7F, 0x00, 0x11]"
| "uds_answer u (sid # params) =
     (if sid = 0x10 then (case params of s # _ \<Rightarrow> [0x50, s] | [] \<Rightarrow> [0x7F, 0x10, 0x31])
      else if sid = 0x11 then (case params of t # _ \<Rightarrow> [0x51, t] | [] \<Rightarrow> [0x7F, 0x11, 0x31])
      else if sid = 0x19 then
        (case params of f # _ \<Rightarrow> [0x59, f, 0xFF, 0x09, 0x00, of_nat (length (dtcs u))] @ concat (map (\<lambda>d. tl (be32 (dtc_code d)) @ [dtc_status d]) (dtcs u))
         | [] \<Rightarrow> [0x7F, 0x19, 0x31])
      else if sid = 0x22 then
        (case params of hi # lo # _ \<Rightarrow>
           (case data_record hi lo of Some text \<Rightarrow> [0x62, hi, lo] @ string_bytes text | None \<Rightarrow> [0x7F, 0x22, 0x31])
         | _ \<Rightarrow> [0x7F, 0x22, 0x31])
      else [0x7F, sid, 0x11])"

lemma dtc_records: "dtc_record = (\<lambda>d. tl (be32 (dtc_code d)) @ [dtc_status d])"
proof -
  have "ucast (w AND 0xFF) = (ucast w :: byte)" for w :: u32 by (rule bit_word_eqI) (simp add: and_0xFF bit_simps)
  then show ?thesis by (simp add: fun_eq_iff dtc_record_def be32_def)
qed

lemma join16_known:
  "join16 hi lo = 0xF190 \<longleftrightarrow> hi = 0xF1 \<and> lo = 0x90" "join16 hi lo = 0xF18C \<longleftrightarrow> hi = 0xF1 \<and> lo = 0x8C"
  "join16 hi lo = 0xF187 \<longleftrightarrow> hi = 0xF1 \<and> lo = 0x87"
  by (simp_all add: join16_eq_iff be16_def drop_bit_eq_div)

section \<open>Properties\<close>

text \<open>
  C19: Every request gets exactly the answer of the reference, and no byte outside its memory is
  read: session control and ECU reset echo their sub-function when it is present, the trouble
  code report carries the sub-function, the availability mask, the count and three code bytes
  and the status of each stored code, and a read of one of the three known identifiers gives its
  record; \<open>7F sid 31\<close> is sent exactly for a supported service whose parameters are missing or
  whose identifier is unknown, \<open>7F sid 11\<close> exactly for another service, \<open>7F 00 11\<close> for nothing.
\<close>

theorem uds_reply_contract:
  assumes "len \<le> length req"
  shows "uds_handle u req len = Some (uds_answer u (take len req))"
proof -
  have rd: "rd req i = Some (req ! i)" if "i < len" for i using that assms by (simp add: rd_def)
  consider "len = 0" | "len = 1" | "len = 2" | n where "len = Suc (Suc (Suc n))" by (metis One_nat_def Suc_1 not0_implies_Suc)
  then show ?thesis
  proof cases
    case (4 n)
    then obtain a b c rest where req: "req = a # b # c # rest" using assms by (auto simp: Suc_le_length_iff)
    show ?thesis using 4 be16_join16 [of b c]
      by (auto simp: req uds_defs uds_consts negative_response_def rd_def join16_known data_record_def dtc_records be16_def Let_def)
  next
    case 3
    then obtain a b rest where req: "req = a # b # rest" using assms by (auto simp: Suc_le_length_iff numeral_2_eq_2)
    show ?thesis using 3 by (simp add: req uds_defs uds_consts negative_response_def dtc_records rd_def)
  next
    case 2
    then obtain a rest where req: "req = a # rest" using assms by (auto simp: Suc_le_length_iff)
    show ?thesis using 2 by (simp add: req uds_defs uds_consts negative_response_def rd_def)
  next
    case 1
    then show ?thesis by (simp add: uds_defs uds_consts negative_response_def)
  qed
qed

theorem uds_reply_contract_witness:
  "uds_handle UdsHandler [0x11, 0x01, 0xAA] 2 = Some [0x51, 0x01]
   \<and> uds_handle UdsHandler [0x11, 0x01, 0xAA] 1 = Some [0x7F, 0x11, 0x31]
   \<and> uds_handle UdsHandler [0x22, 0xF1, 0x8D] 3 = Some [0x7F, 0x22, 0x31]"
  using uds_reply_contract [of 2 "[0x11, 0x01, 0xAA]" UdsHandler] uds_reply_contract [of 1 "[0x11, 0x01, 0xAA]" UdsHandler]
    uds_reply_contract [of 3 "[0x22, 0xF1, 0x8D]" UdsHandler] by (simp add: data_record_def)

text \<open>
  C36: The stored trouble codes survive the report: for a \<open>ReadDTC\<close> request the response
  carries the count and, at every index, the 24-bit code and the status of the stored entry,
  in order (for up to 255 stored codes of 24 bits).
\<close>

theorem uds_dtc_report:
  assumes "2 \<le> len" and "len \<le> length req" and "req ! 0 = UDS_READ_DTC"
    and "length (dtcs u) \<le> 255" and "\<forall>d\<in>set (dtcs u). unat (dtc_code d) < 2 ^ 24"
  shows "\<exists>r. uds_handle u req len = Some r
     \<and> take 5 r = [0x59, req ! 1, 0xFF, 0x09, 0x00] \<and> unat (r ! 5) = length (dtcs u)
     \<and> length r = 6 + 4 * length (dtcs u)
     \<and> (\<forall>i<length (dtcs u). dec_dtc (drop (6 + 4 * i) r)
          = Some (dtc_code (dtcs u ! i), dtc_status (dtcs u ! i)))"
proof -
  let ?h = "[0x59, req ! 1, 0xFF, 0x09, 0x00, of_nat (length (dtcs u))] :: byte list"
  define body where "body = concat (map dtc_record (dtcs u))"
  obtain a b rest where "req = a # b # rest" using assms(1,2) by (metis le_trans length_ge_2E)
  with assms(1,3) have "uds_handle u req len = Some (?h @ body)"
    by (simp add: uds_defs uds_consts rd_def body_def)
  moreover have "unat (of_nat (length (dtcs u)) :: byte) = length (dtcs u)"
    using assms(4) by (simp add: unat_of_nat take_bit_nat_eq_self)
  moreover have "length body = 4 * length (dtcs u)"
    unfolding body_def by (rule dtc_codec.length_concat_enc)
  moreover have "dec_dtc (drop (4 * i) body) = Some (dtc_code (dtcs u ! i), dtc_status (dtcs u ! i))"
    if "i < length (dtcs u)" for i
    using dtc_codec.dec_nth [OF assms(5) that, of "[]"] by (simp add: body_def)
  moreover have "drop (6 + 4 * i) (?h @ body) = drop (4 * i) body" for i
    by (simp add: eval_nat_numeral)
  ultimately show ?thesis by (intro exI [of _ "?h @ body"]) simp
qed

theorem uds_dtc_report_witness:
  "\<exists>r. uds_handle UdsHandler [0x19, 0x02, 0xFF] 3 = Some r \<and> unat (r ! 5) = 3
     \<and> dec_dtc (drop 10 r) = Some (0x023456, 0x09)"
  using uds_dtc_report [of 3 "[0x19, 0x02, 0xFF]" UdsHandler]
  by (auto simp: UdsHandler_def uds_consts dest!: spec [of _ 1])

text \<open>
  \<open>ReadDataByIdentifier\<close> on the identifier \<open>0xF190\<close> echoes the identifier and returns
  the sixteen characters of the demo VIN; every identifier other than the three known ones
  is answered \<open>7F 22 31\<close>.
\<close>

theorem uds_read_data_by_id:
  "uds_handle u ([0x22, 0xF1, 0x90] @ rest) 3
     = Some ([0x62, 0xF1, 0x90] @ string_bytes ''BBB0000000000001'')
   \<and> length (string_bytes ''BBB0000000000001'') = 16
   \<and> (join16 hi lo \<notin> {0xF190, 0xF18C, 0xF187} \<longrightarrow>
        uds_handle u ([0x22, hi, lo] @ rest) 3 = Some [0x7F, 0x22, 0x31])"
  by (simp add: uds_defs uds_consts rd_def join16_def negative_response_def Let_def string_bytes_def)

theorem uds_read_data_by_id_witness:
  "uds_handle UdsHandler ([0x22, 0x12, 0x34] @ []) 3 = Some [0x7F, 0x22, 0x31]"
  using uds_read_data_by_id [where u = UdsHandler and rest = "[]" and hi = "0x12" and lo = "0x34"] by (simp add: join16_def)

end
