(* ===== verification/Doip_Server.thy ===== *)
theory Doip_Server
  imports Doip_Message Uds_Handler
begin

text \<open>
  The DoIP TCP server (\<^verbatim>\<open>src/doip/doip_server.hpp\<close>, \<^verbatim>\<open>doip_server.cpp\<close>).

  \<^item> A connection keeps a receive buffer of 4096 bytes, the number of bytes in it, whether
    routing is activated and the tester's address.
  \<^item> What the server does to the outside (\<open>send\<close>, \<open>close\<close>) is a list of outputs in
    order; the results of \<open>send\<close> are only logged by the code. What it gets from the
    kernel (\<open>accept\<close>, \<open>recv\<close>) is an input of the handlers.
  \<^item> \<open>size_t\<close> has \<open>W\<close> bits: 64 on a 64-bit host, 32 on the BeagleBone Black.
  \<^item> The message loop runs on fuel; running out of it and undefined behaviour are
    different results. The diagnostic service is an argument of the handlers that call it.
\<close>

section \<open>State\<close>

record doip_connection =
  conn_fd :: int
  activated :: bool
  tester_addr :: u16
  recv_buf :: "byte list"
  recv_len :: nat

definition DoIpConnection :: doip_connection where
  "DoIpConnection = \<lparr>conn_fd = -1, activated = False, tester_addr = 0,
     recv_buf = replicate 4096 0, recv_len = 0\<rparr>"

record doip_server =
  listen_fd :: int
  doip_port :: u16
  doip_uds :: uds_handler
  connections :: "int \<rightharpoonup> doip_connection"

datatype doip_out = SendTo int "byte list" | CloseFd int

datatype abort = OutOfFuel | UndefinedBehaviour

type_synonym uds_fun = "byte list \<Rightarrow> nat \<Rightarrow> byte list option"

section \<open>Message handlers\<close>

definition send_to_client :: "int \<Rightarrow> byte list \<Rightarrow> doip_out list" where
  "send_to_client fd data = [SendTo fd data]"

definition handle_routing_activation ::
  "doip_connection \<Rightarrow> byte list \<Rightarrow> nat \<Rightarrow> (doip_connection \<times> doip_out list) option" where
  "handle_routing_activation conn payload len =
     (if len < 2 then Some (conn, [])
      else do {
        p0 \<leftarrow> rd payload 0;
        p1 \<leftarrow> rd payload 1;
        let tester = join16 p0 p1;
        let conn = conn\<lparr>tester_addr := tester, activated := True\<rparr>;
        let res = [ucast (drop_bit 8 tester AND 0xFF), ucast (tester AND 0xFF),
                   ucast (drop_bit 8 DOIP_ECU_ADDRESS AND 0xFF), ucast (DOIP_ECU_ADDRESS AND 0xFF),
                   DOIP_ROUTING_OK, 0x00, 0x00, 0x00, 0x00];
        msg \<leftarrow> make_doip_message DOIP_ROUTING_ACTIVATION_RES res;
        Some (conn, send_to_client (conn_fd conn) msg) })"

definition handle_diagnostic_message ::
  "uds_fun \<Rightarrow> doip_connection \<Rightarrow> byte list \<Rightarrow> nat \<Rightarrow> (doip_connection \<times> doip_out list) option" where
  "handle_diagnostic_message uds conn payload len =
     (if \<not> activated conn then Some (conn, [])
      else if len < 4 then Some (conn, [])
      else do {
        p0 \<leftarrow> rd payload 0; p1 \<leftarrow> rd payload 1;
        p2 \<leftarrow> rd payload 2; p3 \<leftarrow> rd payload 3;
        let src_addr = join16 p0 p1;
        let tgt_addr = join16 p2 p3;
        let uds_data = drop 4 payload;
        let uds_len = len - 4;
        let ack = [ucast (drop_bit 8 src_addr AND 0xFF), ucast (src_addr AND 0xFF),
                   ucast (drop_bit 8 tgt_addr AND 0xFF), ucast (tgt_addr AND 0xFF), DOIP_ACK_OK];
        ack_msg \<leftarrow> make_doip_message DOIP_DIAGNOSTIC_ACK ack;
        let out1 = send_to_client (conn_fd conn) ack_msg;
        uds_response \<leftarrow> uds uds_data uds_len;
        let diag_payload = [ucast (drop_bit 8 tgt_addr AND 0xFF), ucast (tgt_addr AND 0xFF),
                            ucast (drop_bit 8 src_addr AND 0xFF), ucast (src_addr AND 0xFF)]
                           @ uds_response;
        diag_msg \<leftarrow> make_doip_message DOIP_DIAGNOSTIC_MESSAGE diag_payload;
        Some (conn, out1 @ send_to_client (conn_fd conn) diag_msg) })"

definition handle_doip_message ::
  "uds_fun \<Rightarrow> doip_connection \<Rightarrow> doip_header \<Rightarrow> byte list \<Rightarrow> nat
     \<Rightarrow> (doip_connection \<times> doip_out list) option" where
  "handle_doip_message uds conn hdr payload len =
     (if payload_type hdr = DOIP_ROUTING_ACTIVATION_REQ
      then handle_routing_activation conn payload len
      else if payload_type hdr = DOIP_DIAGNOSTIC_MESSAGE
      then handle_diagnostic_message uds conn payload len
      else if payload_type hdr = DOIP_ALIVE_CHECK_REQ
      then do {
        let res = [ucast (drop_bit 8 DOIP_ECU_ADDRESS AND 0xFF), ucast (DOIP_ECU_ADDRESS AND 0xFF)];
        msg \<leftarrow> make_doip_message DOIP_ALIVE_CHECK_RES res;
        Some (conn, send_to_client (conn_fd conn) msg) }
      else Some (conn, []))"

section \<open>Receiving\<close>

text \<open>The end of an iteration: the handled bytes leave the buffer, \<open>memmove\<close> shifts the rest.\<close>

definition consume :: "nat \<Rightarrow> doip_connection \<Rightarrow> doip_connection" where
  "consume n conn =
     (let conn = conn\<lparr>recv_len := recv_len conn - n\<rparr>; m = recv_len conn; buf = recv_buf conn in
      if m > 0 then conn\<lparr>recv_buf := take m (drop n buf) @ drop m buf\<rparr> else conn)"

text \<open>The \<open>while\<close> loop of \<open>on_client_data\<close>, one unit of fuel per iteration.\<close>

fun rx_loop ::
  "nat \<Rightarrow> uds_fun \<Rightarrow> nat \<Rightarrow> doip_connection \<Rightarrow> abort + (doip_connection \<times> doip_out list)" where
  "rx_loop W uds 0 conn = Inl OutOfFuel"
| "rx_loop W uds (Suc fuel) conn =
     (if recv_len conn < DOIP_HEADER_SIZE then Inr (conn, [])
      else (case DoIpHeader_parse (recv_buf conn) (recv_len conn) DoIpHeader of
          None \<Rightarrow> Inl UndefinedBehaviour
        | Some (_, hdr) \<Rightarrow>
            let total = (DOIP_HEADER_SIZE + unat (payload_length hdr)) mod 2 ^ W in
            if recv_len conn < total then Inr (conn, [])
            else (case handle_doip_message uds conn hdr (drop DOIP_HEADER_SIZE (recv_buf conn))
                         (unat (payload_length hdr)) of
                None \<Rightarrow> Inl UndefinedBehaviour
              | Some (conn, out) \<Rightarrow>
                  (case rx_loop W uds fuel (consume total conn) of
                     Inl e \<Rightarrow> Inl e
                   | Inr (conn, out') \<Rightarrow> Inr (conn, out @ out')))))"

declare rx_loop.simps [simp del]

text \<open>
  The result of \<open>recv\<close>: \<open>None\<close> is an error (\<open>n < 0\<close>), \<open>Some []\<close> the end of the
  stream (\<open>n = 0\<close>), \<open>Some bs\<close> the bytes stored at \<open>recv_buf + recv_len\<close>.
\<close>

definition on_client_data ::
  "nat \<Rightarrow> nat \<Rightarrow> doip_server \<Rightarrow> int \<Rightarrow> byte list option \<Rightarrow> abort + (doip_server \<times> doip_out list)" where
  "on_client_data W fuel srv client_fd received =
     (case connections srv client_fd of
        None \<Rightarrow> Inr (srv, [])
      | Some conn \<Rightarrow>
          (if received = None \<or> received = Some []
           then Inr (srv\<lparr>connections := (connections srv)(client_fd := None)\<rparr>, [CloseFd client_fd])
           else (case put (recv_len conn) (the received) (recv_buf conn) of
               None \<Rightarrow> Inl UndefinedBehaviour
             | Some buf \<Rightarrow>
                 let conn = conn\<lparr>recv_buf := buf, recv_len := recv_len conn + length (the received)\<rparr> in
                 (case rx_loop W (uds_handle (doip_uds srv)) fuel conn of
                    Inl e \<Rightarrow> Inl e
                  | Inr (conn, out) \<Rightarrow>
                      Inr (srv\<lparr>connections := (connections srv)(client_fd \<mapsto> conn)\<rparr>, out)))))"

text \<open>
  The reader callback of the listening socket: \<open>accept\<close> failed (\<open>None\<close>) or returned
  a descriptor. The descriptor to register with the event loop is returned beside the
  server.
\<close>

definition on_new_connection ::
  "doip_server \<Rightarrow> int option \<Rightarrow> doip_server \<times> int option" where
  "on_new_connection srv accepted =
     (case accepted of
        None \<Rightarrow> (srv, None)
      | Some client_fd \<Rightarrow>
          (let conn = DoIpConnection\<lparr>conn_fd := client_fd, activated := False\<rparr> in
           (srv\<lparr>connections := (connections srv)(client_fd \<mapsto> conn)\<rparr>, Some client_fd)))"

text \<open>The destructor closes every connection (in some order \<open>fds\<close>), then the listener.\<close>

definition DoIpServer_destroy :: "doip_server \<Rightarrow> int list \<Rightarrow> doip_out list" where
  "DoIpServer_destroy srv fds =
     map CloseFd (filter (\<lambda>fd. fd \<ge> 0) fds)
     @ (if listen_fd srv \<ge> 0 then [CloseFd (listen_fd srv)] else [])"

section \<open>Sequences of events\<close>

text \<open>
  The event loop calls the server when the listening socket or a client socket is
  readable; the result of the system call the callback makes is part of the event.
\<close>

datatype doip_event = Accepted "int option" | Readable int "byte list option"

definition doip_step ::
  "nat \<Rightarrow> nat \<Rightarrow> doip_server \<Rightarrow> doip_event \<Rightarrow> abort + (doip_server \<times> doip_out list)" where
  "doip_step W fuel srv ev =
     (case ev of
        Accepted a \<Rightarrow> Inr (fst (on_new_connection srv a), [])
      | Readable fd received \<Rightarrow> on_client_data W fuel srv fd received)"

fun serve ::
  "nat \<Rightarrow> nat \<Rightarrow> doip_server \<Rightarrow> doip_event list \<Rightarrow> abort + (doip_server \<times> doip_out list)" where
  "serve W fuel srv [] = Inr (srv, [])"
| "serve W fuel srv (ev # evs) =
     (case doip_step W fuel srv ev of
        Inl e \<Rightarrow> Inl e
      | Inr (srv', out) \<Rightarrow>
          (case serve W fuel srv' evs of
             Inl e \<Rightarrow> Inl e
           | Inr (srv'', out') \<Rightarrow> Inr (srv'', out @ out')))"

end
