(* ===== verification/Doip_Stream.thy ===== *)
theory Doip_Stream
  imports Doip_Server
begin

text \<open>
  The DoIP server against its specification. The specification knows nothing of buffers:
  it takes the messages of the byte stream one by one, remembers the address of the
  activated tester and says what is sent back. The server implements it for every way in
  which TCP cuts the stream into pieces.
\<close>

section \<open>Specification\<close>

definition doip_spec ::
  "(byte list \<Rightarrow> byte list) \<Rightarrow> int \<Rightarrow> u16 option \<Rightarrow> u16 \<times> byte list \<Rightarrow> u16 option \<times> doip_out list" where
  "doip_spec reply fd s m =
     (case m of (ty, pl) \<Rightarrow>
        if ty = DOIP_ROUTING_ACTIVATION_REQ then
          (if length pl < 2 then (s, [])
           else (Some (join16 (pl ! 0) (pl ! 1)),
                 [SendTo fd (doip_frame DOIP_ROUTING_ACTIVATION_RES
                    (take 2 pl @ be16 DOIP_ECU_ADDRESS @ [DOIP_ROUTING_OK, 0, 0, 0, 0]))]))
        else if ty = DOIP_DIAGNOSTIC_MESSAGE then
          (if s = None \<or> length pl < 4 then (s, [])
           else (s, [SendTo fd (doip_frame DOIP_DIAGNOSTIC_ACK (take 4 pl @ [DOIP_ACK_OK])),
                     SendTo fd (doip_frame DOIP_DIAGNOSTIC_MESSAGE
                       (take 2 (drop 2 pl) @ take 2 pl @ reply (drop 4 pl)))]))
        else if ty = DOIP_ALIVE_CHECK_REQ then
          (s, [SendTo fd (doip_frame DOIP_ALIVE_CHECK_RES (be16 DOIP_ECU_ADDRESS))])
        else (s, []))"

section \<open>Abstraction and invariant\<close>

definition abs_conn :: "doip_connection \<Rightarrow> u16 option" where
  "abs_conn conn = (if activated conn then Some (tester_addr conn) else None)"

definition contents :: "doip_connection \<Rightarrow> byte list" where
  "contents conn = take (recv_len conn) (recv_buf conn)"

definition conn_wf :: "doip_connection \<Rightarrow> bool" where
  "conn_wf conn \<longleftrightarrow> length (recv_buf conn) = 4096 \<and> recv_len conn \<le> 4096"

lemma length_contents: "conn_wf conn \<Longrightarrow> length (contents conn) = recv_len conn"
  by (simp add: conn_wf_def contents_def)

lemma split_join16: "[ucast (drop_bit 8 (join16 a b) AND 0xFF), ucast (join16 a b AND 0xFF)] = [a, b]"
  using be16_join16 [of a b] by (simp add: be16_def)

lemma split_join16_bytes [simp]:
  "ucast (drop_bit 8 (join16 a b) AND 0xFF) = (a :: byte)" "ucast (join16 a b AND 0xFF) = (b :: byte)"
  using split_join16 [of a b] by simp_all

section \<open>One message\<close>

context diag_service
begin

lemma handle_routing_spec:
  assumes "len \<le> length payload"
  shows "\<exists>conn'. handle_routing_activation conn payload len =
           Some (conn', snd (doip_spec (reply_of handle) (conn_fd conn) (abs_conn conn)
                               (DOIP_ROUTING_ACTIVATION_REQ, take len payload)))
         \<and> abs_conn conn' = fst (doip_spec (reply_of handle) (conn_fd conn) (abs_conn conn)
                               (DOIP_ROUTING_ACTIVATION_REQ, take len payload))
         \<and> recv_buf conn' = recv_buf conn \<and> recv_len conn' = recv_len conn \<and> conn_fd conn' = conn_fd conn"
proof (cases "len < 2")
  case True
  then show ?thesis by (simp add: handle_routing_activation_def doip_spec_def)
next
  case False
  with assms obtain a b rest where "payload = a # b # rest"
    by (metis le_trans length_ge_2E not_less)
  with False assms show ?thesis
    by (simp add: handle_routing_activation_def doip_spec_def send_to_client_def
        make_doip_message_frame be16_def abs_conn_def take_Cons' rd_def nth_Cons')
qed

lemma handle_diag_spec:
  assumes "len \<le> length payload"
  shows "handle_diagnostic_message handle conn payload len =
           Some (conn, snd (doip_spec (reply_of handle) (conn_fd conn) (abs_conn conn)
                               (DOIP_DIAGNOSTIC_MESSAGE, take len payload)))"
proof (cases "\<not> activated conn \<or> len < 4")
  case True
  then show ?thesis
    by (auto simp: handle_diagnostic_message_def doip_spec_def doip_consts abs_conn_def)
next
  case False
  with assms obtain a b c d rest where p: "payload = a # b # c # d # rest"
    by (metis le_trans length_ge_4E not_less)
  obtain k where k: "len = 4 + k" using False by (metis le_Suc_ex not_less)
  then have le: "k \<le> length rest" using assms p by simp
  then have "handle rest k = Some (reply_of handle (take k rest))" by (rule handle_reply)
  moreover have "take (4 + k) (a # b # c # d # rest) = a # b # c # d # take k rest"
    by (simp add: eval_nat_numeral)
  ultimately show ?thesis using False p k le
    by (simp add: handle_diagnostic_message_def doip_spec_def send_to_client_def
        make_doip_message_frame be16_def abs_conn_def rd_def doip_consts min_def)
qed

text \<open>The dispatcher implements one step of the specification.\<close>

lemma handle_message_spec:
  assumes "len \<le> length payload"
  shows "\<exists>conn'. handle_doip_message handle conn hdr payload len =
           Some (conn', snd (doip_spec (reply_of handle) (conn_fd conn) (abs_conn conn)
                               (payload_type hdr, take len payload)))
         \<and> abs_conn conn' = fst (doip_spec (reply_of handle) (conn_fd conn) (abs_conn conn)
                               (payload_type hdr, take len payload))
         \<and> recv_buf conn' = recv_buf conn \<and> recv_len conn' = recv_len conn \<and> conn_fd conn' = conn_fd conn"
proof (cases "payload_type hdr = DOIP_ROUTING_ACTIVATION_REQ \<or> payload_type hdr = DOIP_DIAGNOSTIC_MESSAGE")
  case True
  then show ?thesis
  proof
    assume "payload_type hdr = DOIP_ROUTING_ACTIVATION_REQ"
    then show ?thesis using handle_routing_spec [OF assms, of conn] by (simp add: handle_doip_message_def)
  next
    assume "payload_type hdr = DOIP_DIAGNOSTIC_MESSAGE"
    then show ?thesis using handle_diag_spec [OF assms, of conn]
      by (auto simp: handle_doip_message_def doip_spec_def doip_consts)
  qed
next
  case False
  then show ?thesis
    by (auto simp: handle_doip_message_def doip_spec_def send_to_client_def make_doip_message_frame
        be16_def)
qed

end

section \<open>The receive loop\<close>

lemma parse_contents:
  assumes "conn_wf conn" and "8 \<le> recv_len conn"
  obtains hdr where "DoIpHeader_parse (recv_buf conn) (recv_len conn) DoIpHeader = Some (True, hdr)"
    and "payload_type hdr = join16 (contents conn ! 2) (contents conn ! 3)"
    and "payload_length hdr
           = join32 (contents conn ! 4) (contents conn ! 5) (contents conn ! 6) (contents conn ! 7)"
  using assms by (simp add: DoIpHeader_parse_def conn_wf_def contents_def)

text \<open>\<open>memmove\<close> leaves the bytes after the handled message at the front.\<close>

lemma consume_contents:
  assumes "conn_wf conn" and "n \<le> recv_len conn"
  shows "contents (consume n conn) = drop n (contents conn)" and "conn_wf (consume n conn)"
  using assms by (auto simp: consume_def contents_def conn_wf_def drop_take Let_def)

lemma consume_fields [simp]:
  "conn_fd (consume n conn) = conn_fd conn" "abs_conn (consume n conn) = abs_conn conn"
  "recv_len (consume n conn) = recv_len conn - n"
  by (simp_all add: consume_def abs_conn_def Let_def)

context diag_service
begin

text \<open>
  With a 64-bit \<open>size_t\<close> the length computation cannot wrap, every iteration takes at
  least eight bytes off the buffer, and the loop ends with exactly what the specification
  does for the messages framed from the buffer.
\<close>

lemma rx_loop_spec:
  assumes "33 \<le> W" and "conn_wf conn" and "recv_len conn < fuel"
  shows "\<exists>conn' outs. rx_loop W handle fuel conn = Inr (conn', outs) \<and> conn_wf conn'
     \<and> contents conn' = snd (deframe doip_next (contents conn)) \<and> conn_fd conn' = conn_fd conn
     \<and> run_steps (doip_spec (reply_of handle) (conn_fd conn)) (abs_conn conn)
         (fst (deframe doip_next (contents conn))) = (abs_conn conn', outs)"
  using assms
proof (induction fuel arbitrary: conn)
  case 0
  then show ?case by simp
next
  case (Suc fuel)
  note len = length_contents [OF Suc.prems(2)]
  show ?case
  proof (cases "recv_len conn < 8")
    case True
    then have "doip_next (contents conn) = None" by (simp add: doip_next_def len)
    with True Suc.prems show ?thesis
      by (simp add: rx_loop.simps doip_stream.deframe_None)
  next
    case False
    then obtain hdr
      where hdr: "DoIpHeader_parse (recv_buf conn) (recv_len conn) DoIpHeader = Some (True, hdr)"
        and ty: "payload_type hdr = join16 (contents conn ! 2) (contents conn ! 3)"
        and pl: "payload_length hdr
           = join32 (contents conn ! 4) (contents conn ! 5) (contents conn ! 6) (contents conn ! 7)"
      using parse_contents [OF Suc.prems(2)] by (metis not_less)
    define k where "k = unat (payload_length hdr)"
    have "k < 2 ^ 32" unfolding k_def by (rule unat_u32)
    then have "8 + k < 2 ^ 33" by simp
    also have "(2::nat) ^ 33 \<le> 2 ^ W" using Suc.prems(1) by (rule power_increasing) simp
    finally have nowrap: "(8 + k) mod 2 ^ W = 8 + k" by simp
    show ?thesis
    proof (cases "recv_len conn < 8 + k")
      case True
      then have "doip_next (contents conn) = None"
        by (simp add: doip_next_def len Let_def k_def pl)
      with True False Suc.prems hdr nowrap show ?thesis
        by (simp add: rx_loop.simps doip_stream.deframe_None flip: k_def)
    next
      case complete: False
      have tk: "take k (drop 8 (recv_buf conn)) = take k (drop 8 (contents conn))"
        using complete by (simp add: contents_def drop_take min_def)
      have nx: "doip_next (contents conn) = Some ((payload_type hdr, take k (drop 8 (contents conn))), 8 + k)"
        using complete False by (simp add: doip_next_def len Let_def k_def pl ty)
      have "k \<le> length (drop 8 (recv_buf conn))"
        using complete Suc.prems(2) by (simp add: conn_wf_def)
      from handle_message_spec [OF this, of conn hdr] obtain conn1 where
        h1: "handle_doip_message handle conn hdr (drop 8 (recv_buf conn)) k =
           Some (conn1, snd (doip_spec (reply_of handle) (conn_fd conn) (abs_conn conn)
                               (payload_type hdr, take k (drop 8 (contents conn)))))"
        and a1: "abs_conn conn1 = fst (doip_spec (reply_of handle) (conn_fd conn) (abs_conn conn)
                               (payload_type hdr, take k (drop 8 (contents conn))))"
        and same: "recv_buf conn1 = recv_buf conn" "recv_len conn1 = recv_len conn"
          "conn_fd conn1 = conn_fd conn"
        by (auto simp: tk)
      have wf1: "conn_wf conn1" and c1: "contents conn1 = contents conn"
        using Suc.prems(2) same by (simp_all add: conn_wf_def contents_def)
      have le1: "8 + k \<le> recv_len conn1" using complete same by simp
      have "recv_len (consume (8 + k) conn1) < fuel"
        using Suc.prems(3) complete same by simp
      from Suc.IH [OF Suc.prems(1) consume_contents(2) [OF wf1 le1] this]
      obtain conn2 outs where
        r2: "rx_loop W handle fuel (consume (8 + k) conn1) = Inr (conn2, outs)" and "conn_wf conn2"
        and "contents conn2 = snd (deframe doip_next (drop (8 + k) (contents conn)))"
        and "conn_fd conn2 = conn_fd conn"
        and "run_steps (doip_spec (reply_of handle) (conn_fd conn)) (abs_conn conn1)
               (fst (deframe doip_next (drop (8 + k) (contents conn)))) = (abs_conn conn2, outs)"
        by (auto simp: consume_contents(1) [OF wf1 le1] c1 same)
      with h1 a1 hdr nowrap False complete show ?thesis
        by (simp add: rx_loop.simps doip_stream.deframe_Some [OF nx] run_steps_Cons
            del: run_steps.simps(2) flip: k_def)
    qed
  qed
qed

end

section \<open>The server\<close>

definition srv_wf :: "doip_server \<Rightarrow> bool" where
  "srv_wf srv \<longleftrightarrow>
     (\<forall>fd conn. connections srv fd = Some conn \<longrightarrow>
        conn_wf conn \<and> conn_fd conn = fd \<and> doip_next (contents conn) = None)"

text \<open>The contract of \<open>recv\<close>: it stores no more bytes than it was asked for.\<close>

definition recv_ok :: "doip_server \<Rightarrow> doip_event \<Rightarrow> bool" where
  "recv_ok srv ev =
     (case ev of
        Readable fd (Some bs) \<Rightarrow>
          (case connections srv fd of
             None \<Rightarrow> True
           | Some conn \<Rightarrow> length bs \<le> 4096 - recv_len conn)
      | _ \<Rightarrow> True)"

fun kernel_ok :: "nat \<Rightarrow> nat \<Rightarrow> doip_server \<Rightarrow> doip_event list \<Rightarrow> bool" where
  "kernel_ok W fuel srv [] = True"
| "kernel_ok W fuel srv (ev # evs) =
     (recv_ok srv ev \<and>
      (case doip_step W fuel srv ev of Inl _ \<Rightarrow> True | Inr (srv', _) \<Rightarrow> kernel_ok W fuel srv' evs))"

definition out_fd :: "doip_out \<Rightarrow> int" where
  "out_fd out = (case out of SendTo fd _ \<Rightarrow> fd | CloseFd fd \<Rightarrow> fd)"

lemma contents_received:
  assumes "conn_wf conn" and "length bs \<le> 4096 - recv_len conn"
  obtains buf where "put (recv_len conn) bs (recv_buf conn) = Some buf"
    and "conn_wf (conn\<lparr>recv_buf := buf, recv_len := recv_len conn + length bs\<rparr>)"
    and "contents (conn\<lparr>recv_buf := buf, recv_len := recv_len conn + length bs\<rparr>) = contents conn @ bs"
proof -
  let ?buf = "take (recv_len conn) (recv_buf conn) @ bs @ drop (recv_len conn + length bs) (recv_buf conn)"
  have "put (recv_len conn) bs (recv_buf conn) = Some ?buf"
    using assms by (auto simp: put_def conn_wf_def)
  with assms show ?thesis by (intro that [of ?buf]) (auto simp: conn_wf_def contents_def)
qed

lemma doip_spec_fds: "out \<in> set (snd (doip_spec reply fd s m)) \<Longrightarrow> out_fd out = fd"
  by (auto simp: doip_spec_def out_fd_def split: prod.splits if_splits)

lemma run_spec_fds: "out \<in> set (snd (run_steps (doip_spec reply fd) s ms)) \<Longrightarrow> out_fd out = fd"
  by (induction ms arbitrary: s) (auto simp: run_steps_Cons dest: doip_spec_fds simp del: run_steps.simps(2))

text \<open>What one readable event does to a connection, in terms of the specification.\<close>

lemma on_client_data_spec:
  assumes "33 \<le> W" and "4096 < fuel" and "connections srv fd = Some conn" and "conn_wf conn"
    and "bs \<noteq> []" and "length bs \<le> 4096 - recv_len conn"
  shows "\<exists>conn' outs. on_client_data W fuel srv fd (Some bs)
           = Inr (srv\<lparr>connections := (connections srv)(fd \<mapsto> conn')\<rparr>, outs)
     \<and> conn_wf conn' \<and> conn_fd conn' = conn_fd conn
     \<and> contents conn' = snd (deframe doip_next (contents conn @ bs))
     \<and> run_steps (doip_spec (reply_of (uds_handle (doip_uds srv))) (conn_fd conn)) (abs_conn conn)
         (fst (deframe doip_next (contents conn @ bs))) = (abs_conn conn', outs)"
proof -
  obtain buf where buf: "put (recv_len conn) bs (recv_buf conn) = Some buf"
    and wf: "conn_wf (conn\<lparr>recv_buf := buf, recv_len := recv_len conn + length bs\<rparr>)"
    and c: "contents (conn\<lparr>recv_buf := buf, recv_len := recv_len conn + length bs\<rparr>) = contents conn @ bs"
    using contents_received [OF assms(4,6)] .
  have "recv_len (conn\<lparr>recv_buf := buf, recv_len := recv_len conn + length bs\<rparr>) < fuel"
    using wf assms(2) by (auto simp: conn_wf_def)
  from uds.rx_loop_spec [OF assms(1) wf this, of "doip_uds srv"] show ?thesis
    using assms(3,5) buf c by (auto simp: on_client_data_def abs_conn_def)
qed

lemma doip_step_wf:
  assumes "33 \<le> W" and "4096 < fuel" and "srv_wf srv" and "recv_ok srv ev"
  shows "\<exists>srv' outs. doip_step W fuel srv ev = Inr (srv', outs) \<and> srv_wf srv'"
proof (cases ev)
  case (Accepted a)
  have "doip_next (contents DoIpConnection) = None" "conn_wf DoIpConnection"
    by (simp_all add: doip_next_def contents_def conn_wf_def DoIpConnection_def)
  with assms(3) Accepted show ?thesis
    by (auto simp: doip_step_def on_new_connection_def srv_wf_def contents_def conn_wf_def split: option.split)
next
  case (Readable fd r)
  show ?thesis
  proof (cases "connections srv fd = None \<or> r = None \<or> r = Some []")
    case True
    with assms(3) Readable show ?thesis
      by (auto simp: doip_step_def on_client_data_def srv_wf_def split: option.splits)
  next
    case False
    then obtain conn bs where conn: "connections srv fd = Some conn" and r: "r = Some bs" "bs \<noteq> []" by auto
    with assms(3,4) Readable have "conn_wf conn" "conn_fd conn = fd" "length bs \<le> 4096 - recv_len conn"
      by (auto simp: srv_wf_def recv_ok_def)
    with on_client_data_spec [OF assms(1,2) conn _ r(2)] assms(3) Readable r show ?thesis
      by (fastforce simp: doip_step_def srv_wf_def doip_stream.deframe_rest)
  qed
qed

lemma serve_wf:
  assumes "33 \<le> W" and "4096 < fuel"
  shows "srv_wf srv \<Longrightarrow> kernel_ok W fuel srv evs \<Longrightarrow>
         \<exists>srv' outs. serve W fuel srv evs = Inr (srv', outs) \<and> srv_wf srv'"
proof (induction evs arbitrary: srv)
  case Nil
  then show ?case by simp
next
  case (Cons ev evs)
  from Cons.prems doip_step_wf [OF assms, of srv ev] obtain srv1 out
    where "doip_step W fuel srv ev = Inr (srv1, out)" "srv_wf srv1" by auto
  with Cons.prems Cons.IH [of srv1] show ?case by auto
qed

section \<open>Streams cut into chunks\<close>

abbreviation chunk_events :: "int \<Rightarrow> byte list list \<Rightarrow> doip_event list" where
  "chunk_events fd cs \<equiv> map (\<lambda>c. Readable fd (Some c)) cs"

lemma serve_stream:
  assumes "33 \<le> W" and "4096 < fuel"
  shows "connections srv fd = Some conn \<Longrightarrow> srv_wf srv \<Longrightarrow> \<forall>c\<in>set cs. c \<noteq> [] \<Longrightarrow>
         kernel_ok W fuel srv (chunk_events fd cs) \<Longrightarrow>
         \<exists>srv' conn' outs. serve W fuel srv (chunk_events fd cs) = Inr (srv', outs)
           \<and> connections srv' = (connections srv)(fd \<mapsto> conn')
           \<and> contents conn' = snd (deframe doip_next (contents conn @ concat cs))
           \<and> run_steps (doip_spec (reply_of (uds_handle (doip_uds srv))) fd) (abs_conn conn)
               (fst (deframe doip_next (contents conn @ concat cs))) = (abs_conn conn', outs)"
proof (induction cs arbitrary: srv conn)
  case Nil
  then have "doip_next (contents conn) = None" by (auto simp: srv_wf_def)
  with Nil show ?case
    by (intro exI [of _ srv] exI [of _ conn] exI [of _ "[]"])
       (simp add: doip_stream.deframe_None fun_upd_idem)
next
  case (Cons c cs)
  from Cons.prems have wf: "conn_wf conn" and fd: "conn_fd conn = fd" and c: "c \<noteq> []"
    and le: "length c \<le> 4096 - recv_len conn" by (auto simp: srv_wf_def recv_ok_def)
  from on_client_data_spec [OF assms Cons.prems(1) wf c le] obtain conn1 out1 where
    s1: "doip_step W fuel srv (Readable fd (Some c))
           = Inr (srv\<lparr>connections := (connections srv)(fd \<mapsto> conn1)\<rparr>, out1)"
    and c1: "contents conn1 = snd (deframe doip_next (contents conn @ c))"
    and r1: "run_steps (doip_spec (reply_of (uds_handle (doip_uds srv))) fd) (abs_conn conn)
         (fst (deframe doip_next (contents conn @ c))) = (abs_conn conn1, out1)"
    by (auto simp: doip_step_def fd)
  let ?srv1 = "srv\<lparr>connections := (connections srv)(fd \<mapsto> conn1)\<rparr>"
  have "recv_ok srv (Readable fd (Some c))" using Cons.prems(4) by simp
  from doip_step_wf [OF assms Cons.prems(2) this] s1 have wf1: "srv_wf ?srv1" by simp
  have "kernel_ok W fuel ?srv1 (chunk_events fd cs)" using Cons.prems(4) s1 by simp
  from Cons.IH [OF _ wf1 _ this, of conn1] Cons.prems(3) obtain srv' conn' outs where
    "serve W fuel ?srv1 (chunk_events fd cs) = Inr (srv', outs)"
    "connections srv' = (connections srv)(fd \<mapsto> conn')"
    "contents conn' = snd (deframe doip_next (contents conn1 @ concat cs))"
    "run_steps (doip_spec (reply_of (uds_handle (doip_uds srv))) fd) (abs_conn conn1)
       (fst (deframe doip_next (contents conn1 @ concat cs))) = (abs_conn conn', outs)"
    by (auto simp: fun_upd_same simp del: fun_upd_apply)
  with s1 r1 show ?case
    by (intro exI [of _ srv'] exI [of _ conn'] exI [of _ "out1 @ outs"])
       (simp add: doip_stream.deframe_append [of "contents conn @ c", unfolded append_assoc]
        run_steps_append c1)
qed

section \<open>Before activation\<close>

definition activates :: "u16 \<times> byte list \<Rightarrow> bool" where
  "activates m \<longleftrightarrow> fst m = DOIP_ROUTING_ACTIVATION_REQ \<and> 2 \<le> length (snd m)"

definition alive_response :: "byte list" where
  "alive_response = doip_frame DOIP_ALIVE_CHECK_RES (be16 DOIP_ECU_ADDRESS)"

lemma spec_before_activation:
  "\<forall>m\<in>set ms. \<not> activates m \<Longrightarrow>
   fst (run_steps (doip_spec reply fd) None ms) = None
   \<and> (\<forall>out\<in>set (snd (run_steps (doip_spec reply fd) None ms)). out = SendTo fd alive_response)"
proof (induction ms)
  case Nil
  then show ?case by simp
next
  case (Cons m ms)
  have "fst (doip_spec reply fd None m) = None"
    and "\<forall>out\<in>set (snd (doip_spec reply fd None m)). out = SendTo fd alive_response"
    using Cons.prems by (auto simp: doip_spec_def activates_def alive_response_def split: prod.splits)
  with Cons show ?case by (auto simp: run_steps_Cons simp del: run_steps.simps(2))
qed

section \<open>Properties\<close>

text \<open>A server with one fresh client, for the examples.\<close>

definition demo_server :: doip_server where
  "demo_server = \<lparr>listen_fd = 4, doip_port = 13400, doip_uds = UdsHandler,
     connections = [5 \<mapsto> DoIpConnection\<lparr>conn_fd := 5\<rparr>]\<rparr>"

lemma demo_server_wf: "srv_wf demo_server"
  by (auto simp: srv_wf_def demo_server_def conn_wf_def contents_def DoIpConnection_def doip_next_def
      split: if_splits)

lemma demo_server_conn:
  "connections demo_server 5 = Some (DoIpConnection\<lparr>conn_fd := 5\<rparr>)"
  "contents (DoIpConnection\<lparr>conn_fd := 5\<rparr>) = []" "abs_conn (DoIpConnection\<lparr>conn_fd := 5\<rparr>) = None"
  by (simp_all add: demo_server_def contents_def abs_conn_def DoIpConnection_def)

lemma demo_kernel_ok:
  "length bs \<le> 4096 \<Longrightarrow> kernel_ok W fuel demo_server (chunk_events 5 [bs])"
  by (auto simp: recv_ok_def demo_server_def DoIpConnection_def split: sum.split)

text \<open>
  C3: On a 64-bit host (a \<open>size_t\<close> of at least 33 bits), however TCP cuts a client's
  byte stream into non-empty chunks, the server returns after every chunk without undefined
  behaviour, and what it sends is exactly what the DoIP specification sends for the
  sequence of messages framed from the whole stream; the bytes of an incomplete last
  message stay in the buffer.
\<close>

theorem doip_stream_refinement:
  assumes "33 \<le> W" and "4096 < fuel"
    and "connections srv fd = Some conn" and "srv_wf srv" and "\<forall>c\<in>set cs. c \<noteq> []"
    and "kernel_ok W fuel srv (chunk_events fd cs)"
  shows "\<exists>srv' conn' outs. serve W fuel srv (chunk_events fd cs) = Inr (srv', outs)
           \<and> connections srv' = (connections srv)(fd \<mapsto> conn')
           \<and> contents conn' = snd (deframe doip_next (contents conn @ concat cs))
           \<and> run_steps (doip_spec (reply_of (uds_handle (doip_uds srv))) fd) (abs_conn conn)
               (fst (deframe doip_next (contents conn @ concat cs))) = (abs_conn conn', outs)"
  using assms by (rule serve_stream)

definition demo_stream :: "byte list" where
  "demo_stream = [0x02, 0xFD, 0x00, 0x05, 0x00, 0x00, 0x00, 0x07, 0x0E, 0x00, 0, 0, 0, 0, 0,
                  0x02, 0xFD, 0x80, 0x01, 0x00, 0x00, 0x00, 0x06, 0x0E, 0x00, 0x00, 0x01, 0x11, 0x01]"

lemma demo_deframe:
  "deframe doip_next demo_stream =
     ([(0x0005, [0x0E, 0x00, 0, 0, 0, 0, 0]), (0x8001, [0x0E, 0x00, 0x00, 0x01, 0x11, 0x01])], [])"
  by code_simp

lemma demo_spec:
  "run_steps (doip_spec (reply_of (uds_handle UdsHandler)) 5) None (fst (deframe doip_next demo_stream)) =
     (Some 0x0E00,
      [SendTo 5 [0x02, 0xFD, 0x00, 0x06, 0, 0, 0, 9, 0x0E, 0x00, 0x00, 0x01, 0x10, 0, 0, 0, 0],
       SendTo 5 [0x02, 0xFD, 0x80, 0x02, 0, 0, 0, 5, 0x0E, 0x00, 0x00, 0x01, 0x00],
       SendTo 5 [0x02, 0xFD, 0x80, 0x01, 0, 0, 0, 6, 0x00, 0x01, 0x0E, 0x00, 0x51, 0x01]])"
  unfolding demo_deframe by code_simp

theorem doip_stream_refinement_witness:
  "\<exists>srv'. serve 64 5000 demo_server (chunk_events 5 [demo_stream]) = Inr (srv',
      [SendTo 5 [0x02, 0xFD, 0x00, 0x06, 0, 0, 0, 9, 0x0E, 0x00, 0x00, 0x01, 0x10, 0, 0, 0, 0],
       SendTo 5 [0x02, 0xFD, 0x80, 0x02, 0, 0, 0, 5, 0x0E, 0x00, 0x00, 0x01, 0x00],
       SendTo 5 [0x02, 0xFD, 0x80, 0x01, 0, 0, 0, 6, 0x00, 0x01, 0x0E, 0x00, 0x51, 0x01]])"
proof -
  have "length demo_stream \<le> 4096" "demo_stream \<noteq> []" by (simp_all add: demo_stream_def)
  moreover have "doip_uds demo_server = UdsHandler" by (simp add: demo_server_def)
  ultimately show ?thesis
    using doip_stream_refinement [of 64 5000 demo_server 5 _ "[demo_stream]", OF _ _ demo_server_conn(1) demo_server_wf]
      demo_kernel_ok [of demo_stream 64 5000] demo_spec
    by (auto simp: demo_server_conn)
qed

text \<open>
  C13: Memory safety and termination of the whole server on a 64-bit host: for every
  sequence of connection and data events in which \<open>recv\<close> keeps its contract, every
  callback returns, no access leaves the receive buffer, and every connection keeps its
  well-formed buffer with no complete message left unhandled.
\<close>

theorem doip_server_safe:
  assumes "33 \<le> W" and "4096 < fuel" and "srv_wf srv" and "kernel_ok W fuel srv evs"
  shows "\<exists>srv' outs. serve W fuel srv evs = Inr (srv', outs) \<and> srv_wf srv'"
  using assms by (rule serve_wf)

theorem doip_server_safe_witness:
  "\<exists>srv' outs. serve 64 4097 demo_server [Readable 5 (Some demo_stream)] = Inr (srv', outs) \<and> srv_wf srv'"
  using doip_server_safe [of 64 4097, OF _ _ demo_server_wf, of "[Readable 5 (Some demo_stream)]"]
    demo_kernel_ok [of demo_stream 64 4097]
  by (simp add: demo_stream_def)

text \<open>
  C18: No diagnostics before routing activation: if the messages of a fresh connection's
  stream contain no routing activation request (with its two address bytes), the client is
  sent nothing but alive-check responses, and the connection stays inactive.
\<close>

theorem doip_activation_required:
  assumes "33 \<le> W" and "4096 < fuel"
    and "connections srv fd = Some conn" and "srv_wf srv" and "\<not> activated conn"
    and "\<forall>c\<in>set cs. c \<noteq> []" and "kernel_ok W fuel srv (chunk_events fd cs)"
    and "\<forall>m\<in>set (fst (deframe doip_next (contents conn @ concat cs))). \<not> activates m"
  shows "\<exists>srv' conn' outs. serve W fuel srv (chunk_events fd cs) = Inr (srv', outs)
           \<and> connections srv' fd = Some conn' \<and> \<not> activated conn'
           \<and> (\<forall>out\<in>set outs. out = SendTo fd alive_response)"
proof -
  have "abs_conn conn = None" using assms(5) by (simp add: abs_conn_def)
  with serve_stream [OF assms(1,2,3,4,6,7)]
    spec_before_activation [OF assms(8), of "reply_of (uds_handle (doip_uds srv))" fd]
  show ?thesis by (fastforce simp: abs_conn_def split: if_splits)
qed

definition demo_early :: "byte list" where
  "demo_early = [0x02, 0xFD, 0x80, 0x01, 0, 0, 0, 6, 0x0E, 0x00, 0x00, 0x01, 0x11, 0x01,
                 0x02, 0xFD, 0x00, 0x07, 0, 0, 0, 0]"

theorem doip_activation_required_witness:
  "\<exists>srv' conn' outs. serve 64 4097 demo_server (chunk_events 5 [demo_early]) = Inr (srv', outs)
     \<and> connections srv' 5 = Some conn' \<and> \<not> activated conn'
     \<and> (\<forall>out\<in>set outs. out = SendTo 5 alive_response)"
proof (rule doip_activation_required [OF _ _ demo_server_conn(1) demo_server_wf])
  show "kernel_ok 64 4097 demo_server (chunk_events 5 [demo_early])"
    by (rule demo_kernel_ok) (simp add: demo_early_def)
  have "\<forall>m\<in>set (fst (deframe doip_next demo_early)). \<not> activates m" by code_simp
  then show "\<forall>m\<in>set (fst (deframe doip_next (contents (DoIpConnection\<lparr>conn_fd := 5\<rparr>)
      @ concat [demo_early]))). \<not> activates m"
    by (simp add: demo_server_conn)
qed (simp_all add: demo_early_def DoIpConnection_def)

text \<open>
  C30: Isolation of clients: an event of one client changes no other client's connection
  and sends or closes on that client's descriptor only.
\<close>

theorem doip_isolation:
  assumes "33 \<le> W" and "4096 < fuel" and "srv_wf srv" and "recv_ok srv (Readable fd received)"
  shows "\<exists>srv' outs. on_client_data W fuel srv fd received = Inr (srv', outs)
           \<and> (\<forall>fd'. fd' \<noteq> fd \<longrightarrow> connections srv' fd' = connections srv fd')
           \<and> (\<forall>out\<in>set outs. out_fd out = fd)"
proof (cases "connections srv fd = None \<or> received = None \<or> received = Some []")
  case True
  then show ?thesis by (auto simp: on_client_data_def out_fd_def split: option.split)
next
  case False
  then obtain conn bs where conn: "connections srv fd = Some conn" and r: "received = Some bs" "bs \<noteq> []"
    by auto
  with assms(3,4) have "conn_wf conn" "conn_fd conn = fd" "length bs \<le> 4096 - recv_len conn"
    by (auto simp: srv_wf_def recv_ok_def)
  with on_client_data_spec [OF assms(1,2) conn _ r(2)] obtain conn' outs where
    "on_client_data W fuel srv fd (Some bs) = Inr (srv\<lparr>connections := (connections srv)(fd \<mapsto> conn')\<rparr>, outs)"
    and "outs = snd (run_steps (doip_spec (reply_of (uds_handle (doip_uds srv))) fd) (abs_conn conn)
         (fst (deframe doip_next (contents conn @ bs))))"
    by (metis snd_conv)
  with r show ?thesis by (auto dest: run_spec_fds)
qed

theorem doip_isolation_witness:
  "\<exists>srv' outs. on_client_data 64 4097 demo_server 5 (Some demo_stream) = Inr (srv', outs)
     \<and> (\<forall>fd'. fd' \<noteq> 5 \<longrightarrow> connections srv' fd' = connections demo_server fd')
     \<and> (\<forall>out\<in>set outs. out_fd out = 5)"
  using doip_isolation [of 64 4097, OF _ _ demo_server_wf, of 5 "Some demo_stream"]
    demo_kernel_ok [of demo_stream 64 4097]
  by (simp add: demo_stream_def)

text \<open>
  C35: A message that does not fit the 4096-byte buffer ends the connection: when the
  buffer is full and holds no complete message, \<open>recv\<close> is asked for zero bytes, so its
  result is zero or an error, and the server closes and forgets the connection.
\<close>

theorem doip_full_buffer_closes:
  assumes "srv_wf srv" and "connections srv fd = Some conn" and "recv_len conn = 4096"
    and "recv_ok srv (Readable fd received)"
  shows "on_client_data W fuel srv fd received
           = Inr (srv\<lparr>connections := (connections srv)(fd := None)\<rparr>, [CloseFd fd])
         \<and> 4088 < unat (join32 (recv_buf conn ! 4) (recv_buf conn ! 5) (recv_buf conn ! 6) (recv_buf conn ! 7))"
proof
  have "received = None \<or> received = Some []"
    using assms(2,3,4) by (cases received) (auto simp: recv_ok_def)
  with assms(2) show "on_client_data W fuel srv fd received
      = Inr (srv\<lparr>connections := (connections srv)(fd := None)\<rparr>, [CloseFd fd])"
    by (auto simp: on_client_data_def)
  have len: "length (recv_buf conn) = 4096" and "doip_next (contents conn) = None"
    using assms(1,2) by (auto simp: srv_wf_def conn_wf_def)
  moreover from len have "contents conn = recv_buf conn" using assms(3) by (simp add: contents_def)
  ultimately have "doip_next (recv_buf conn) = None" by simp
  with len show "4088 < unat (join32 (recv_buf conn ! 4) (recv_buf conn ! 5) (recv_buf conn ! 6) (recv_buf conn ! 7))"
    by (auto simp: doip_next_def Let_def split: if_splits)
qed

definition demo_full :: doip_connection where
  "demo_full = DoIpConnection\<lparr>conn_fd := 5, recv_len := 4096,
     recv_buf := [0x02, 0xFD, 0x80, 0x01, 0, 0, 0x10, 0] @ replicate 4088 0\<rparr>"

theorem doip_full_buffer_closes_witness:
  "on_client_data 64 4097 (demo_server\<lparr>connections := [5 \<mapsto> demo_full]\<rparr>) 5 (Some [])
     = Inr (demo_server\<lparr>connections := Map.empty\<rparr>, [CloseFd 5])"
proof -
  have "srv_wf (demo_server\<lparr>connections := [5 \<mapsto> demo_full]\<rparr>)"
    by (auto simp: srv_wf_def conn_wf_def demo_full_def contents_def doip_next_def join32_def split: if_splits)
  then show ?thesis
    using doip_full_buffer_closes [of "demo_server\<lparr>connections := [5 \<mapsto> demo_full]\<rparr>" 5 demo_full "Some []" 64 4097]
    by (simp add: demo_full_def recv_ok_def)
qed

text \<open>
  C34: On the 32-bit target the length computation wraps: a header that announces
  \<open>0xFFFFFFF8\<close> bytes makes \<open>total\<close> zero, no byte is ever taken off the buffer and the
  loop does not end, whatever the number of iterations allowed. One eight-byte packet from
  a client that has not activated routing hangs the gateway.
\<close>

theorem doip_32bit_hang:
  "on_client_data 32 fuel demo_server 5 (Some [0x02, 0xFD, 0x00, 0x00, 0xFF, 0xFF, 0xFF, 0xF8])
     = Inl OutOfFuel"
proof -
  let ?pkt = "[0x02, 0xFD, 0x00, 0x00, 0xFF, 0xFF, 0xFF, 0xF8] :: byte list"
  let ?conn = "DoIpConnection\<lparr>conn_fd := 5, recv_buf := ?pkt @ replicate 4088 0, recv_len := length ?pkt\<rparr>"
  have hdr: "DoIpHeader_parse (recv_buf ?conn) (recv_len ?conn) DoIpHeader
      = Some (True, DoIpHeader\<lparr>payload_type := 0, payload_length := 0xFFFFFFF8\<rparr>)"
    by (simp add: DoIpHeader_parse_def DoIpHeader_def rd_def join16_def join32_def doip_consts)
  have stuck: "consume 0 ?conn = ?conn" by (simp add: consume_def Let_def)
  have "rx_loop 32 uds n ?conn = Inl OutOfFuel" for uds n
  proof (induction n)
    case 0
    show ?case by (simp add: rx_loop.simps)
  next
    case (Suc n)
    have "rx_loop 32 uds (Suc n) ?conn
        = (case rx_loop 32 uds n (consume 0 ?conn) of Inl e \<Rightarrow> Inl e | Inr (conn, out') \<Rightarrow> Inr (conn, [] @ out'))"
      unfolding rx_loop.simps(2) hdr by (simp add: handle_doip_message_def doip_consts)
    then show ?case by (simp only: stuck Suc.IH sum.case)
  qed
  moreover have "put 0 ?pkt (replicate 4096 0) = Some (?pkt @ replicate 4088 0)"
    by (simp add: put_def drop_replicate)
  ultimately show ?thesis
    by (simp add: on_client_data_def demo_server_def DoIpConnection_def)
qed

end
