(* ===== verification/Ieee_Fp.thy ===== *)
theory Ieee_Fp
  imports Complex_Main Gw_Prelude
begin

text \<open>
  The C++ types \<open>double\<close> and \<open>float\<close> as IEEE 754 binary64 and binary32 with rounding
  to nearest, ties to even: an executable model of the operations the gateway uses
  (conversion from integers and from decimal fractions, multiplication, addition, division,
  comparison, narrowing, truncation, the bit pattern) and the facts about them that the
  components rely on: rounding is monotone, exact where the result is representable, and
  the comparison is the order of the values.

  A finite number is a sign, a significand and the exponent of its last place. The sign
  of a NaN that an operation produces differs between processors; the model fixes it.
\<close>

section \<open>Formats and numbers\<close>

record fp_format =
  prec :: nat
  emin :: int
  emax :: int

definition binary64 :: fp_format where
  "binary64 = \<lparr>prec = 53, emin = -1074, emax = 971\<rparr>"

definition binary32 :: fp_format where
  "binary32 = \<lparr>prec = 24, emin = -149, emax = 104\<rparr>"

datatype fp = NaN bool | Inf bool | Fin bool nat int

definition fval :: "fp \<Rightarrow> real" where
  "fval x = (case x of Fin s m e \<Rightarrow> (if s then -1 else 1) * real m * 2 powi e | _ \<Rightarrow> 0)"

definition is_nan :: "fp \<Rightarrow> bool" where
  "is_nan x = (case x of NaN _ \<Rightarrow> True | _ \<Rightarrow> False)"

section \<open>Rounding\<close>

fun bitlen :: "nat \<Rightarrow> nat" where
  "bitlen n = (if n = 0 then 0 else Suc (bitlen (n div 2)))"

declare bitlen.simps [simp del]

text \<open>The ratio \<open>n / d\<close> divided by \<open>2 powi e\<close>, again as a ratio.\<close>

definition scale_ratio :: "nat \<Rightarrow> nat \<Rightarrow> int \<Rightarrow> nat \<times> nat" where
  "scale_ratio n d e = (if 0 \<le> e then (n, d * 2 ^ nat e) else (n * 2 ^ nat (- e), d))"

text \<open>The integer part of the binary logarithm of \<open>n / d\<close>.\<close>

definition ilog2 :: "nat \<Rightarrow> nat \<Rightarrow> int" where
  "ilog2 n d =
     (let k = int (bitlen n) - int (bitlen d); (n', d') = scale_ratio n d k
      in if d' \<le> n' then k else k - 1)"

definition rne :: "nat \<Rightarrow> nat \<Rightarrow> nat" where
  "rne n d =
     (let q = n div d; r = n mod d
      in if 2 * r < d \<or> (2 * r = d \<and> even q) then q else Suc q)"

definition round_ratio :: "fp_format \<Rightarrow> bool \<Rightarrow> nat \<Rightarrow> nat \<Rightarrow> fp" where
  "round_ratio F s n d =
     (if n = 0 then Fin s 0 (emin F)
      else let e = max (ilog2 n d - int (prec F) + 1) (emin F);
               (n', d') = scale_ratio n d e;
               q = rne n' d';
               (q, e) = (if q = 2 ^ prec F then (2 ^ (prec F - 1), e + 1) else (q, e))
           in if emax F < e then Inf s else Fin s q e)"

section \<open>Operations\<close>

definition round_scaled :: "fp_format \<Rightarrow> bool \<Rightarrow> nat \<Rightarrow> nat \<Rightarrow> int \<Rightarrow> fp" where
  "round_scaled F s n d e = (case scale_ratio n d (- e) of (n', d') \<Rightarrow> round_ratio F s n' d')"

definition fp_of_int :: "fp_format \<Rightarrow> int \<Rightarrow> fp" where
  "fp_of_int F k = round_ratio F (k < 0) (nat \<bar>k\<bar>) 1"

fun fp_mul :: "fp_format \<Rightarrow> fp \<Rightarrow> fp \<Rightarrow> fp" where
  "fp_mul F (NaN s) _ = NaN s"
| "fp_mul F _ (NaN s) = NaN s"
| "fp_mul F (Inf s) (Inf t) = Inf (s \<noteq> t)"
| "fp_mul F (Inf s) (Fin t m e) = (if m = 0 then NaN False else Inf (s \<noteq> t))"
| "fp_mul F (Fin s m e) (Inf t) = (if m = 0 then NaN False else Inf (s \<noteq> t))"
| "fp_mul F (Fin s m e) (Fin t n f) = round_scaled F (s \<noteq> t) (m * n) 1 (e + f)"

definition signed_sig :: "bool \<Rightarrow> nat \<Rightarrow> int \<Rightarrow> int \<Rightarrow> int" where
  "signed_sig s m e e0 = (if s then -1 else 1) * int m * 2 ^ nat (e - e0)"

fun fp_add :: "fp_format \<Rightarrow> fp \<Rightarrow> fp \<Rightarrow> fp" where
  "fp_add F (NaN s) _ = NaN s"
| "fp_add F _ (NaN s) = NaN s"
| "fp_add F (Inf s) (Inf t) = (if s = t then Inf s else NaN False)"
| "fp_add F (Inf s) (Fin t m e) = Inf s"
| "fp_add F (Fin s m e) (Inf t) = Inf t"
| "fp_add F (Fin s m e) (Fin t n f) =
     (let e0 = min e f; k = signed_sig s m e e0 + signed_sig t n f e0
      in if k = 0 then Fin (s \<and> t) 0 (emin F) else round_scaled F (k < 0) (nat \<bar>k\<bar>) 1 e0)"

fun fp_div :: "fp_format \<Rightarrow> fp \<Rightarrow> fp \<Rightarrow> fp" where
  "fp_div F (NaN s) _ = NaN s"
| "fp_div F _ (NaN s) = NaN s"
| "fp_div F (Inf s) (Inf t) = NaN False"
| "fp_div F (Inf s) (Fin t m e) = Inf (s \<noteq> t)"
| "fp_div F (Fin s m e) (Inf t) = Fin (s \<noteq> t) 0 (emin F)"
| "fp_div F (Fin s m e) (Fin t n f) =
     (if n = 0 then (if m = 0 then NaN False else Inf (s \<noteq> t))
      else round_scaled F (s \<noteq> t) m n (e - f))"

fun fp_lt :: "fp \<Rightarrow> fp \<Rightarrow> bool" where
  "fp_lt (NaN _) _ = False"
| "fp_lt _ (NaN _) = False"
| "fp_lt (Inf s) (Inf t) = (s \<and> \<not> t)"
| "fp_lt (Inf s) (Fin t m e) = s"
| "fp_lt (Fin s m e) (Inf t) = (\<not> t)"
| "fp_lt (Fin s m e) (Fin t n f) =
     (let e0 = min e f in signed_sig s m e e0 < signed_sig t n f e0)"

text \<open>Conversion to another format: \<open>static_cast<float>\<close> of a double.\<close>

definition fp_cast :: "fp_format \<Rightarrow> fp \<Rightarrow> fp" where
  "fp_cast F x = (case x of Fin s m e \<Rightarrow> round_scaled F s m 1 e | _ \<Rightarrow> x)"

text \<open>Truncation towards zero to a mathematical integer; a NaN or an infinity has none.\<close>

definition fp_trunc :: "fp \<Rightarrow> int option" where
  "fp_trunc x =
     (case x of
        Fin s m e \<Rightarrow>
          Some ((if s then -1 else 1) *
            (if 0 \<le> e then int m * 2 ^ nat e else int (m div 2 ^ nat (- e))))
      | _ \<Rightarrow> None)"

text \<open>The object representation of a \<open>float\<close>.\<close>

definition float_bits :: "fp \<Rightarrow> u32" where
  "float_bits x =
     (case x of
        NaN s \<Rightarrow> (if s then 0xFFC00000 else 0x7FC00000)
      | Inf s \<Rightarrow> (if s then 0xFF800000 else 0x7F800000)
      | Fin s m e \<Rightarrow>
          (if s then 0x80000000 else 0) OR
          (if m < 2 ^ 23 then of_nat m
           else push_bit 23 (of_int (e + 150)) OR of_nat (m - 2 ^ 23)))"

definition float_of_bits :: "u32 \<Rightarrow> fp" where
  "float_of_bits w =
     (let s = bit w 31; ex = unat (drop_bit 23 w AND 0xFF); fr = unat (w AND 0x7FFFFF)
      in if ex = 255 then (if fr = 0 then Inf s else NaN s)
         else if ex = 0 then Fin s fr (-149)
         else Fin s (2 ^ 23 + fr) (int ex - 150))"

text \<open>The numbers of a format in normal form.\<close>

definition fp_canonical :: "fp_format \<Rightarrow> fp \<Rightarrow> bool" where
  "fp_canonical F x =
     (case x of
        Fin s m e \<Rightarrow> m < 2 ^ prec F \<and> emin F \<le> e \<and> e \<le> emax F \<and> (e = emin F \<or> 2 ^ (prec F - 1) \<le> m)
      | _ \<Rightarrow> True)"

section \<open>Correct rounding\<close>


lemma bitlen_bounds: "0 < n \<Longrightarrow> 2 ^ (bitlen n - 1) \<le> n \<and> n < 2 ^ bitlen n \<and> 0 < bitlen n"
proof (induction n rule: bitlen.induct)
  case (1 n)
  show ?case
  proof (cases "n div 2 = 0")
    case True
    then have "n = 1" using "1.prems" by linarith
    then show ?thesis by (simp add: bitlen.simps)
  next
    case False
    then have IH: "2 ^ (bitlen (n div 2) - 1) \<le> n div 2" "n div 2 < 2 ^ bitlen (n div 2)" "0 < bitlen (n div 2)"
      using "1.IH" "1.prems" by simp_all
    have b: "bitlen n = Suc (bitlen (n div 2))" using "1.prems" by (simp add: bitlen.simps [of n])
    have p: "2 ^ bitlen (n div 2) = 2 * (2::nat) ^ (bitlen (n div 2) - 1)"
      using IH(3) by (simp flip: power_Suc)
    have "2 ^ (bitlen n - 1) \<le> n" using IH(1) p b by simp
    moreover have "n < 2 ^ bitlen n" using IH(2) b by simp
    ultimately show ?thesis using b by simp
  qed
qed

lemma pow2_pos [simp]: "0 < (2::real) powi e" "(2::real) powi e \<noteq> 0"
  by simp_all

lemma bitlen_real:
  assumes "0 < n" shows "2 powi (int (bitlen n) - 1) \<le> real n" "real n < 2 powi int (bitlen n)"
proof -
  note b = bitlen_bounds [OF assms]
  then have "real (2 ^ (bitlen n - 1)) \<le> real n" "real n < real (2 ^ bitlen n)"
    by (simp_all only: of_nat_le_iff of_nat_less_iff)
  moreover have "int (bitlen n) - 1 = int (bitlen n - 1)" using b by simp
  ultimately show "2 powi (int (bitlen n) - 1) \<le> real n" "real n < 2 powi int (bitlen n)"
    by (simp_all only: power_int_of_nat of_nat_power of_nat_numeral)
qed

lemma scale_ratio:
  assumes "0 < d" and "scale_ratio n d e = (n', d')"
  shows "0 < d'" and "real n' / real d' = (real n / real d) / 2 powi e" and "0 < n' \<longleftrightarrow> 0 < n"
proof -
  have "real n' / real d' = (real n / real d) / 2 powi e" if "0 \<le> e"
    using assms that by (auto simp: scale_ratio_def power_int_def)
  moreover have "real n' / real d' = (real n / real d) / 2 powi e" if "\<not> 0 \<le> e"
    using assms that by (auto simp: scale_ratio_def power_int_def field_simps)
  ultimately show "real n' / real d' = (real n / real d) / 2 powi e" by blast
qed (use assms in \<open>auto simp: scale_ratio_def split: if_splits\<close>)

lemma ilog2_bounds:
  assumes "0 < n" and "0 < d"
  shows "2 powi ilog2 n d \<le> real n / real d" and "real n / real d < 2 powi (ilog2 n d + 1)"
proof -
  define k where "k = int (bitlen n) - int (bitlen d)"
  obtain n' d' where s: "scale_ratio n d k = (n', d')" by fastforce
  note sc = scale_ratio [OF assms(2) s]
  have "d' \<le> n' \<longleftrightarrow> 1 \<le> real n' / real d'" using sc(1) by (simp add: field_simps)
  then have dec: "d' \<le> n' \<longleftrightarrow> 2 powi k \<le> real n / real d"
    unfolding sc(2) by (simp add: pos_le_divide_eq del: divide_divide_eq_left)
  have il: "ilog2 n d = (if d' \<le> n' then k else k - 1)"
    using s by (simp add: ilog2_def k_def)
  have "real n / real d < 2 powi int (bitlen n) / 2 powi (int (bitlen d) - 1)"
    using bitlen_real [OF assms(1)] bitlen_real [OF assms(2)] by (intro frac_less) auto
  also have "\<dots> = 2 powi (k + 1)" by (simp add: k_def power_int_diff power_int_add)
  finally have up: "real n / real d < 2 powi (k + 1)" .
  have "2 powi (k - 1) = 2 powi (int (bitlen n) - 1) / (2 powi int (bitlen d) :: real)"
    by (simp add: k_def power_int_diff)
  also have "\<dots> \<le> real n / real d"
    using bitlen_real [OF assms(1)] bitlen_real [OF assms(2)] assms by (intro frac_le) auto
  finally have lo: "2 powi (k - 1) \<le> real n / real d" .
  show "2 powi ilog2 n d \<le> real n / real d" and "real n / real d < 2 powi (ilog2 n d + 1)"
    using il dec up lo by (auto split: if_splits)
qed

text \<open>Rounding a real number to the nearest integer, ties to even.\<close>

definition rhe :: "real \<Rightarrow> int" where
  "rhe x = (let q = \<lfloor>x\<rfloor>; f = x - of_int q in if f < 1/2 \<or> (f = 1/2 \<and> even q) then q else q + 1)"

lemma rhe_bounds: "\<lfloor>x\<rfloor> \<le> rhe x" "rhe x \<le> \<lfloor>x\<rfloor> + 1"
  by (simp_all add: rhe_def Let_def)

lemma rhe_int [simp]: "rhe (of_int k) = k"
  by (simp add: rhe_def)

lemma rhe_mono: "x \<le> y \<Longrightarrow> rhe x \<le> rhe y"
proof (cases "\<lfloor>x\<rfloor> = \<lfloor>y\<rfloor>")
  case True
  assume "x \<le> y"
  with True show ?thesis by (auto simp: rhe_def Let_def)
next
  case False
  assume "x \<le> y"
  then have "\<lfloor>x\<rfloor> \<le> \<lfloor>y\<rfloor>" by (rule floor_mono)
  with False have "\<lfloor>x\<rfloor> + 1 \<le> \<lfloor>y\<rfloor>" by simp
  with rhe_bounds [of x] rhe_bounds [of y] show ?thesis by simp
qed

lemma rhe_near: assumes "\<bar>x - of_int k\<bar> < 1/2" shows "rhe x = k"
proof -
  have "\<lfloor>x\<rfloor> = k \<or> \<lfloor>x\<rfloor> = k - 1" using assms by linarith
  then show ?thesis using assms by (auto simp: rhe_def Let_def)
qed

lemma rne_rhe: "0 < d \<Longrightarrow> int (rne n d) = rhe (real n / real d)"
proof -
  assume d: "0 < d"
  have fl: "\<lfloor>real n / real d\<rfloor> = int (n div d)" by (simp add: floor_divide_of_nat_eq)
  have "real n = real (n div d) * real d + real (n mod d)"
    by (metis of_nat_add of_nat_mult div_mult_mod_eq)
  then have fr: "real n / real d - real (n div d) = real (n mod d) / real d" using d by (simp add: field_simps)
  have c1: "real (n mod d) / real d < 1/2 \<longleftrightarrow> 2 * (n mod d) < d"
  proof -
    have "real (n mod d) / real d < 1/2 \<longleftrightarrow> real (2 * (n mod d)) < real d" using d by (simp add: field_simps)
    then show ?thesis by (simp only: of_nat_less_iff)
  qed
  have c2: "real (n mod d) / real d = 1/2 \<longleftrightarrow> 2 * (n mod d) = d"
  proof -
    have "real (n mod d) / real d = 1/2 \<longleftrightarrow> real (2 * (n mod d)) = real d" using d by (auto simp: field_simps)
    then show ?thesis by (simp only: of_nat_eq_iff)
  qed
  show ?thesis
    unfolding rhe_def fl rne_def Let_def of_int_of_nat_eq fr c1 c2 by simp
qed


definition fmt_ok :: "fp_format \<Rightarrow> bool" where
  "fmt_ok F \<longleftrightarrow> 1 \<le> prec F \<and> emin F \<le> emax F"

lemma fmt_ok_formats [simp]: "fmt_ok binary64" "fmt_ok binary32"
  by (simp_all add: fmt_ok_def binary64_def binary32_def)

definition rexp :: "fp_format \<Rightarrow> nat \<Rightarrow> nat \<Rightarrow> int" where
  "rexp F n d = max (ilog2 n d - int (prec F) + 1) (emin F)"

definition rsig :: "fp_format \<Rightarrow> nat \<Rightarrow> nat \<Rightarrow> int" where
  "rsig F n d = rhe (real n / real d / 2 powi rexp F n d)"

definition rval :: "fp_format \<Rightarrow> nat \<Rightarrow> nat \<Rightarrow> real" where
  "rval F n d = of_int (rsig F n d) * 2 powi rexp F n d"

lemma round_ratio_parts:
  assumes "0 < n" and "0 < d"
  shows "round_ratio F s n d =
     (let q = nat (rsig F n d); e = rexp F n d;
          (q, e) = (if q = 2 ^ prec F then (2 ^ (prec F - 1), e + 1) else (q, e))
      in if emax F < e then Inf s else Fin s q e)"
proof -
  obtain n' d' where sc: "scale_ratio n d (rexp F n d) = (n', d')" by fastforce
  have "nat (rsig F n d) = rne n' d'"
    using scale_ratio(1,2) [OF assms(2) sc] by (metis nat_int rne_rhe rsig_def)
  with sc assms show ?thesis
    unfolding round_ratio_def rexp_def [symmetric] by (simp add: Let_def)
qed

lemma powi_less_iff [simp]: "(2::real) powi a < 2 powi b \<longleftrightarrow> a < b"
  by (metis linorder_not_less one_less_numeral_iff power_int_mono power_int_strict_increasing semiring_norm(76) power_int_increasing less_imp_le)

lemma powi_le_iff [simp]: "(2::real) powi a \<le> 2 powi b \<longleftrightarrow> a \<le> b"
  by (simp flip: not_less)

lemma rsig_bounds:
  assumes "0 < n" and "0 < d"
  shows "0 \<le> rsig F n d" and "rsig F n d \<le> 2 ^ prec F"
    and "emin F < rexp F n d \<Longrightarrow> 1 \<le> prec F \<Longrightarrow> 2 ^ (prec F - 1) \<le> rsig F n d"
proof -
  let ?x = "real n / real d / 2 powi rexp F n d"
  note b = ilog2_bounds [OF assms]
  have "0 \<le> ?x" by simp
  then show "0 \<le> rsig F n d" unfolding rsig_def using rhe_mono [of 0 ?x] rhe_int [of 0] by simp
  have "real n / real d \<le> 2 powi (ilog2 n d + 1)" using b(2) by simp
  also have "\<dots> \<le> 2 powi (rexp F n d + int (prec F))" by (simp add: rexp_def)
  also have "\<dots> = 2 powi rexp F n d * 2 ^ prec F" by (simp add: power_int_add)
  finally have "?x \<le> of_int (2 ^ prec F)" by (simp add: pos_divide_le_eq mult.commute del: divide_divide_eq_left)
  then show "rsig F n d \<le> 2 ^ prec F" unfolding rsig_def by (metis rhe_mono rhe_int)
  show "2 ^ (prec F - 1) \<le> rsig F n d" if "emin F < rexp F n d" and "1 \<le> prec F"
  proof -
    have "2 powi rexp F n d * 2 ^ (prec F - 1) = (2::real) powi (rexp F n d + int (prec F - 1))"
      by (simp add: power_int_add)
    also have "rexp F n d + int (prec F - 1) = ilog2 n d"
      using that by (auto simp: rexp_def)
    also have "2 powi ilog2 n d \<le> real n / real d" by (rule b(1))
    finally have "of_int (2 ^ (prec F - 1)) \<le> ?x" by (simp add: pos_le_divide_eq mult.commute del: divide_divide_eq_left)
    then show ?thesis unfolding rsig_def by (metis rhe_mono rhe_int)
  qed
qed

text \<open>Rounding is monotone in the exact value.\<close>

lemma rval_mono:
  assumes "0 < n" "0 < d" "0 < n'" "0 < d'" and "1 \<le> prec F"
    and le: "real n / real d \<le> real n' / real d'"
  shows "rval F n d \<le> rval F n' d'"
proof -
  have "2 powi ilog2 n d < (2::real) powi (ilog2 n' d' + 1)"
    using ilog2_bounds [OF assms(1,2)] ilog2_bounds [OF assms(3,4)] le by linarith
  then have "ilog2 n d < ilog2 n' d' + 1" by simp
  then have ele: "rexp F n d \<le> rexp F n' d'" by (simp add: rexp_def)
  show ?thesis
  proof (cases "rexp F n d = rexp F n' d'")
    case True
    have "rsig F n d \<le> rsig F n' d'" unfolding rsig_def True using le
      by (intro rhe_mono divide_right_mono) auto
    with True show ?thesis by (simp add: rval_def)
  next
    case False
    with ele have lt: "rexp F n d + 1 \<le> rexp F n' d'" and "emin F < rexp F n' d'"
      by (auto simp: rexp_def)
    then have big: "2 ^ (prec F - 1) \<le> rsig F n' d'" using rsig_bounds(3) assms by blast
    have "rval F n d \<le> of_int (2 ^ prec F) * 2 powi rexp F n d"
      unfolding rval_def using rsig_bounds(2) [OF assms(1,2)] by (intro mult_right_mono) (simp_all only: of_int_le_iff, simp)
    also have "\<dots> = 2 ^ (prec F - 1) * 2 powi (rexp F n d + 1)"
      using assms(5) by (cases "prec F") (simp_all add: power_int_add)
    also have "\<dots> \<le> 2 ^ (prec F - 1) * 2 powi rexp F n' d'"
      using lt by (intro mult_left_mono) simp_all
    also have "\<dots> \<le> rval F n' d'"
    proof -
      have "of_int (2 ^ (prec F - 1)) \<le> (of_int (rsig F n' d') :: real)" using big by (simp only: of_int_le_iff)
      then show ?thesis unfolding rval_def by (intro mult_right_mono) simp_all
    qed
    finally show ?thesis .
  qed
qed


lemma powi_exp: "1 \<le> p \<Longrightarrow> 2 ^ (p - 1) * (2::real) powi (e + 1) = 2 ^ p * 2 powi e"
  by (cases p) (simp_all add: power_int_add)

lemma rval_upper: "rsig F n d < 2 ^ prec F \<Longrightarrow> rval F n d < 2 powi (rexp F n d + int (prec F))"
proof -
  assume "rsig F n d < 2 ^ prec F"
  then have "(of_int (rsig F n d) :: real) < of_int (2 ^ prec F)" by (simp only: of_int_less_iff)
  then show ?thesis by (simp add: rval_def power_int_add mult.commute)
qed

text \<open>What rounding returns: an infinity from the overflow threshold on, else the rounded value.\<close>

lemma round_ratio_value:
  assumes "fmt_ok F" and "0 < n" and "0 < d"
  shows "if rval F n d < 2 powi (emax F + int (prec F))
         then \<exists>q e. round_ratio F s n d = Fin s q e \<and> real q * 2 powi e = rval F n d
                \<and> fp_canonical F (Fin s q e)
         else round_ratio F s n d = Inf s"
proof -
  have p: "1 \<le> prec F" and em: "emin F \<le> emax F" using assms(1) by (auto simp: fmt_ok_def)
  note b = rsig_bounds [OF assms(2,3), of F]
  have nq: "(of_int (rsig F n d) :: real) = real (nat (rsig F n d))" using b(1) by simp
  show ?thesis
  proof (cases "rsig F n d = 2 ^ prec F")
    case True
    then have q: "nat (rsig F n d) = 2 ^ prec F" by (simp add: nat_power_eq)
    have v: "rval F n d = 2 powi (rexp F n d + int (prec F))"
      by (simp add: rval_def True power_int_add mult.commute)
    have "round_ratio F s n d = (if emax F < rexp F n d + 1 then Inf s else Fin s (2 ^ (prec F - 1)) (rexp F n d + 1))"
      using round_ratio_parts [OF assms(2,3), of F s] q by (simp add: Let_def)
    moreover have "emin F \<le> rexp F n d" by (simp add: rexp_def)
    moreover have "(2::nat) ^ (prec F - 1) < 2 ^ prec F" using p by simp
    ultimately show ?thesis using powi_exp [OF p, of "rexp F n d"]
      by (auto simp: v fp_canonical_def power_int_add mult.commute)
  next
    case False
    then have lt: "rsig F n d < 2 ^ prec F" using b(2) by simp
    then have ltn: "nat (rsig F n d) < 2 ^ prec F" using b(1) by (simp add: nat_less_iff)
    have r: "round_ratio F s n d = (if emax F < rexp F n d then Inf s else Fin s (nat (rsig F n d)) (rexp F n d))"
      using round_ratio_parts [OF assms(2,3), of F s] ltn by (simp add: Let_def)
    have min: "emin F \<le> rexp F n d" by (simp add: rexp_def)
    have norm: "2 ^ (prec F - 1) \<le> nat (rsig F n d)" if "emin F < rexp F n d"
      using b(3) [OF that p] b(1) by (simp add: le_nat_iff)
    show ?thesis
    proof (cases "emax F < rexp F n d")
      case True
      then have "2 ^ (prec F - 1) \<le> nat (rsig F n d)" using norm em by simp
      then have "real (2 ^ (prec F - 1)) \<le> real (nat (rsig F n d))" by (simp only: of_nat_le_iff)
      then have "2 ^ (prec F - 1) * 2 powi rexp F n d \<le> rval F n d" by (simp add: rval_def nq)
      moreover have "(2::real) powi (emax F + int (prec F)) \<le> 2 ^ (prec F - 1) * 2 powi rexp F n d"
      proof -
        have "2 ^ (prec F - 1) * 2 powi rexp F n d = (2::real) powi (int (prec F - 1) + rexp F n d)"
          by (simp add: power_int_add)
        then show ?thesis using True p by simp
      qed
      ultimately show ?thesis using r True by simp
    next
      case False
      have "rval F n d < 2 powi (rexp F n d + int (prec F))" using lt by (rule rval_upper)
      also have "\<dots> \<le> 2 powi (emax F + int (prec F))" using False by simp
      finally have v: "rval F n d < 2 powi (emax F + int (prec F))" .
      have "fp_canonical F (Fin s (nat (rsig F n d)) (rexp F n d))"
        using False ltn min norm by (cases "emin F < rexp F n d") (simp_all add: fp_canonical_def)
      with v r False show ?thesis by (simp add: rval_def nq)
    qed
  qed
qed

text \<open>A number of the format is its own rounding.\<close>

lemma rval_exact:
  assumes "0 < n" and "0 < d" and "real n / real d = real m * 2 powi e"
    and "m < 2 ^ prec F" and "emin F \<le> e"
  shows "rval F n d = real n / real d"
proof -
  have "2 powi ilog2 n d \<le> real m * 2 powi e" using ilog2_bounds(1) [OF assms(1,2)] assms(3) by simp
  also have "\<dots> < 2 ^ prec F * 2 powi e"
  proof -
    have "real m < real (2 ^ prec F)" using assms(4) by (simp only: of_nat_less_iff)
    then show ?thesis by simp
  qed
  also have "\<dots> = 2 powi (int (prec F) + e)" by (simp add: power_int_add)
  finally have "ilog2 n d < int (prec F) + e" by simp
  then have le: "rexp F n d \<le> e" using assms(5) by (simp add: rexp_def)
  have "real n / real d / 2 powi rexp F n d = real m * 2 powi (e - rexp F n d)"
    unfolding assms(3) by (simp add: power_int_diff)
  also have "\<dots> = of_int (int m * 2 ^ nat (e - rexp F n d))"
    using le by (simp add: power_int_def)
  finally have k: "real n / real d / 2 powi rexp F n d = of_int (int m * 2 ^ nat (e - rexp F n d))" .
  then have "of_int (rsig F n d) = real n / real d / 2 powi rexp F n d"
    unfolding rsig_def k rhe_int ..
  then show ?thesis by (simp add: rval_def)
qed

text \<open>A value very close to an integer is rounded to it.\<close>

lemma rval_near:
  assumes "0 < n" and "0 < d" and "real n / real d < 2 ^ 53" and "\<bar>real n / real d - real k\<bar> * 2 ^ 54 \<le> real n / real d"
  shows "rval binary64 n d = real k"
proof -
  let ?x = "real n / real d" and ?e = "rexp binary64 n d"
  have "2 powi ilog2 n d < (2::real) powi 53"
    using ilog2_bounds(1) [OF assms(1,2)] assms(3) by (simp add: power_int_def)
  then have "ilog2 n d < 53" by (simp only: powi_less_iff)
  then have e0: "?e \<le> 0" by (simp add: rexp_def binary64_def)
  have "?x < 2 powi (?e + 53)"
  proof -
    have "?x < 2 powi (ilog2 n d + 1)" by (rule ilog2_bounds(2) [OF assms(1,2)])
    also have "\<dots> \<le> 2 powi (?e + 53)" unfolding powi_le_iff by (simp add: rexp_def binary64_def)
    finally show ?thesis .
  qed
  also have "(2::real) powi (?e + 53) = 2 powi ?e * 2 ^ 53" by (simp add: power_int_add)
  finally have "\<bar>?x - real k\<bar> * 2 ^ 54 < 2 powi ?e * 2 ^ 53" using assms(4) by linarith
  then have near: "\<bar>?x - real k\<bar> < 2 powi ?e / 2" by simp
  have k: "real k / 2 powi ?e = of_int (int k * 2 ^ nat (- ?e))"
    using e0 by (simp add: power_int_def field_simps)
  have "\<bar>?x / 2 powi ?e - real k / 2 powi ?e\<bar> < 1/2"
    using near by (simp add: field_simps flip: diff_divide_distrib)
  then have "rsig binary64 n d = int k * 2 ^ nat (- ?e)" unfolding rsig_def k by (rule rhe_near)
  then have "of_int (rsig binary64 n d) = real k / 2 powi ?e" by (simp only: k)
  then show ?thesis by (simp add: rval_def)
qed

lemma round_scaled_ratio:
  assumes "0 < d"
  obtains n' d' where "round_scaled F s n d e = round_ratio F s n' d'" and "0 < d'"
    and "real n' / real d' = real n / real d * 2 powi e" and "0 < n' \<longleftrightarrow> 0 < n"
proof -
  obtain n' d' where sc: "scale_ratio n d (- e) = (n', d')" by fastforce
  have "real n / real d / 2 powi - e = real n / real d * 2 powi e"
    by (simp add: power_int_minus field_simps)
  with scale_ratio [OF assms sc] sc that [of n' d'] show ?thesis by (simp add: round_scaled_def)
qed

section \<open>Comparison\<close>

lemma signed_sig_real:
  "e0 \<le> e \<Longrightarrow> real_of_int (signed_sig s m e e0) = fval (Fin s m e) / 2 powi e0"
proof -
  assume "e0 \<le> e"
  then have "(2::real) ^ nat (e - e0) = 2 powi (e - e0)" by (simp add: power_int_def)
  then show ?thesis by (simp add: signed_sig_def fval_def power_int_diff)
qed

lemma fp_lt_Fin: "fp_lt (Fin s m e) (Fin t n f) \<longleftrightarrow> fval (Fin s m e) < fval (Fin t n f)"
proof -
  define e0 where "e0 = min e f"
  have "fp_lt (Fin s m e) (Fin t n f) \<longleftrightarrow> real_of_int (signed_sig s m e e0) < real_of_int (signed_sig t n f e0)"
    by (simp add: e0_def Let_def)
  also have "\<dots> \<longleftrightarrow> fval (Fin s m e) < fval (Fin t n f)"
    by (subst (1 2) signed_sig_real) (simp_all add: e0_def divide_strict_right_mono pos_divide_less_eq)
  finally show ?thesis .
qed


text \<open>
  \<open>std::min\<close> and \<open>std::max\<close> call nothing but \<open>operator<\<close>. All that clamping needs
  of it is asymmetry, which the comparison of doubles has even with NaNs.
\<close>

definition std_min :: "('a \<Rightarrow> 'a \<Rightarrow> bool) \<Rightarrow> 'a \<Rightarrow> 'a \<Rightarrow> 'a" where
  "std_min lt a b = (if lt b a then b else a)"

definition std_max :: "('a \<Rightarrow> 'a \<Rightarrow> bool) \<Rightarrow> 'a \<Rightarrow> 'a \<Rightarrow> 'a" where
  "std_max lt a b = (if lt a b then b else a)"

locale cpp_less =
  fixes lt :: "'a \<Rightarrow> 'a \<Rightarrow> bool"
  assumes asym: "lt x y \<Longrightarrow> \<not> lt y x"
begin

lemma clamp_bounds:
  assumes "\<not> lt hi lo"
  shows "\<not> lt (std_max lt lo (std_min lt hi x)) lo" and "\<not> lt hi (std_max lt lo (std_min lt hi x))"
  using assms by (simp_all add: std_max_def std_min_def) (blast dest: asym)+

lemma clamp_inside: "lt lo x \<Longrightarrow> lt x hi \<Longrightarrow> std_max lt lo (std_min lt hi x) = x"
  by (simp add: std_max_def std_min_def)

lemma clamp_cases: "std_max lt lo (std_min lt hi x) \<in> {lo, hi, x}"
  by (simp add: std_max_def std_min_def)

end

lemma fp_lt_asym: "fp_lt x y \<Longrightarrow> \<not> fp_lt y x"
  by (cases x; cases y) (auto simp: Let_def min.commute)

interpretation double_less: cpp_less fp_lt
  by unfold_locales (rule fp_lt_asym)

section \<open>Exact results\<close>

definition representable :: "fp_format \<Rightarrow> real \<Rightarrow> bool" where
  "representable F v \<longleftrightarrow>
     (\<exists>m e. m < 2 ^ prec F \<and> emin F \<le> e \<and> e \<le> emax F \<and> \<bar>v\<bar> = real m * 2 powi e)"

definition finite_as :: "fp_format \<Rightarrow> fp \<Rightarrow> real \<Rightarrow> bool" where
  "finite_as F x v \<longleftrightarrow> (\<exists>s m e. x = Fin s m e) \<and> fval x = v \<and> fp_canonical F x"

lemma canonical_zero: "fmt_ok F \<Longrightarrow> finite_as F (Fin s 0 (emin F)) 0"
  by (simp add: finite_as_def fval_def fp_canonical_def fmt_ok_def)

lemma round_scaled_exact:
  assumes F: "fmt_ok F" and d: "0 < d" and v: "v = (if s then -1 else 1) * (real n / real d * 2 powi e)"
    and r: "representable F v"
  shows "finite_as F (round_scaled F s n d e) v"
proof -
  obtain n' d' where rs: "round_scaled F s n d e = round_ratio F s n' d'" and d': "0 < d'"
    and x: "real n' / real d' = real n / real d * 2 powi e" and pos: "0 < n' \<longleftrightarrow> 0 < n"
    using round_scaled_ratio [OF d] .
  show ?thesis
  proof (cases "n' = 0")
    case True
    then have "v = 0" using pos v by simp
    moreover have "round_ratio F s n' d' = Fin s 0 (emin F)" using True by (simp add: round_ratio_def)
    ultimately show ?thesis using canonical_zero [OF F] rs by simp
  next
    case False
    then have n': "0 < n'" by simp
    from r obtain m k where m: "m < 2 ^ prec F" "emin F \<le> k" "k \<le> emax F" and av: "\<bar>v\<bar> = real m * 2 powi k"
      by (auto simp: representable_def)
    have "0 \<le> real n / real d * 2 powi e" by simp
    then have xv: "real n' / real d' = real m * 2 powi k" using av v x by (simp add: abs_mult split: if_splits)
    have ex: "rval F n' d' = real n' / real d'" by (rule rval_exact [OF n' d' xv m(1,2)])
    have "real m < real (2 ^ prec F)" using m(1) by (simp only: of_nat_less_iff)
    then have "real m * 2 powi k < 2 ^ prec F * 2 powi k" by simp
    also have "\<dots> = 2 powi (k + int (prec F))" by (simp add: power_int_add)
    also have "\<dots> \<le> 2 powi (emax F + int (prec F))" using m(3) by simp
    finally have "rval F n' d' < 2 powi (emax F + int (prec F))" using ex xv by simp
    with round_ratio_value [OF F n' d', of s] obtain q f where
      "round_ratio F s n' d' = Fin s q f" "real q * 2 powi f = rval F n' d'" "fp_canonical F (Fin s q f)" by auto
    with rs ex x v show ?thesis by (auto simp: finite_as_def fval_def)
  qed
qed

lemma fp_mul_exact:
  assumes "fmt_ok F" and "a = Fin s m e" and "b = Fin t n f" and "representable F (fval a * fval b)"
  shows "finite_as F (fp_mul F a b) (fval a * fval b)"
proof -
  have "fval a * fval b = (if s \<noteq> t then -1 else 1) * (real (m * n) / real 1 * 2 powi (e + f))"
    unfolding assms(2,3) by (simp add: fval_def power_int_add)
  from round_scaled_exact [OF assms(1) _ this assms(4)] show ?thesis by (simp add: assms(2,3))
qed

lemma fp_of_int_exact:
  assumes "fmt_ok F" and "representable F (of_int k)"
  shows "finite_as F (fp_of_int F k) (of_int k)"
proof -
  have "real_of_int k = (if k < 0 then -1 else 1) * (real (nat \<bar>k\<bar>) / real 1 * 2 powi 0)" by simp
  from round_scaled_exact [OF assms(1) _ this assms(2)] show ?thesis
    by (simp add: fp_of_int_def round_scaled_def scale_ratio_def)
qed

lemma fp_add_exact:
  assumes "fmt_ok F" and a: "a = Fin s m e" and b: "b = Fin t n f" and "representable F (fval a + fval b)"
  shows "finite_as F (fp_add F a b) (fval a + fval b)"
proof -
  define e0 where "e0 = min e f"
  define k where "k = signed_sig s m e e0 + signed_sig t n f e0"
  have "real_of_int k = (fval a + fval b) / 2 powi e0"
    unfolding k_def of_int_add a b by (subst (1 2) signed_sig_real) (simp_all add: e0_def add_divide_distrib)
  then have sum: "fval a + fval b = real_of_int k * 2 powi e0" by simp
  have r: "fp_add F a b = (if k = 0 then Fin (s \<and> t) 0 (emin F) else round_scaled F (k < 0) (nat \<bar>k\<bar>) 1 e0)"
    by (simp add: a b k_def e0_def Let_def)
  show ?thesis
  proof (cases "k = 0")
    case True
    then show ?thesis using r sum canonical_zero [OF assms(1)] by simp
  next
    case False
    have "fval a + fval b = (if k < 0 then -1 else 1) * (real (nat \<bar>k\<bar>) / real 1 * 2 powi e0)"
      using sum by simp
    from round_scaled_exact [OF assms(1) _ this assms(4)] False r show ?thesis by simp
  qed
qed

lemma fp_cast_exact:
  assumes "fmt_ok F" and "a = Fin s m e" and "representable F (fval a)"
  shows "finite_as F (fp_cast F a) (fval a)"
proof -
  have "fval a = (if s then -1 else 1) * (real m / real 1 * 2 powi e)" by (simp add: assms(2) fval_def)
  from round_scaled_exact [OF assms(1) _ this assms(3)] show ?thesis by (simp add: fp_cast_def assms(2))
qed

lemma canonical_representable: "fp_canonical F (Fin s m e) \<Longrightarrow> representable F (fval (Fin s m e))"
  by (auto simp: fp_canonical_def representable_def fval_def abs_mult intro!: exI [of _ m] exI [of _ e])

lemma round_ratio_canonical:
  assumes "fmt_ok F" and "0 < d" shows "fp_canonical F (round_ratio F s n d)"
proof (cases "n = 0")
  case True
  then show ?thesis using assms by (simp add: round_ratio_def fp_canonical_def fmt_ok_def)
next
  case False
  with round_ratio_value [OF assms(1) _ assms(2), of n s] show ?thesis
    by (cases "rval F n d < 2 powi (emax F + int (prec F))") (auto simp: fp_canonical_def)
qed

lemma fp_cast_canonical: "fmt_ok F \<Longrightarrow> fp_canonical F (fp_cast F x)"
proof (cases x)
  case (Fin s m e)
  assume F: "fmt_ok F"
  obtain n' d' where "round_scaled F s m 1 e = round_ratio F s n' d'" "0 < d'"
    by (rule round_scaled_ratio [of 1 F s m e]) simp_all
  with F Fin show ?thesis by (simp add: fp_cast_def round_ratio_canonical)
qed (simp_all add: fp_cast_def fp_canonical_def)

lemma fp_trunc_nonneg: "fp_trunc (Fin False m e) = Some \<lfloor>fval (Fin False m e)\<rfloor>"
proof (cases "0 \<le> e")
  case True
  then have "fval (Fin False m e) = of_int (int m * 2 ^ nat e)" by (simp add: fval_def power_int_def)
  then show ?thesis using True by (simp only: floor_of_int) (simp add: fp_trunc_def)
next
  case False
  then have "fval (Fin False m e) = real m / real (2 ^ nat (- e))"
    by (simp add: fval_def power_int_def field_simps)
  then have "\<lfloor>fval (Fin False m e)\<rfloor> = int (m div 2 ^ nat (- e))"
    by (simp only: floor_divide_of_nat_eq)
  then show ?thesis using False by (simp add: fp_trunc_def)
qed

lemma bit_sign: "bit (0x80000000 :: u32) n \<longleftrightarrow> n = 31"
proof -
  have "(0x80000000 :: u32) = 2 ^ 31" by simp
  then show ?thesis by (auto simp only: bit_exp_iff exp_eq_zero_iff) simp_all
qed

lemma take_bit_eq_bound:
  fixes a :: "'a::len word"
  assumes "take_bit k a = a" and "bit a n" shows "n < k"
  using assms by (metis bit_take_bit_iff)

lemma bits_fields:
  fixes a b :: u32 and s :: bool
  assumes "take_bit 23 a = a" and "take_bit 8 b = b"
  shows "bit ((if s then 0x80000000 else 0) OR (push_bit 23 b OR a)) 31 = s"
    and "drop_bit 23 ((if s then 0x80000000 else 0) OR (push_bit 23 b OR a)) AND 0xFF = b"
    and "((if s then 0x80000000 else 0) OR (push_bit 23 b OR a)) AND 0x7FFFFF = a"
proof -
  define t :: u32 where "t = (if s then 0x80000000 else 0)"
  have t: "bit t n \<longleftrightarrow> s \<and> n = 31" for n
    unfolding t_def by (cases s) (simp_all only: if_True if_False bit_sign bit_0_eq, simp_all)
  have mask: "(0x7FFFFF :: u32) = mask 23" by (simp add: mask_eq_exp_minus_1)
  note lims = take_bit_eq_bound [OF assms(1)] take_bit_eq_bound [OF assms(2)]
  have "bit (t OR (push_bit 23 b OR a)) 31 = s" by (auto simp: bit_simps t dest: lims)
  moreover have "drop_bit 23 (t OR (push_bit 23 b OR a)) AND 0xFF = b"
    unfolding and_0xFF by (rule bit_word_eqI) (auto simp: bit_simps t dest: lims)
  moreover have "(t OR (push_bit 23 b OR a)) AND 0x7FFFFF = a"
    unfolding mask by (rule bit_word_eqI) (auto simp: bit_simps bit_mask_iff t dest: lims)
  ultimately show "bit ((if s then 0x80000000 else 0) OR (push_bit 23 b OR a)) 31 = s"
    and "drop_bit 23 ((if s then 0x80000000 else 0) OR (push_bit 23 b OR a)) AND 0xFF = b"
    and "((if s then 0x80000000 else 0) OR (push_bit 23 b OR a)) AND 0x7FFFFF = a"
    by (simp_all only: t_def)
qed

lemma float_bits_roundtrip:
  assumes "fp_canonical binary32 x"
  shows "float_of_bits (float_bits x) = x"
proof (cases x)
  case (NaN s)
  then show ?thesis by (cases s) (simp_all add: float_bits_def float_of_bits_def bit_numeral_word_iff Let_def)
next
  case (Inf s)
  then show ?thesis by (cases s) (simp_all add: float_bits_def float_of_bits_def bit_numeral_word_iff Let_def)
next
  case (Fin s m e)
  show ?thesis
  proof (cases "m < 2 ^ 23")
    case True
    then have e: "e = -149" using assms Fin by (auto simp: fp_canonical_def binary32_def)
    have "take_bit 23 (of_nat m :: u32) = of_nat m" "unat (of_nat m :: u32) = m"
      using True by (simp_all add: take_bit_of_nat unat_of_nat take_bit_nat_eq_self)
    with bits_fields [of "of_nat m" 0 s] show ?thesis using True Fin e
      by (simp add: float_bits_def float_of_bits_def Let_def)
  next
    case False
    define a where "a = m - 2 ^ 23"
    define b where "b = nat (e + 150)"
    have m: "m = 2 ^ 23 + a" "a < 2 ^ 23" and b: "0 < b" "b < 255" and e: "e = int b - 150"
      using assms Fin False by (auto simp: a_def b_def fp_canonical_def binary32_def)
    have ta: "take_bit 23 (of_nat a :: u32) = of_nat a" "unat (of_nat a :: u32) = a"
      using m(2) by (simp_all add: take_bit_of_nat unat_of_nat take_bit_nat_eq_self)
    have tb: "take_bit 8 (of_nat b :: u32) = of_nat b" "unat (of_nat b :: u32) = b"
      using b by (simp_all add: take_bit_of_nat unat_of_nat take_bit_nat_eq_self)
    have "float_bits x = (if s then 0x80000000 else 0) OR (push_bit 23 (of_nat b) OR of_nat a)"
      using False by (simp add: float_bits_def Fin e a_def)
    with bits_fields [OF ta(1) tb(1), of s] show ?thesis using b Fin e m ta(2) tb(2)
      by (simp add: float_of_bits_def Let_def)
  qed
qed

section \<open>Evaluation of closed terms\<close>

lemma bitlen_num:
  "bitlen 0 = 0" "bitlen 1 = 1" "bitlen (Suc 0) = 1"
  "bitlen (numeral (Num.Bit0 k)) = 1 + bitlen (numeral k)"
  "bitlen (numeral (Num.Bit1 k)) = 1 + bitlen (numeral k)"
proof -
  show one: "bitlen 0 = 0" "bitlen 1 = 1" "bitlen (Suc 0) = 1" by (simp_all add: bitlen.simps)
  show "bitlen (numeral (Num.Bit0 k)) = 1 + bitlen (numeral k)"
    by (simp add: bitlen.simps [of "numeral (Num.Bit0 k)"])
  show "bitlen (numeral (Num.Bit1 k)) = 1 + bitlen (numeral k)"
    by (simp add: bitlen.simps [of "numeral (Num.Bit1 k)"])
qed

lemmas fp_eval = round_ratio_def round_scaled_def fp_of_int_def scale_ratio_def ilog2_def rne_def
  binary64_def binary32_def Let_def bitlen_num signed_sig_def float_bits_def float_of_bits_def
  fp_cast_def

end
