(* ===== verification/Cpp_Text.thy ===== *)
theory Cpp_Text
  imports Ieee_Fp
begin

text \<open>
  The parts of the C++ standard library that the two text parsers use: \<open>std::getline\<close>,
  formatted extraction from an \<open>istringstream\<close>, \<open>std::stoi\<close>, \<open>std::stoul\<close> and
  \<open>std::stod\<close> in the C locale, and searching in a string. A character is a byte. A
  conversion that throws returns \<open>None\<close>; the callers catch every exception alike.
\<close>

section \<open>Characters and digits\<close>

definition isspace :: "char \<Rightarrow> bool" where
  "isspace c \<longleftrightarrow> c = CHR '' '' \<or> c = CHR 0x09 \<or> c = CHR 0x0A \<or> c = CHR 0x0B \<or> c = CHR 0x0C \<or> c = CHR 0x0D"

definition digit_val :: "char \<Rightarrow> nat option" where
  "digit_val c =
     (let n = of_char c :: nat in
      if 48 \<le> n \<and> n \<le> 57 then Some (n - 48)
      else if 97 \<le> n \<and> n \<le> 102 then Some (n - 87)
      else if 65 \<le> n \<and> n \<le> 70 then Some (n - 55)
      else None)"

definition is_digit :: "nat \<Rightarrow> char \<Rightarrow> bool" where
  "is_digit base c = (case digit_val c of None \<Rightarrow> False | Some d \<Rightarrow> d < base)"

definition digits_val :: "nat \<Rightarrow> string \<Rightarrow> nat" where
  "digits_val base ds = foldl (\<lambda>a c. base * a + the (digit_val c)) 0 ds"

text \<open>An optional sign, and a run of digits.\<close>

definition scan_sign :: "string \<Rightarrow> bool \<times> string" where
  "scan_sign s =
     (case s of
        c # r \<Rightarrow> (if c = CHR ''-'' then (True, r) else if c = CHR ''+'' then (False, r) else (False, s))
      | [] \<Rightarrow> (False, s))"

definition scan_digits :: "nat \<Rightarrow> string \<Rightarrow> string \<times> string" where
  "scan_digits base s = (takeWhile (is_digit base) s, dropWhile (is_digit base) s)"

section \<open>Lines and strings\<close>

text \<open>The lines that a loop over \<open>std::getline\<close> sees.\<close>

function getlines :: "string \<Rightarrow> string list" where
  "getlines s =
     (if s = [] then []
      else takeWhile (\<lambda>c. c \<noteq> CHR 0x0A) s
           # getlines (drop 1 (dropWhile (\<lambda>c. c \<noteq> CHR 0x0A) s)))"
  by pat_completeness auto
termination
proof (relation "measure length")
  fix s :: string assume "s \<noteq> []"
  then have "0 < length s" by simp
  moreover have "length (dropWhile (\<lambda>c. c \<noteq> CHR 0x0A) s) \<le> length s" by (rule length_dropWhile_le)
  ultimately have "length (drop 1 (dropWhile (\<lambda>c. c \<noteq> CHR 0x0A) s)) < length s"
    unfolding length_drop by linarith
  then show "(drop 1 (dropWhile (\<lambda>c. c \<noteq> CHR 0x0A) s), s) \<in> measure length"
    by (simp only: in_measure)
qed simp

declare getlines.simps [simp del]

text \<open>\<open>std::string::find\<close> of a character: the first position, \<open>None\<close> for \<open>npos\<close>.\<close>

definition str_find :: "char \<Rightarrow> string \<Rightarrow> nat option" where
  "str_find c s = (let k = length (takeWhile (\<lambda>x. x \<noteq> c) s) in if k < length s then Some k else None)"

definition find_first_not_of :: "string \<Rightarrow> string \<Rightarrow> nat option" where
  "find_first_not_of cs s =
     (let k = length (takeWhile (\<lambda>x. x \<in> set cs) s) in if k < length s then Some k else None)"

definition pop_back_if :: "char \<Rightarrow> string \<Rightarrow> string" where
  "pop_back_if c s = (if s \<noteq> [] \<and> last s = c then butlast s else s)"

definition pop_front_if :: "char \<Rightarrow> string \<Rightarrow> string" where
  "pop_front_if c s = (if s \<noteq> [] \<and> hd s = c then drop 1 s else s)"

section \<open>Formatted extraction\<close>

text \<open>A string stream: the characters left, or \<open>None\<close> once an extraction failed.\<close>

type_synonym stream = "string option"

definition get_word :: "stream \<Rightarrow> string \<times> stream" where
  "get_word st =
     (case st of
        None \<Rightarrow> ([], None)
      | Some s \<Rightarrow>
          (let t = dropWhile isspace s in
           if t = [] then ([], None)
           else (takeWhile (\<lambda>c. \<not> isspace c) t, Some (dropWhile (\<lambda>c. \<not> isspace c) t))))"

text \<open>\<open>>> uint32_t\<close>: a minus sign negates modulo \<open>2 ^ 32\<close>, too large a number fails.\<close>

definition get_uint32 :: "stream \<Rightarrow> u32 \<times> stream" where
  "get_uint32 st =
     (case st of
        None \<Rightarrow> (0, None)
      | Some s \<Rightarrow>
          (let (neg, t) = scan_sign (dropWhile isspace s); (ds, r) = scan_digits 10 t;
               v = digits_val 10 ds in
           if ds = [] \<or> 2 ^ 32 \<le> v then (0, None)
           else (if neg then - of_nat v else of_nat v, Some r)))"

text \<open>\<open>>> int\<close>: a 32-bit signed integer.\<close>

definition get_int32 :: "stream \<Rightarrow> int \<times> stream" where
  "get_int32 st =
     (case st of
        None \<Rightarrow> (0, None)
      | Some s \<Rightarrow>
          (let (neg, t) = scan_sign (dropWhile isspace s); (ds, r) = scan_digits 10 t;
               v = (if neg then - int (digits_val 10 ds) else int (digits_val 10 ds)) in
           if ds = [] \<or> v < - (2 ^ 31) \<or> 2 ^ 31 \<le> v then (0, None) else (v, Some r)))"

section \<open>Conversions\<close>

definition stoi :: "string \<Rightarrow> int option" where
  "stoi s =
     (let (neg, t) = scan_sign (dropWhile isspace s); (ds, r) = scan_digits 10 t;
          v = (if neg then - int (digits_val 10 ds) else int (digits_val 10 ds)) in
      if ds = [] \<or> v < - (2 ^ 31) \<or> 2 ^ 31 \<le> v then None else Some v)"

text \<open>\<open>std::stoul(s, nullptr, 16)\<close> with an \<open>unsigned long\<close> of \<open>W\<close> bits.\<close>

definition strip_0x :: "string \<Rightarrow> string" where
  "strip_0x s =
     (case s of
        a # b # c # r \<Rightarrow>
          (if a = CHR ''0'' \<and> (b = CHR ''x'' \<or> b = CHR ''X'') \<and> is_digit 16 c then c # r else s)
      | _ \<Rightarrow> s)"

definition stoul16 :: "nat \<Rightarrow> string \<Rightarrow> nat option" where
  "stoul16 W s =
     (let (neg, t) = scan_sign (dropWhile isspace s); (ds, r) = scan_digits 16 (strip_0x t);
          v = digits_val 16 ds in
      if ds = [] \<or> 2 ^ W \<le> v then None
      else Some (if neg \<and> v \<noteq> 0 then 2 ^ W - v else v))"

text \<open>
  \<open>std::stod\<close>: an optional sign and then a decimal number, a hexadecimal one, an infinity
  or a NaN. It throws when nothing converts, on overflow, and on an inexact result below
  the normal range.
\<close>

definition lower :: "char \<Rightarrow> char" where
  "lower c = (let n = of_char c :: nat in if 65 \<le> n \<and> n \<le> 90 then char_of (n + 32) else c)"

definition has_prefix :: "string \<Rightarrow> string \<Rightarrow> bool" where
  "has_prefix p s \<longleftrightarrow> map lower (take (length p) s) = p"

text \<open>Digits, an optional point and more digits: the digits and how many follow the point.\<close>

definition scan_mantissa :: "nat \<Rightarrow> string \<Rightarrow> string \<times> nat \<times> string" where
  "scan_mantissa base s =
     (let (d1, r) = scan_digits base s in
      case r of
        c # r' \<Rightarrow>
          (if c = CHR ''.'' then (let (d2, r'') = scan_digits base r' in (d1 @ d2, length d2, r''))
           else (d1, 0, r))
      | [] \<Rightarrow> (d1, 0, r))"

definition scan_exponent :: "char \<Rightarrow> string \<Rightarrow> int" where
  "scan_exponent mark s =
     (case s of
        c # r \<Rightarrow>
          (if lower c = mark then
             (let (neg, t) = scan_sign r; (ds, _) = scan_digits 10 t in
              if neg then - int (digits_val 10 ds) else int (digits_val 10 ds))
           else 0)
      | [] \<Rightarrow> 0)"

text \<open>Rounding with the range check of \<open>errno\<close>.\<close>

definition underflows :: "nat \<Rightarrow> nat \<Rightarrow> bool" where
  "underflows n d =
     (let (n1, d1) = scale_ratio n d (-1022); (n2, d2) = scale_ratio n d (-1074)
      in 0 < n \<and> n1 < d1 \<and> n2 mod d2 \<noteq> 0)"

definition checked_round :: "bool \<Rightarrow> nat \<Rightarrow> nat \<Rightarrow> fp option" where
  "checked_round s n d =
     (case round_ratio binary64 s n d of
        Fin t m e \<Rightarrow> (if underflows n d then None else Some (Fin t m e))
      | _ \<Rightarrow> None)"

definition decimal_ratio :: "nat \<Rightarrow> int \<Rightarrow> nat \<times> nat" where
  "decimal_ratio n k = (if 0 \<le> k then (n * 10 ^ nat k, 1) else (n, 10 ^ nat (- k)))"

definition stod_decimal :: "bool \<Rightarrow> string \<Rightarrow> fp option" where
  "stod_decimal s t =
     (let (ds, k, r) = scan_mantissa 10 t in
      if ds = [] then None
      else let (n, d) = decimal_ratio (digits_val 10 ds) (scan_exponent (CHR ''e'') r - int k)
           in checked_round s n d)"

definition stod_hex :: "bool \<Rightarrow> string \<Rightarrow> fp option" where
  "stod_hex s t =
     (let (ds, k, r) = scan_mantissa 16 t;
          (n, d) = scale_ratio (digits_val 16 ds) 1 (4 * int k - scan_exponent (CHR ''p'') r)
      in if ds = [] then Some (Fin s 0 (emin binary64)) else checked_round s n d)"

definition stod :: "string \<Rightarrow> fp option" where
  "stod str =
     (let (s, t) = scan_sign (dropWhile isspace str) in
      if has_prefix ''inf'' t then Some (Inf s)
      else if has_prefix ''nan'' t then Some (NaN s)
      else if has_prefix ''0x'' t then stod_hex s (drop 2 t)
      else stod_decimal s t)"

section \<open>Printing numbers\<close>

definition digit_char :: "nat \<Rightarrow> char" where
  "digit_char d = (if d < 10 then char_of (48 + d) else char_of (87 + d))"

fun show_base :: "nat \<Rightarrow> nat \<Rightarrow> string" where
  "show_base b n = (if n < b \<or> b < 2 then [digit_char n] else show_base b (n div b) @ [digit_char (n mod b)])"

declare show_base.simps [simp del]

lemma digit_val_char [simp]: "d < 16 \<Longrightarrow> digit_val (digit_char d) = Some d"
  by (auto simp: digit_val_def digit_char_def Let_def)

lemma is_digit_char: "d < base \<Longrightarrow> base \<le> 16 \<Longrightarrow> is_digit base (digit_char d)"
  by (simp add: is_digit_def)

lemma digits_val_snoc: "digits_val b (ds @ [c]) = b * digits_val b ds + the (digit_val c)"
  by (simp add: digits_val_def)

lemma show_base_digits:
  assumes "2 \<le> b" and "b \<le> 16"
  shows "(\<forall>c\<in>set (show_base b n). is_digit b c) \<and> show_base b n \<noteq> [] \<and> digits_val b (show_base b n) = n"
  using assms
proof (induction b n rule: show_base.induct)
  case (1 b n)
  show ?case
  proof (cases "n < b")
    case True
    with 1(2,3) show ?thesis
      by (simp add: show_base.simps [of b n] is_digit_char digits_val_def)
  next
    case False
    with 1 have IH: "\<forall>c\<in>set (show_base b (n div b)). is_digit b c" "digits_val b (show_base b (n div b)) = n div b"
      by auto
    have "n mod b < b" using 1(2) by simp
    then have "n mod b < 16" using 1(3) by linarith
    then have "the (digit_val (digit_char (n mod b))) = n mod b" by simp
    with IH False 1(2,3) show ?thesis
      by (auto simp: show_base.simps [of b n] digits_val_snoc is_digit_char)
  qed
qed

lemma scan_digits_append:
  "\<forall>c\<in>set ds. is_digit b c \<Longrightarrow> (r = [] \<or> \<not> is_digit b (hd r)) \<Longrightarrow> scan_digits b (ds @ r) = (ds, r)"
  unfolding scan_digits_def by (cases r) (auto simp: takeWhile_append dropWhile_append)

lemma digit_not_special:
  assumes "is_digit b c" shows "\<not> isspace c" "c \<noteq> CHR ''-''" "c \<noteq> CHR ''+''"
  using assms by (auto simp: is_digit_def digit_val_def isspace_def Let_def split: if_splits)

lemma scan_sign_digit: "is_digit b c \<Longrightarrow> scan_sign (c # r) = (False, c # r)"
  by (simp add: scan_sign_def digit_not_special)

text \<open>What the extraction operators do to a stream that starts with a printed item.\<close>

lemma isspace_blank [simp]: "isspace (CHR '' '')"
  by (simp add: isspace_def)

lemma get_word_word:
  assumes "w \<noteq> []" "\<forall>c\<in>set w. \<not> isspace c" "r = [] \<or> isspace (hd r)"
  shows "get_word (Some (w @ r)) = (w, Some r)" and "get_word (Some (CHR '' '' # w @ r)) = (w, Some r)"
proof -
  have "dropWhile isspace (w @ r) = w @ r" using assms by (cases w) auto
  moreover have "takeWhile (\<lambda>c. \<not> isspace c) (w @ r) = w" "dropWhile (\<lambda>c. \<not> isspace c) (w @ r) = r"
    using assms by (cases r; auto simp: takeWhile_append dropWhile_append)+
  ultimately show "get_word (Some (w @ r)) = (w, Some r)" "get_word (Some (CHR '' '' # w @ r)) = (w, Some r)"
    using assms(1) by (simp_all add: get_word_def)
qed

lemma scan_shown:
  assumes "2 \<le> b" and "b \<le> 16" and "r = [] \<or> \<not> is_digit b (hd r)"
  shows "dropWhile isspace (show_base b n @ r) = show_base b n @ r"
    and "scan_sign (show_base b n @ r) = (False, show_base b n @ r)"
    and "scan_digits b (show_base b n @ r) = (show_base b n, r)"
proof -
  note d = show_base_digits [OF assms(1,2), of n]
  then obtain c ds where c: "show_base b n = c # ds" "is_digit b c"
    by (cases "show_base b n") auto
  then show "dropWhile isspace (show_base b n @ r) = show_base b n @ r"
    and "scan_sign (show_base b n @ r) = (False, show_base b n @ r)"
    by (simp_all add: digit_not_special [OF c(2)] scan_sign_digit [OF c(2)])
  show "scan_digits b (show_base b n @ r) = (show_base b n, r)"
    using d assms by (intro scan_digits_append) auto
qed

lemma get_uint32_shown:
  assumes "n < 2 ^ 32" and "r = [] \<or> \<not> is_digit 10 (hd r)"
  shows "get_uint32 (Some (CHR '' '' # show_base 10 n @ r)) = (of_nat n, Some r)"
  using assms show_base_digits [of 10 n] by (simp add: get_uint32_def scan_shown)

lemma get_int32_shown:
  assumes "n < 2 ^ 31" and "r = [] \<or> \<not> is_digit 10 (hd r)"
  shows "get_int32 (Some (CHR '' '' # show_base 10 n @ r)) = (int n, Some r)"
proof -
  have "int n < 2 ^ 31" using assms(1) by simp
  then show ?thesis using assms(2) show_base_digits [of 10 n] by (simp add: get_int32_def scan_shown)
qed

section \<open>Line endings\<close>

lemma getlines_lf:
  "CHR 0x0A \<notin> set l \<Longrightarrow> getlines (l @ CHR 0x0A # rest) = l # getlines rest"
proof -
  assume l: "CHR 0x0A \<notin> set l"
  then have "takeWhile (\<lambda>c. c \<noteq> CHR 0x0A) (l @ CHR 0x0A # rest) = l"
    and "dropWhile (\<lambda>c. c \<noteq> CHR 0x0A) (l @ CHR 0x0A # rest) = CHR 0x0A # rest"
    by (induction l) auto
  then show ?thesis by (simp add: getlines.simps [of "l @ CHR 0x0A # rest"])
qed

definition lf_file :: "string list \<Rightarrow> string" where
  "lf_file ls = concat (map (\<lambda>l. l @ [CHR 0x0A]) ls)"

definition crlf_file :: "string list \<Rightarrow> string" where
  "crlf_file ls = concat (map (\<lambda>l. l @ [CHR 0x0D, CHR 0x0A]) ls)"

lemma getlines_Nil: "getlines [] = []"
  by (simp add: getlines.simps)

lemma getlines_lf_file: "\<forall>l\<in>set ls. CHR 0x0A \<notin> set l \<Longrightarrow> getlines (lf_file ls) = ls"
  by (induction ls) (simp_all add: lf_file_def getlines_lf getlines_Nil)

lemma getlines_crlf_file:
  "\<forall>l\<in>set ls. CHR 0x0A \<notin> set l \<Longrightarrow> getlines (crlf_file ls) = map (\<lambda>l. l @ [CHR 0x0D]) ls"
proof (induction ls)
  case Nil
  then show ?case by (simp add: crlf_file_def getlines_Nil)
next
  case (Cons l ls)
  then have "getlines ((l @ [CHR 0x0D]) @ CHR 0x0A # crlf_file ls) = (l @ [CHR 0x0D]) # getlines (crlf_file ls)"
    by (intro getlines_lf) simp
  with Cons show ?case by (simp add: crlf_file_def)
qed

section \<open>Searching\<close>

lemma find_first_not_of_None: "find_first_not_of cs s = None \<longleftrightarrow> (\<forall>c\<in>set s. c \<in> set cs)"
proof -
  let ?P = "\<lambda>x. x \<in> set cs"
  have "\<not> length (takeWhile ?P s) < length s \<longleftrightarrow> takeWhile ?P s = s"
    by (metis not_less order_refl take_all takeWhile_eq_take)
  also have "\<dots> \<longleftrightarrow> (\<forall>c\<in>set s. c \<in> set cs)" by (rule takeWhile_eq_all_conv)
  finally show ?thesis unfolding find_first_not_of_def Let_def by auto
qed

lemma find_first_not_of_drop:
  "find_first_not_of cs s = Some k \<Longrightarrow> drop k s = dropWhile (\<lambda>c. c \<in> set cs) s"
  by (auto simp: find_first_not_of_def Let_def dropWhile_eq_drop split: if_splits)

section \<open>Evaluation of closed terms\<close>

text \<open>A fraction with a denominator below \<open>2 ^ 64\<close> is zero or far above the subnormal range.\<close>

lemma underflows_small: "d < 2 ^ 64 \<Longrightarrow> \<not> underflows n d"
proof -
  assume d: "d < 2 ^ 64"
  have "(2::nat) ^ 64 \<le> 2 ^ 1022" by (rule power_increasing) simp_all
  then have "d < n * 2 ^ 1022" if "0 < n" using d that
    by (metis less_le_trans mult.commute mult_le_mono2 nat_mult_1_right Suc_leI One_nat_def)
  then show ?thesis by (cases "n = 0") (auto simp: underflows_def scale_ratio_def Let_def simp del: power_numeral)
qed

lemmas text_eval = stod_def stod_decimal_def stod_hex_def scan_sign_def isspace_def has_prefix_def
  lower_def scan_mantissa_def scan_digits_def is_digit_def digit_val_def scan_exponent_def
  digits_val_def decimal_ratio_def checked_round_def underflows_small stoi_def stoul16_def strip_0x_def
  get_word_def get_uint32_def get_int32_def str_find_def find_first_not_of_def pop_back_if_def
  pop_front_if_def

end
