(* ===== verification/Config_Loader.thy ===== *)
theory Config_Loader
  imports Cpp_Text
begin

text \<open>
  The routing configuration (\<^verbatim>\<open>src/utils/config_loader.hpp\<close>, \<^verbatim>\<open>config_loader.cpp\<close>). The file
  is its content, or \<open>None\<close> if it cannot be opened; \<open>W\<close> is the width of
  \<open>unsigned long\<close>. The messages on the console are left out.
\<close>

section \<open>Data and operations\<close>

record signal_route =
  route_signal_name :: string
  route_service_id :: u16
  route_method_id :: u16

text \<open>The body of the loop over the lines: an exception of \<open>std::stoul\<close> skips the line.\<close>

definition load_line :: "nat \<Rightarrow> signal_route list \<Rightarrow> string \<Rightarrow> signal_route list" where
  "load_line W routes raw =
     (let line = pop_back_if (CHR 0x0D) raw in
      case find_first_not_of ('' '' @ [CHR 0x09]) line of
        None \<Rightarrow> routes
      | Some start \<Rightarrow>
          if line ! start = CHR ''#'' then routes
          else (let (name, ss) = get_word (Some line);
                    (svc_str, ss) = get_word ss;
                    (method_str, ss) = get_word ss in
                if ss = None then routes
                else (case stoul16 W svc_str of
                    None \<Rightarrow> routes
                  | Some service \<Rightarrow>
                      (case stoul16 W method_str of
                        None \<Rightarrow> routes
                      | Some method \<Rightarrow>
                          routes @ [\<lparr>route_signal_name = name, route_service_id = of_nat service,
                                     route_method_id = of_nat method\<rparr>]))))"

definition config_load :: "nat \<Rightarrow> signal_route list \<Rightarrow> string option \<Rightarrow> bool \<times> signal_route list" where
  "config_load W routes file_content =
     (case file_content of
        None \<Rightarrow> (False, routes)
      | Some s \<Rightarrow> (let rs = foldl (load_line W) routes (getlines s) in (rs \<noteq> [], rs)))"

definition route_count :: "signal_route list \<Rightarrow> nat" where
  "route_count routes = length routes"

section \<open>Reference: configuration files by their lines\<close>

text \<open>
  The lines of a well-formed file: blank lines, comments and routes whose identifiers are
  written in hexadecimal.
\<close>

datatype conf_line = Blank string | Comment string string | Route string nat nat

fun conf_text :: "conf_line \<Rightarrow> string" where
  "conf_text (Blank ws) = ws"
| "conf_text (Comment ws c) = ws @ ''#'' @ c"
| "conf_text (Route name service method) =
     name @ '' 0x'' @ show_base 16 service @ '' 0x'' @ show_base 16 method"

fun conf_route :: "conf_line \<Rightarrow> signal_route list" where
  "conf_route (Route name service method) =
     [\<lparr>route_signal_name = name, route_service_id = of_nat service, route_method_id = of_nat method\<rparr>]"
| "conf_route _ = []"

definition blanks :: "string \<Rightarrow> bool" where
  "blanks s \<longleftrightarrow> set s \<subseteq> {CHR '' '', CHR 0x09}"

fun conf_ok :: "nat \<Rightarrow> conf_line \<Rightarrow> bool" where
  "conf_ok W (Blank ws) = blanks ws"
| "conf_ok W (Comment ws c) = (blanks ws \<and> (\<forall>x\<in>set c. x \<noteq> CHR 0x0A \<and> x \<noteq> CHR 0x0D))"
| "conf_ok W (Route name service method) =
     (name \<noteq> [] \<and> hd name \<noteq> CHR ''#'' \<and> (\<forall>x\<in>set name. \<not> isspace x) \<and> service < 2 ^ W \<and> method < 2 ^ W)"

section \<open>Lines\<close>

lemma stoul16_shown: "n < 2 ^ W \<Longrightarrow> stoul16 W (''0x'' @ show_base 16 n) = Some n"
proof -
  assume n: "n < 2 ^ W"
  obtain c r where c: "show_base 16 n = c # r" "is_digit 16 c"
    using show_base_digits [of 16 n] by (cases "show_base 16 n") auto
  have "strip_0x (''0x'' @ show_base 16 n) = show_base 16 n" using c by (simp add: strip_0x_def)
  moreover have "scan_sign (''0x'' @ show_base 16 n) = (False, ''0x'' @ show_base 16 n)"
    by (simp add: scan_sign_def)
  moreover have "scan_digits 16 (show_base 16 n) = (show_base 16 n, [])"
    using scan_shown(3) [of 16 "[]" n] by simp
  ultimately show ?thesis using n c show_base_digits [of 16 n]
    by (simp add: stoul16_def isspace_def)
qed

lemma shown_word: "w = ''0x'' @ show_base 16 n \<Longrightarrow> w \<noteq> [] \<and> (\<forall>c\<in>set w. \<not> isspace c)"
  using show_base_digits [of 16 n] digit_not_special(1) [of 16] by (auto simp: isspace_def [of "CHR ''0''"] isspace_def [of "CHR ''x''"])

lemma pop_back_absent: "x \<notin> set s \<Longrightarrow> pop_back_if x s = s"
  by (metis last_in_set pop_back_if_def)

lemma no_cr: "\<forall>c\<in>set s. \<not> isspace c \<Longrightarrow> CHR 0x0D \<notin> set s" "\<forall>c\<in>set s. \<not> isspace c \<Longrightarrow> CHR 0x0A \<notin> set s"
  by (metis isspace_def)+

lemma blanks_no: "blanks ws \<Longrightarrow> CHR 0x0D \<notin> set ws" "blanks ws \<Longrightarrow> CHR 0x0A \<notin> set ws"
proof -
  have "CHR 0x0D \<notin> {CHR '' '', CHR 0x09}" "CHR 0x0A \<notin> {CHR '' '', CHR 0x09}" by simp_all
  then show "blanks ws \<Longrightarrow> CHR 0x0D \<notin> set ws" "blanks ws \<Longrightarrow> CHR 0x0A \<notin> set ws" unfolding blanks_def by blast+
qed

lemma conf_text_no:
  assumes "conf_ok W cl" shows "CHR 0x0D \<notin> set (conf_text cl)" "CHR 0x0A \<notin> set (conf_text cl)"
proof -
  have "CHR 0x0D \<notin> set (show_base 16 n)" "CHR 0x0A \<notin> set (show_base 16 n)" for n
    using no_cr [of "show_base 16 n"] show_base_digits [of 16 n] digit_not_special(1) [of 16] by auto
  then show "CHR 0x0D \<notin> set (conf_text cl)" "CHR 0x0A \<notin> set (conf_text cl)"
    using assms by (cases cl; simp add: blanks_no no_cr; blast)+
qed

lemma blanks_prefix:
  assumes "blanks ws" and "c = [] \<or> hd c = CHR ''#''"
  shows "takeWhile (\<lambda>x. x \<in> set ('' '' @ [CHR 0x09])) (ws @ c) = ws"
  using assms unfolding blanks_def by (subst takeWhile_append2) (fastforce, cases c, simp_all)

lemma load_line_skip:
  assumes "blanks ws" and "c = [] \<or> hd c = CHR ''#''" and "CHR 0x0D \<notin> set (ws @ c)"
  shows "load_line W rs (ws @ c) = rs"
proof -
  note defs = load_line_def pop_back_absent [OF assms(3)] Let_def find_first_not_of_def blanks_prefix [OF assms(1,2)]
  show ?thesis
  proof (cases c)
    case Nil
    then show ?thesis unfolding defs by simp
  next
    case (Cons a r)
    with assms(2) have "(ws @ c) ! length ws = CHR ''#''" "length ws < length (ws @ c)" by simp_all
    then show ?thesis unfolding defs by simp
  qed
qed

lemma load_line_route:
  assumes "conf_ok W (Route name service method)"
  shows "load_line W rs (conf_text (Route name service method)) = rs @ conf_route (Route name service method)"
proof -
  let ?s = "''0x'' @ show_base 16 service" and ?m = "''0x'' @ show_base 16 method"
  let ?line = "name @ CHR '' '' # ?s @ CHR '' '' # ?m"
  have line: "conf_text (Route name service method) = ?line" by simp
  have s: "?s \<noteq> [] \<and> (\<forall>c\<in>set ?s. \<not> isspace c)" and m: "?m \<noteq> [] \<and> (\<forall>c\<in>set ?m. \<not> isspace c)"
    by (rule shown_word, simp)+
  have name: "name \<noteq> []" "\<forall>c\<in>set name. \<not> isspace c" "hd name \<noteq> CHR ''#''" using assms by auto
  have cr: "pop_back_if (CHR 0x0D) ?line = ?line"
    using conf_text_no(1) [OF assms] pop_back_absent unfolding line by blast
  have ff: "find_first_not_of ('' '' @ [CHR 0x09]) ?line = Some 0" and hd: "?line ! 0 = hd name"
    using name by (cases name; simp add: find_first_not_of_def isspace_def)+
  have w1: "get_word (Some ?line) = (name, Some (CHR '' '' # ?s @ CHR '' '' # ?m))"
    using name by (intro get_word_word) simp_all
  have w2: "get_word (Some (CHR '' '' # ?s @ CHR '' '' # ?m)) = (?s, Some (CHR '' '' # ?m))"
    using s by (intro get_word_word) simp_all
  have w3: "get_word (Some (CHR '' '' # ?m)) = (?m, Some [])"
    using get_word_word(2) [of ?m "[]"] m by simp
  have n: "stoul16 W ?s = Some service" "stoul16 W ?m = Some method" using assms by (simp_all only: stoul16_shown conf_ok.simps)
  show ?thesis
    unfolding line load_line_def cr Let_def ff option.case hd w1 w2 w3 prod.case n using name(3) by simp
qed

lemma load_line_conf: "conf_ok W cl \<Longrightarrow> load_line W rs (conf_text cl) = rs @ conf_route cl"
proof (cases cl)
  case (Blank ws)
  then show "conf_ok W cl \<Longrightarrow> ?thesis" using load_line_skip [of ws "[]" W rs] by (simp add: blanks_no)
next
  case (Comment ws c)
  then show "conf_ok W cl \<Longrightarrow> ?thesis"
    using load_line_skip [of ws "''#'' @ c" W rs] conf_text_no(1) [of W cl] by simp
next
  case (Route name s m)
  then show "conf_ok W cl \<Longrightarrow> ?thesis" by (simp only: load_line_route)
qed

lemma fold_load_lines:
  "\<forall>cl\<in>set cls. conf_ok W cl \<Longrightarrow> foldl (load_line W) rs (map conf_text cls) = rs @ concat (map conf_route cls)"
  by (induction cls arbitrary: rs) (simp_all add: load_line_conf)

lemma load_line_cr: "CHR 0x0D \<notin> set l \<Longrightarrow> load_line W rs (l @ [CHR 0x0D]) = load_line W rs l"
  by (simp add: load_line_def pop_back_absent) (simp add: pop_back_if_def)

lemma fold_load_cr:
  "\<forall>l\<in>set ls. CHR 0x0D \<notin> set l \<Longrightarrow>
   foldl (load_line W) rs (map (\<lambda>l. l @ [CHR 0x0D]) ls) = foldl (load_line W) rs ls"
  by (induction ls arbitrary: rs) (simp_all add: load_line_cr)

lemma config_lines_loaded:
  assumes "\<forall>cl\<in>set cls. conf_ok W cl"
  shows "config_load W rs (Some (lf_file (map conf_text cls)))
           = (rs @ concat (map conf_route cls) \<noteq> [], rs @ concat (map conf_route cls))"
    and "config_load W rs (Some (crlf_file (map conf_text cls)))
           = config_load W rs (Some (lf_file (map conf_text cls)))"
proof -
  let ?ls = "map conf_text cls"
  have nl: "\<forall>l\<in>set ?ls. CHR 0x0A \<notin> set l" "\<forall>l\<in>set ?ls. CHR 0x0D \<notin> set l"
    using assms conf_text_no by auto
  show "config_load W rs (Some (lf_file ?ls)) = (rs @ concat (map conf_route cls) \<noteq> [], rs @ concat (map conf_route cls))"
    "config_load W rs (Some (crlf_file ?ls)) = config_load W rs (Some (lf_file ?ls))"
    by (simp_all add: config_load_def getlines_lf_file [OF nl(1)] getlines_crlf_file [OF nl(1)] Let_def
        fold_load_cr [OF nl(2)] fold_load_lines [OF assms] del: map_map)
qed

section \<open>Properties\<close>

text \<open>
  C16: A well-formed configuration loads as written: blank lines and comments are skipped and
  every route line adds one route, in the order of the file, with the name as written and the
  two hexadecimal identifiers reduced modulo \<open>2 ^ 16\<close>. So identifiers of 16 bits survive, and
  wider ones are cut without a diagnostic. The load succeeds exactly when at least one route is
  known, and line ends of either convention give the same routes.
\<close>

theorem config_load_routes:
  assumes "\<forall>cl\<in>set cls. conf_ok W cl"
  shows "config_load W rs (Some (lf_file (map conf_text cls)))
           = (rs @ concat (map conf_route cls) \<noteq> [], rs @ concat (map conf_route cls))
     \<and> config_load W rs (Some (crlf_file (map conf_text cls)))
           = config_load W rs (Some (lf_file (map conf_text cls)))"
  using config_lines_loaded [OF assms] by blast

theorem config_load_routes_witness:
  "snd (config_load 64 [] (Some (lf_file (map conf_text
       [Comment [] '' Engine Service (0x0101)'', Route ''EngineRPM'' 0x0101 0x8001, Blank [],
        Route ''Wide'' 0x10101 0x8002]))))
     = [\<lparr>route_signal_name = ''EngineRPM'', route_service_id = 0x0101, route_method_id = 0x8001\<rparr>,
        \<lparr>route_signal_name = ''Wide'', route_service_id = 0x0101, route_method_id = 0x8002\<rparr>]"
  using config_load_routes [of "[Comment [] '' Engine Service (0x0101)'', Route ''EngineRPM'' 0x0101 0x8001,
      Blank [], Route ''Wide'' 0x10101 0x8002]" 64 "[]"]
  by (simp add: blanks_def isspace_def)

text \<open>
  Loading only ever adds routes: whatever the file holds, the routes known before stay at
  the front in their order, each line adds at most one, and a file that cannot be opened is
  reported and changes nothing.
\<close>

theorem config_load_extends:
  "(\<exists>new. snd (config_load W rs (Some s)) = rs @ new \<and> length new \<le> length (getlines s))
   \<and> (fst (config_load W rs (Some s)) \<longleftrightarrow> route_count (snd (config_load W rs (Some s))) \<noteq> 0)
   \<and> config_load W rs None = (False, rs)"
proof -
  have step: "\<exists>new. load_line W r l = r @ new \<and> length new \<le> 1" for r l
    by (auto simp: load_line_def Let_def split: option.splits prod.splits)
  have "\<exists>new. foldl (load_line W) r ls = r @ new \<and> length new \<le> length ls" for r ls
  proof (induction ls arbitrary: r)
    case (Cons l ls)
    obtain n1 where n1: "load_line W r l = r @ n1" "length n1 \<le> 1" using step by blast
    obtain n2 where n2: "foldl (load_line W) (r @ n1) ls = (r @ n1) @ n2" "length n2 \<le> length ls"
      using Cons by blast
    have "foldl (load_line W) r (l # ls) = r @ (n1 @ n2) \<and> length (n1 @ n2) \<le> length (l # ls)"
      using n1 n2 by simp
    then show ?case by blast
  qed simp
  from this [of rs "getlines s"] show ?thesis by (simp add: config_load_def route_count_def Let_def)
qed

end
