(* ===== verification/Someip_Message.thy ===== *)
theory Someip_Message
  imports Ieee_Fp
begin

text \<open>
  SOME/IP messages (\<^verbatim>\<open>src/someip/someip_message.hpp\<close>, \<^verbatim>\<open>someip_message.cpp\<close>). A \<open>float\<close> is
  a binary32 value; its object representation is \<open>float_bits\<close>. \<open>None\<close> is an access outside
  a buffer. Vectors are shorter than the address space, so their sizes do not wrap.
\<close>

section \<open>Data\<close>

definition SOMEIP_MSG_NOTIFICATION :: byte where "SOMEIP_MSG_NOTIFICATION = 0x02"
definition SOMEIP_RET_OK :: byte where "SOMEIP_RET_OK = 0x00"
definition SOMEIP_HEADER_SIZE :: nat where "SOMEIP_HEADER_SIZE = 16"
definition SOMEIP_MAX_SIZE :: nat where "SOMEIP_MAX_SIZE = 1500"

lemmas someip_consts = SOMEIP_MSG_NOTIFICATION_def SOMEIP_RET_OK_def SOMEIP_HEADER_SIZE_def SOMEIP_MAX_SIZE_def

record someip_message =
  service_id :: u16
  method_id :: u16
  client_id :: u16
  session_id :: u16
  msg_type :: byte
  return_code :: byte
  payload :: "byte list"

definition SomeIpMessage :: someip_message where
  "SomeIpMessage = \<lparr>service_id = 0, method_id = 0, client_id = 0, session_id = 0,
     msg_type = SOMEIP_MSG_NOTIFICATION, return_code = SOMEIP_RET_OK, payload = []\<rparr>"

section \<open>Operations\<close>

definition make_notification :: "u16 \<Rightarrow> u16 \<Rightarrow> u16 \<Rightarrow> byte list \<Rightarrow> nat \<Rightarrow> someip_message option" where
  "make_notification service method session pl payload_len = do {
     bytes \<leftarrow> rd_run pl 0 payload_len;
     Some (SomeIpMessage\<lparr>service_id := service, method_id := method, client_id := 0x0000,
             session_id := session, msg_type := SOMEIP_MSG_NOTIFICATION, return_code := SOMEIP_RET_OK,
             payload := bytes\<rparr>) }"

definition make_float_notification :: "u16 \<Rightarrow> u16 \<Rightarrow> u16 \<Rightarrow> fp \<Rightarrow> someip_message option" where
  "make_float_notification service method session value =
     (let raw = float_bits value; raw = htonl raw; buf = mem32 raw
      in make_notification service method session buf 4)"

definition make_uint32_notification :: "u16 \<Rightarrow> u16 \<Rightarrow> u16 \<Rightarrow> u32 \<Rightarrow> someip_message option" where
  "make_uint32_notification service method session value =
     (let net = htonl value; buf = mem32 net
      in make_notification service method session buf 4)"

text \<open>The number of bytes written, zero if the buffer is too small, and the buffer afterwards.\<close>

definition serialize_into :: "someip_message \<Rightarrow> byte list \<Rightarrow> nat \<Rightarrow> (nat \<times> byte list) option" where
  "serialize_into msg buf buf_len =
     (let total_size = SOMEIP_HEADER_SIZE + length (payload msg) in
      if buf_len < total_size then Some (0, buf)
      else do {
        buf \<leftarrow> put 0 (be16 (service_id msg)) buf;
        buf \<leftarrow> put 2 (be16 (method_id msg)) buf;
        buf \<leftarrow> put 4 (be32 (of_nat (length (payload msg) + 8))) buf;
        buf \<leftarrow> put 8 (be16 (client_id msg)) buf;
        buf \<leftarrow> put 10 (be16 (session_id msg)) buf;
        buf \<leftarrow> put 12 [0x01] buf;
        buf \<leftarrow> put 13 [0x01] buf;
        buf \<leftarrow> put 14 [msg_type msg] buf;
        buf \<leftarrow> put 15 [return_code msg] buf;
        buf \<leftarrow> (if payload msg \<noteq> [] then put SOMEIP_HEADER_SIZE (payload msg) buf else Some buf);
        Some (total_size, buf) })"

definition serialize :: "someip_message \<Rightarrow> byte list option" where
  "serialize msg = do {
     (n, buf) \<leftarrow> serialize_into msg (replicate (SOMEIP_HEADER_SIZE + length (payload msg)) 0)
                   (SOMEIP_HEADER_SIZE + length (payload msg));
     Some buf }"

definition payload_size :: "someip_message \<Rightarrow> nat" where
  "payload_size msg = length (payload msg)"

section \<open>Reference: the wire format\<close>

definition someip_header :: "someip_message \<Rightarrow> byte list" where
  "someip_header m =
     be16 (service_id m) @ be16 (method_id m) @ be32 (of_nat (length (payload m) + 8)) @
     be16 (client_id m) @ be16 (session_id m) @ [0x01, 0x01, msg_type m, return_code m]"

definition someip_bytes :: "someip_message \<Rightarrow> byte list" where
  "someip_bytes m = someip_header m @ payload m"

text \<open>What a receiver finds in the first sixteen bytes: the fields and the length field.\<close>

definition someip_parse_header :: "byte list \<Rightarrow> (someip_message \<times> u32) option" where
  "someip_parse_header bs = do {
     service \<leftarrow> dec16 bs; method \<leftarrow> dec16 (drop 2 bs); len \<leftarrow> dec32 (drop 4 bs);
     client \<leftarrow> dec16 (drop 8 bs); session \<leftarrow> dec16 (drop 10 bs);
     t \<leftarrow> rd bs 14; r \<leftarrow> rd bs 15;
     Some (\<lparr>service_id = service, method_id = method, client_id = client, session_id = session,
             msg_type = t, return_code = r, payload = []\<rparr>, len) }"

text \<open>One message at the front of a byte sequence, with the number of bytes it takes.\<close>

definition someip_next :: "byte list \<Rightarrow> (someip_message \<times> nat) option" where
  "someip_next bs = do {
     (m, len) \<leftarrow> someip_parse_header bs;
     if 8 \<le> unat len \<and> unat len + 8 \<le> length bs
     then Some (m\<lparr>payload := take (unat len - 8) (drop 16 bs)\<rparr>, unat len + 8)
     else None }"

definition msg_fits :: "someip_message \<Rightarrow> bool" where
  "msg_fits m \<longleftrightarrow> length (payload m) + 8 < 2 ^ 32"

lemma length_someip_header [simp]: "length (someip_header m) = 16"
  by (simp add: someip_header_def)

lemma length_someip_bytes [simp]: "length (someip_bytes m) = 16 + length (payload m)"
  by (simp add: someip_bytes_def)

text \<open>A serialised message overwrites exactly the front of the buffer.\<close>

lemma serialize_into_bytes:
  assumes "buf_len \<le> length buf"
  shows "serialize_into m buf buf_len =
     (if buf_len < 16 + length (payload m) then Some (0, buf)
      else Some (16 + length (payload m), someip_bytes m @ drop (16 + length (payload m)) buf))"
  using assms
  by (auto simp: serialize_into_def someip_consts someip_bytes_def someip_header_def put_seq0 put_seq Let_def
      add.commute simp flip: append_assoc)

lemma serialize_bytes: "serialize m = Some (someip_bytes m)"
  by (simp add: serialize_def serialize_into_bytes someip_consts)

lemma someip_parse_bytes:
  "someip_parse_header (someip_header m @ rest) = Some (m\<lparr>payload := []\<rparr>, of_nat (length (payload m) + 8))"
proof -
  let ?l = "be32 (of_nat (length (payload m) + 8))"
  let ?t = "[0x01, 0x01, msg_type m, return_code m] @ rest"
  have h: "someip_header m @ rest = be16 (service_id m) @ be16 (method_id m) @ ?l
      @ be16 (client_id m) @ be16 (session_id m) @ ?t"
    by (simp add: someip_header_def)
  have d: "drop 2 (someip_header m @ rest) = be16 (method_id m) @ ?l @ be16 (client_id m) @ be16 (session_id m) @ ?t"
    "drop 4 (someip_header m @ rest) = ?l @ be16 (client_id m) @ be16 (session_id m) @ ?t"
    "drop 8 (someip_header m @ rest) = be16 (client_id m) @ be16 (session_id m) @ ?t"
    "drop 10 (someip_header m @ rest) = be16 (session_id m) @ ?t"
    unfolding h by simp_all
  have r: "rd (someip_header m @ rest) 14 = Some (msg_type m)" "rd (someip_header m @ rest) 15 = Some (return_code m)"
    unfolding h by (simp_all add: rd_def nth_append)
  show ?thesis
    unfolding someip_parse_header_def r d unfolding h
    by (simp add: w16.dec_enc w32.dec_enc del: append.simps)
qed

interpretation someip_hdr: fixed_codec someip_header someip_parse_header 16
  "\<lambda>m. (m\<lparr>payload := []\<rparr>, of_nat (length (payload m) + 8))" "\<lambda>_. True"
  by unfold_locales (simp_all add: someip_parse_bytes)

lemma someip_next_bytes:
  assumes "msg_fits m"
  shows "someip_next (someip_bytes m @ rest) = Some (m, 16 + length (payload m))"
proof -
  have "unat (of_nat (length (payload m) + 8) :: u32) = length (payload m) + 8"
    using assms unfolding msg_fits_def by (rule unat_of_nat_u32)
  then show ?thesis
    using someip_hdr.dec_enc [of m "payload m @ rest"]
    by (simp add: someip_next_def someip_bytes_def)
qed

lemma parse_header_append: "someip_parse_header bs = Some h \<Longrightarrow> someip_parse_header (bs @ cs) = Some h"
  by (auto simp: someip_parse_header_def bind_eq_Some_conv rd_append dec_append)

interpretation someip_stream: frame_stream someip_next
proof
  fix bs m n assume a: "someip_next bs = Some (m, n)"
  then show "0 < n \<and> n \<le> length bs"
    by (auto simp: someip_next_def bind_eq_Some_conv split: if_splits)
  from a obtain h len where h: "someip_parse_header bs = Some (h, len)" "8 \<le> unat len" "unat len + 8 \<le> length bs"
    and m: "m = h\<lparr>payload := take (unat len - 8) (drop 16 bs)\<rparr>" "n = unat len + 8"
    by (auto simp: someip_next_def bind_eq_Some_conv split: if_splits)
  show "someip_next (bs @ cs) = Some (m, n)" for cs
    using parse_header_append [OF h(1), of cs] h(2,3) m by (simp add: someip_next_def)
qed

lemma deframe_messages:
  "\<forall>m\<in>set ms. msg_fits m \<Longrightarrow> deframe someip_next (concat (map someip_bytes ms)) = (ms, [])"
proof (induction ms)
  case Nil
  have "someip_next [] = None" by (simp add: someip_next_def someip_parse_header_def dec16_def rd_def)
  then show ?case by (simp add: someip_stream.deframe_None)
next
  case (Cons m ms)
  then have "someip_next (someip_bytes m @ concat (map someip_bytes ms)) = Some (m, 16 + length (payload m))"
    by (simp add: someip_next_bytes)
  from someip_stream.deframe_Some [OF this] Cons show ?case by simp
qed

lemma make_notification_exact:
  "make_notification s mt sess pl (length pl) = Some (SomeIpMessage\<lparr>service_id := s, method_id := mt,
     session_id := sess, payload := pl\<rparr>)"
  by (simp add: make_notification_def rd_run_def SomeIpMessage_def)

lemma make_float_eq:
  "make_float_notification s mt sess v = Some (SomeIpMessage\<lparr>service_id := s, method_id := mt,
     session_id := sess, payload := be32 (float_bits v)\<rparr>)"
  using make_notification_exact [of s mt sess "be32 (float_bits v)"]
  by (simp add: make_float_notification_def mem32_htonl Let_def)

section \<open>Properties\<close>

text \<open>
  The zero-copy serialiser is memory safe and writes the wire format. With a buffer of at
  least the announced size it either reports zero and leaves the buffer alone, when the message
  does not fit, or writes the header in network byte order and the payload at the front of the
  buffer, leaves every later byte untouched and returns the number of bytes written; the
  allocating variant returns the same bytes.
\<close>

theorem someip_serialize_wire:
  assumes "buf_len \<le> length buf"
  shows "serialize_into m buf buf_len =
     (if buf_len < 16 + length (payload m) then Some (0, buf)
      else Some (length (someip_bytes m), someip_bytes m @ drop (length (someip_bytes m)) buf))
   \<and> serialize m = Some (someip_bytes m)"
  by (simp add: serialize_into_bytes [OF assms] serialize_bytes)

theorem someip_serialize_wire_witness:
  "serialize_into (SomeIpMessage\<lparr>service_id := 0x0101, method_id := 0x8001, session_id := 7, payload := [9]\<rparr>)
     [0, 0, 0, 0, 0, 0, 0, 0, 0, 0, 0, 0, 0, 0, 0, 0, 0, 0xEE] 18
   = Some (17, [0x01, 0x01, 0x80, 0x01, 0, 0, 0, 9, 0, 0, 0, 7, 1, 1, 2, 0, 9, 0xEE])"
  using someip_serialize_wire [of 18 "[0, 0, 0, 0, 0, 0, 0, 0, 0, 0, 0, 0, 0, 0, 0, 0, 0, 0xEE]"
      "SomeIpMessage\<lparr>service_id := 0x0101, method_id := 0x8001, session_id := 7, payload := [9]\<rparr>"]
  by (simp add: SomeIpMessage_def someip_bytes_def someip_header_def be16_def be32_def someip_consts
      drop_bit_eq_div)

text \<open>
  Serialised messages can be read back, alone or one after the other: a receiver that cuts
  messages off a byte sequence by their length field recovers exactly the messages that were
  serialised, in order, with nothing left over, provided each length fits its 32-bit field.
\<close>

theorem someip_roundtrip:
  assumes "\<forall>m\<in>set ms. msg_fits m"
  shows "\<exists>bs. those (map serialize ms) = Some bs \<and> deframe someip_next (concat bs) = (ms, [])"
proof -
  have "those (map serialize ms) = Some (map someip_bytes ms)"
    by (induction ms) (simp_all add: serialize_bytes)
  with deframe_messages [OF assms] show ?thesis by simp
qed

theorem someip_roundtrip_witness:
  "\<exists>bs. those (map serialize [SomeIpMessage, SomeIpMessage\<lparr>payload := [1, 2, 3]\<rparr>]) = Some bs
     \<and> deframe someip_next (concat bs) = ([SomeIpMessage, SomeIpMessage\<lparr>payload := [1, 2, 3]\<rparr>], [])"
  by (rule someip_roundtrip) (simp add: msg_fits_def SomeIpMessage_def)

text \<open>
  A float notification carries its value: building one never fails, its payload is four
  bytes, and reading them in network byte order as a binary32 number gives back exactly the
  value, for every finite value, infinity and quiet NaN in the binary32 format.
\<close>

theorem float_notification_roundtrip:
  assumes "fp_canonical binary32 v"
  shows "\<exists>m. make_float_notification s mt sess v = Some m \<and> service_id m = s \<and> method_id m = mt
     \<and> session_id m = sess \<and> msg_type m = SOMEIP_MSG_NOTIFICATION \<and> payload_size m = 4
     \<and> map_option float_of_bits (dec32 (payload m)) = Some v"
  using w32.dec_enc [of "float_bits v" "[]"] float_bits_roundtrip [OF assms]
  by (simp add: make_float_eq SomeIpMessage_def payload_size_def)

theorem float_notification_roundtrip_witness:
  "\<exists>m. make_float_notification 0x0101 0x8001 1 (Fin False 14680064 (-12)) = Some m
     \<and> map_option float_of_bits (dec32 (payload m)) = Some (Fin False 14680064 (-12))"
  using float_notification_roundtrip [of "Fin False 14680064 (-12)" "0x0101" "0x8001" 1]
  by (auto simp: fp_canonical_def binary32_def)

end
