(* ===== verification/Dbc_Parser.thy ===== *)
theory Dbc_Parser
  imports Cpp_Text
begin

text \<open>
  The DBC file parser (\<^verbatim>\<open>src/can/dbc_parser.hpp\<close>, \<^verbatim>\<open>dbc_parser.cpp\<close>). The file is its
  content, or \<open>None\<close> if it cannot be opened. The unordered map of messages is a map
  from identifiers; the progress messages on the console are left out.
\<close>

section \<open>Data\<close>

record signal_def =
  sig_name :: string
  start_bit :: byte
  sig_length :: byte
  is_signed :: bool
  is_little_endian :: bool
  scale :: fp
  offset :: fp
  min_val :: fp
  max_val :: fp
  unit :: string

record message_def =
  msg_can_id :: u32
  msg_name :: string
  msg_length :: byte
  signals :: "signal_def list"

type_synonym dbc = "u32 \<rightharpoonup> message_def"

text \<open>The value that \<open>operator[]\<close> inserts for a missing key.\<close>

definition MessageDef :: message_def where
  "MessageDef = \<lparr>msg_can_id = 0, msg_name = [], msg_length = 0, signals = []\<rparr>"

section \<open>Operations\<close>

definition parse_message_line :: "string \<Rightarrow> message_def option" where
  "parse_message_line line =
     (let (tag, ss) = get_word (Some line);
          (id, ss) = get_uint32 ss;
          (name, ss) = get_word ss;
          (len, ss) = get_int32 ss;
          (sender, ss) = get_word ss
      in if ss = None \<or> tag \<noteq> ''BO_'' then None
         else Some \<lparr>msg_can_id = id, msg_name = pop_back_if (CHR '':'') name,
                    msg_length = of_int len, signals = []\<rparr>)"

text \<open>
  \<open>substr(pipe_pos + 1, at_pos - pipe_pos - 1)\<close>: when the at sign comes first the count
  wraps around to more than the string holds.
\<close>

definition between :: "nat \<Rightarrow> nat \<Rightarrow> string \<Rightarrow> string" where
  "between pipe_pos at_pos s =
     (if pipe_pos < at_pos then take (at_pos - pipe_pos - 1) (drop (pipe_pos + 1) s)
      else drop (pipe_pos + 1) s)"

definition strip_quotes :: "string \<Rightarrow> string" where
  "strip_quotes u =
     (if 2 \<le> length u \<and> hd u = CHR 0x22 \<and> last u = CHR 0x22 then butlast (tl u) else u)"

definition parse_bit_info :: "string \<Rightarrow> (byte \<times> byte \<times> bool \<times> bool) option" where
  "parse_bit_info bit_info =
     (case (str_find (CHR ''|'') bit_info, str_find (CHR ''@'') bit_info) of
        (Some pipe_pos, Some at_pos) \<Rightarrow> do {
          start \<leftarrow> stoi (take pipe_pos bit_info);
          len \<leftarrow> stoi (between pipe_pos at_pos bit_info);
          let order_sign = drop (at_pos + 1) bit_info;
          Some (of_int start, of_int len,
                order_sign \<noteq> [] \<and> hd order_sign = CHR ''1'',
                length order_sign > 1 \<and> order_sign ! 1 = CHR ''-'') }
      | _ \<Rightarrow> None)"

text \<open>Two numbers in brackets with a separator: the scale and the range fields.\<close>

definition parse_pair :: "char \<Rightarrow> char \<Rightarrow> char \<Rightarrow> string \<Rightarrow> (fp \<times> fp) option" where
  "parse_pair lb rb sep info =
     (let s = pop_back_if rb (pop_front_if lb info) in
      case str_find sep s of
        None \<Rightarrow> None
      | Some k \<Rightarrow> do { a \<leftarrow> stod (take k s); b \<leftarrow> stod (drop (k + 1) s); Some (a, b) })"

definition parse_signal_line :: "string \<Rightarrow> signal_def option" where
  "parse_signal_line line =
     (let (tag, ss) = get_word (Some line);
          (name, ss) = get_word ss;
          (colon, ss) = get_word ss;
          (bit_info, ss) = get_word ss;
          (scale_info, ss) = get_word ss;
          (range_info, ss) = get_word ss;
          (unit, ss) = get_word ss
      in if ss = None \<or> tag \<noteq> ''SG_'' then None
         else do {
           (start, len, little, sgn) \<leftarrow> parse_bit_info bit_info;
           (sc, off) \<leftarrow> parse_pair (CHR ''('') (CHR '')'') (CHR '','') scale_info;
           (mn, mx) \<leftarrow> parse_pair (CHR ''['') (CHR '']'') (CHR ''|'') range_info;
           Some \<lparr>sig_name = name, start_bit = start, sig_length = len, is_signed = sgn,
                 is_little_endian = little, scale = sc, offset = off, min_val = mn, max_val = mx,
                 unit = strip_quotes unit\<rparr> })"

record parse_state =
  messages :: dbc
  current_id :: u32
  in_message :: bool

text \<open>The body of the loop over the lines.\<close>

definition parse_line :: "parse_state \<Rightarrow> string \<Rightarrow> parse_state" where
  "parse_line st raw =
     (let line = pop_back_if (CHR 0x0D) raw in
      if find_first_not_of ('' '' @ [CHR 0x09, CHR 0x0D, CHR 0x0A]) line = None
      then st\<lparr>in_message := False\<rparr>
      else (case find_first_not_of ('' '' @ [CHR 0x09]) line of
          None \<Rightarrow> st
        | Some start \<Rightarrow>
            (let trimmed = drop start line in
             if 4 \<le> length trimmed \<and> take 4 trimmed = ''BO_ ''
             then (case parse_message_line trimmed of
                 None \<Rightarrow> st
               | Some msg \<Rightarrow>
                   st\<lparr>current_id := msg_can_id msg,
                      messages := (messages st)(msg_can_id msg \<mapsto> msg),
                      in_message := True\<rparr>)
             else if 4 \<le> length trimmed \<and> take 4 trimmed = ''SG_ '' \<and> in_message st
             then (case parse_signal_line trimmed of
                 None \<Rightarrow> st
               | Some sig \<Rightarrow>
                   (let m = (case messages st (current_id st) of None \<Rightarrow> MessageDef | Some m \<Rightarrow> m) in
                    st\<lparr>messages := (messages st)(current_id st \<mapsto> m\<lparr>signals := signals m @ [sig]\<rparr>)\<rparr>))
             else st)))"

definition dbc_parse :: "dbc \<Rightarrow> string option \<Rightarrow> bool \<times> dbc" where
  "dbc_parse ms file =
     (case file of
        None \<Rightarrow> (False, ms)
      | Some content \<Rightarrow>
          (True, messages (foldl parse_line
             \<lparr>messages = ms, current_id = 0, in_message = False\<rparr> (getlines content))))"

definition find_message :: "dbc \<Rightarrow> u32 \<Rightarrow> message_def option" where
  "find_message ms can_id = ms can_id"

definition message_count :: "dbc \<Rightarrow> nat" where
  "message_count ms = card (dom ms)"

section \<open>What a line means\<close>

datatype line_kind = Blank | Msg message_def | BadMsg | Sig signal_def | BadSig | Other

definition classify :: "string \<Rightarrow> line_kind" where
  "classify raw =
     (let line = pop_back_if (CHR 0x0D) raw;
          trimmed = dropWhile (\<lambda>c. c = CHR '' '' \<or> c = CHR 0x09) line in
      if \<forall>c\<in>set line. c \<in> {CHR '' '', CHR 0x09, CHR 0x0D, CHR 0x0A} then Blank
      else if take 4 trimmed = ''BO_ ''
      then (case parse_message_line trimmed of None \<Rightarrow> BadMsg | Some m \<Rightarrow> Msg m)
      else if take 4 trimmed = ''SG_ ''
      then (case parse_signal_line trimmed of None \<Rightarrow> BadSig | Some s \<Rightarrow> Sig s)
      else Other)"

definition push_signal :: "signal_def \<Rightarrow> message_def \<Rightarrow> message_def" where
  "push_signal s m = m\<lparr>signals := signals m @ [s]\<rparr>"

definition kind_step :: "parse_state \<Rightarrow> line_kind \<Rightarrow> parse_state" where
  "kind_step st k =
     (case k of
        Blank \<Rightarrow> st\<lparr>in_message := False\<rparr>
      | Msg m \<Rightarrow> st\<lparr>current_id := msg_can_id m, messages := (messages st)(msg_can_id m \<mapsto> m), in_message := True\<rparr>
      | Sig s \<Rightarrow>
          (if in_message st
           then st\<lparr>messages := (messages st)(current_id st \<mapsto>
                     push_signal s (case messages st (current_id st) of None \<Rightarrow> MessageDef | Some m \<Rightarrow> m))\<rparr>
           else st)
      | _ \<Rightarrow> st)"

lemma take4_length: "take 4 s = [a, b, c, d] \<Longrightarrow> 4 \<le> length s"
proof -
  assume h: "take 4 s = [a, b, c, d]"
  have "length (take 4 s) = 4" unfolding h by simp
  then show ?thesis by (simp add: min_def split: if_splits)
qed

lemma parse_line_classify: "parse_line st raw = kind_step st (classify raw)"
proof -
  define line where "line = pop_back_if (CHR 0x0D) raw"
  show ?thesis
  proof (cases "\<forall>c\<in>set line. c \<in> {CHR '' '', CHR 0x09, CHR 0x0D, CHR 0x0A}")
    case True
    then have "find_first_not_of ('' '' @ [CHR 0x09, CHR 0x0D, CHR 0x0A]) line = None"
      by (simp add: find_first_not_of_None)
    then show ?thesis using True by (simp add: parse_line_def classify_def kind_step_def line_def Let_def)
  next
    case False
    then have "find_first_not_of ('' '' @ [CHR 0x09, CHR 0x0D, CHR 0x0A]) line \<noteq> None"
      by (auto simp: find_first_not_of_None)
    then obtain j where ne: "find_first_not_of ('' '' @ [CHR 0x09, CHR 0x0D, CHR 0x0A]) line = Some j" by auto
    from False have "find_first_not_of ('' '' @ [CHR 0x09]) line \<noteq> None"
      by (auto simp: find_first_not_of_None)
    then obtain k where k: "find_first_not_of ('' '' @ [CHR 0x09]) line = Some k" by auto
    define tr where "tr = dropWhile (\<lambda>c. c = CHR '' '' \<or> c = CHR 0x09) line"
    have tr: "drop k line = tr"
      using find_first_not_of_drop [OF k] by (simp add: tr_def)
    have "parse_line st raw = (if 4 \<le> length tr \<and> take 4 tr = ''BO_ ''
             then (case parse_message_line tr of None \<Rightarrow> st
               | Some msg \<Rightarrow> st\<lparr>current_id := msg_can_id msg,
                      messages := (messages st)(msg_can_id msg \<mapsto> msg), in_message := True\<rparr>)
             else if 4 \<le> length tr \<and> take 4 tr = ''SG_ '' \<and> in_message st
             then (case parse_signal_line tr of None \<Rightarrow> st
               | Some sig \<Rightarrow>
                   (let m = (case messages st (current_id st) of None \<Rightarrow> MessageDef | Some m \<Rightarrow> m) in
                    st\<lparr>messages := (messages st)(current_id st \<mapsto> m\<lparr>signals := signals m @ [sig]\<rparr>)\<rparr>))
             else st)"
      unfolding parse_line_def Let_def line_def [symmetric] ne k option.case tr by (simp only: option.distinct if_False)
    also have "\<dots> = kind_step st (classify raw)"
      unfolding classify_def Let_def line_def [symmetric] tr_def [symmetric] if_not_P [OF False]
      using take4_length [of tr]
      by (auto simp: kind_step_def push_signal_def Let_def split: option.split)
    finally show ?thesis .
  qed
qed

lemma fold_parse_kinds: "foldl parse_line st ls = foldl kind_step st (map classify ls)"
  by (induction ls arbitrary: st) (simp_all add: parse_line_classify)

section \<open>Invariant\<close>

definition dbc_ok :: "dbc \<Rightarrow> bool" where
  "dbc_ok ms \<longleftrightarrow> (\<forall>id m. ms id = Some m \<longrightarrow> msg_can_id m = id)"

definition state_ok :: "parse_state \<Rightarrow> bool" where
  "state_ok st \<longleftrightarrow> dbc_ok (messages st) \<and> (in_message st \<longrightarrow> current_id st \<in> dom (messages st))"

lemma kind_step_ok: "state_ok st \<Longrightarrow> state_ok (kind_step st k)"
  by (cases k) (auto simp: state_ok_def kind_step_def dbc_ok_def push_signal_def)

lemma fold_kinds_ok: "state_ok st \<Longrightarrow> state_ok (foldl kind_step st ks)"
  by (induction ks arbitrary: st) (simp_all add: kind_step_ok)

text \<open>A message line followed by signal lines stores the message with those signals in order.\<close>

lemma fold_signals:
  "in_message st \<Longrightarrow> messages st (current_id st) = Some m \<Longrightarrow>
   foldl kind_step st (map Sig sigs)
     = st\<lparr>messages := (messages st)(current_id st \<mapsto> m\<lparr>signals := signals m @ sigs\<rparr>)\<rparr>"
proof (induction sigs arbitrary: st m)
  case Nil
  then show ?case by (simp add: fun_upd_idem)
next
  case (Cons s sigs)
  let ?m = "push_signal s m"
  let ?st = "st\<lparr>messages := (messages st)(current_id st \<mapsto> ?m)\<rparr>"
  have "kind_step st (Sig s) = ?st" using Cons.prems by (simp add: kind_step_def)
  then show ?case using Cons.IH [of ?st ?m] Cons.prems
    by (simp add: push_signal_def fun_upd_same del: fun_upd_apply)
qed

lemma classify_cr: "\<not> (l \<noteq> [] \<and> last l = CHR 0x0D) \<Longrightarrow> classify (l @ [CHR 0x0D]) = classify l"
  by (auto simp: classify_def pop_back_if_def)

lemma dbc_lines_parsed:
  assumes "\<forall>l\<in>set (header # sigs). CHR 0x0A \<notin> set l" and "classify header = Msg m"
    and "map classify sigs = map Sig ss"
  shows "dbc_parse ms (Some (lf_file (header # sigs)))
           = (True, ms(msg_can_id m \<mapsto> m\<lparr>signals := signals m @ ss\<rparr>))"
proof -
  let ?st = "\<lparr>messages = ms(msg_can_id m \<mapsto> m), current_id = msg_can_id m, in_message = True\<rparr>"
  have "foldl kind_step ?st (map Sig ss)
      = ?st\<lparr>messages := ms(msg_can_id m \<mapsto> m\<lparr>signals := signals m @ ss\<rparr>)\<rparr>"
    by (subst fold_signals [where m = m]) simp_all
  then show ?thesis
    using assms by (simp add: dbc_parse_def getlines_lf_file fold_parse_kinds parse_line_classify kind_step_def)
qed

section \<open>Properties\<close>

text \<open>
  The parsed database is keyed by the identifiers of its messages: whatever the file
  holds, parsing keeps every message stored under its own CAN identifier, so
  \<open>find_message\<close> returns a definition of exactly the identifier asked for; a file that
  cannot be opened is reported and changes nothing.
\<close>

theorem dbc_parse_invariant:
  assumes "dbc_ok ms"
  shows "dbc_ok (snd (dbc_parse ms file))
     \<and> (find_message (snd (dbc_parse ms file)) can_id = Some m \<longrightarrow> msg_can_id m = can_id)
     \<and> (file = None \<longrightarrow> dbc_parse ms file = (False, ms))"
proof -
  have "dbc_ok (snd (dbc_parse ms file))"
  proof (cases "file")
    case None
    with assms show ?thesis by (simp add: dbc_parse_def)
  next
    case (Some content)
    have "state_ok \<lparr>messages = ms, current_id = 0, in_message = False\<rparr>"
      using assms by (simp add: state_ok_def)
    from fold_kinds_ok [OF this] Some show ?thesis
      by (simp add: dbc_parse_def fold_parse_kinds state_ok_def)
  qed
  then show ?thesis by (auto simp: dbc_ok_def find_message_def dbc_parse_def)
qed

theorem dbc_parse_invariant_witness:
  "dbc_ok (snd (dbc_parse Map.empty (Some ''BO_ 291 EngineData: 8 ECU'')))"
  using dbc_parse_invariant [of Map.empty "Some ''BO_ 291 EngineData: 8 ECU''"] by (simp add: dbc_ok_def)


lemmas dbc_eval = classify_def parse_message_line_def parse_signal_line_def parse_bit_info_def
  parse_pair_def between_def strip_quotes_def

text \<open>The brake message of \<^verbatim>\<open>config/vehicle.dbc\<close>, for the examples.\<close>

definition brake_header :: string where
  "brake_header = ''BO_ 293 BrakeData: 8 Vector__XXX''"

definition brake_line :: string where
  "brake_line = '' SG_ BrakeActive : 8|1@1+ (1,0) [0|1] '' @ [CHR 0x22, CHR 0x22] @ '' Vector__XXX''"

definition brake_msg :: message_def where
  "brake_msg = \<lparr>msg_can_id = 293, msg_name = ''BrakeData'', msg_length = 8, signals = []\<rparr>"

definition brake_active :: signal_def where
  "brake_active = \<lparr>sig_name = ''BrakeActive'', start_bit = 8, sig_length = 1, is_signed = False,
     is_little_endian = True, scale = fp_of_int binary64 1, offset = fp_of_int binary64 0,
     min_val = fp_of_int binary64 0, max_val = fp_of_int binary64 1, unit = []\<rparr>"

lemma brake_lines: "classify brake_header = Msg brake_msg" "classify brake_line = Sig brake_active"
  by (simp_all add: brake_header_def brake_line_def brake_msg_def brake_active_def dbc_eval text_eval fp_eval)


text \<open>
  Line endings do not matter: a file with Windows line endings parses to the same
  database as the file with Unix line endings (for lines that do not themselves end in a
  carriage return).
\<close>

theorem dbc_crlf:
  assumes "\<forall>l\<in>set ls. CHR 0x0A \<notin> set l \<and> \<not> (l \<noteq> [] \<and> last l = CHR 0x0D)"
  shows "dbc_parse ms (Some (crlf_file ls)) = dbc_parse ms (Some (lf_file ls))"
proof -
  have "map classify (map (\<lambda>l. l @ [CHR 0x0D]) ls) = map classify ls"
    using assms by (simp add: classify_cr)
  then show ?thesis
    using assms
    by (simp add: dbc_parse_def getlines_lf_file getlines_crlf_file fold_parse_kinds del: map_map map_eq_conv)
qed

theorem dbc_crlf_witness:
  "dbc_parse Map.empty (Some (crlf_file [brake_header, brake_line]))
     = dbc_parse Map.empty (Some (lf_file [brake_header, brake_line]))"
  by (rule dbc_crlf) (simp add: brake_header_def brake_line_def)

text \<open>
  A message line that does not parse leaves the previous message open: signal lines
  after it, which the file gives to the unreadable message, are appended to the message
  before it.
\<close>

theorem dbc_malformed_header:
  assumes "\<forall>l\<in>set (header # bad # sigs). CHR 0x0A \<notin> set l" and "classify header = Msg m"
    and "classify bad = BadMsg" and "map classify sigs = map Sig ss"
  shows "find_message (snd (dbc_parse ms (Some (lf_file (header # bad # sigs))))) (msg_can_id m)
           = Some (m\<lparr>signals := signals m @ ss\<rparr>)"
proof -
  let ?st = "\<lparr>messages = ms(msg_can_id m \<mapsto> m), current_id = msg_can_id m, in_message = True\<rparr>"
  have "foldl kind_step ?st (map Sig ss)
      = ?st\<lparr>messages := ms(msg_can_id m \<mapsto> m\<lparr>signals := signals m @ ss\<rparr>)\<rparr>"
    by (subst fold_signals [where m = m]) simp_all
  then show ?thesis
    using assms by (simp add: dbc_parse_def getlines_lf_file fold_parse_kinds parse_line_classify
        kind_step_def find_message_def)
qed

lemma bad_header: "classify ''BO_ x294 DoorData: 8 Vector__XXX'' = BadMsg"
  by (simp add: dbc_eval text_eval)

theorem dbc_malformed_header_witness:
  "find_message (snd (dbc_parse Map.empty
      (Some (lf_file [brake_header, ''BO_ x294 DoorData: 8 Vector__XXX'', brake_line])))) 293
     = Some (brake_msg\<lparr>signals := [brake_active]\<rparr>)"
  using dbc_malformed_header [of brake_header "''BO_ x294 DoorData: 8 Vector__XXX''" "[brake_line]"
      brake_msg "[brake_active]" Map.empty]
  by (simp add: brake_lines bad_header) (simp add: brake_header_def brake_line_def brake_msg_def)

text \<open>
  Message lines round-trip: a line printed with an identifier, a name without white
  space and a length of one byte is read back as that message.
\<close>

theorem dbc_message_roundtrip:
  assumes "name \<noteq> []" and "\<forall>c\<in>set name. \<not> isspace c"
    and "sender \<noteq> []" and "\<forall>c\<in>set sender. \<not> isspace c"
  shows "parse_message_line (''BO_ '' @ show_base 10 (unat can_id) @ '' '' @ name @ '': ''
             @ show_base 10 (unat len) @ '' '' @ sender)
           = Some \<lparr>msg_can_id = can_id, msg_name = name, msg_length = len, signals = []\<rparr>"
proof -
  have colon: "\<not> isspace (CHR '':'')" by (simp add: isspace_def)
  have nd: "\<not> is_digit 10 (CHR '' '')" by (simp add: is_digit_def digit_val_def)
  let ?r3 = "'' '' @ sender"
  let ?r2 = "'' '' @ show_base 10 (unat len) @ ?r3"
  let ?r1 = "'' '' @ (name @ '':'') @ ?r2"
  have w1: "get_word (Some (''BO_'' @ '' '' @ show_base 10 (unat can_id) @ ?r1))
      = (''BO_'', Some ('' '' @ show_base 10 (unat can_id) @ ?r1))"
    by (rule get_word_word(1)) (simp_all add: isspace_def)
  have w2: "get_uint32 (Some ('' '' @ show_base 10 (unat can_id) @ ?r1)) = (can_id, Some ?r1)"
    using get_uint32_shown [of "unat can_id" ?r1] unat_u32 [of can_id] nd by simp
  have w3: "get_word (Some ?r1) = (name @ '':'', Some ?r2)"
    using get_word_word(2) [of "name @ '':''" ?r2] assms(2) colon by simp
  have "unat len < 2 ^ 31" using unsigned_less [where 'b = 8 and 'a = nat, of len] by simp
  then have w4: "get_int32 (Some ?r2) = (int (unat len), Some ?r3)"
    using get_int32_shown [of "unat len" ?r3] nd by simp
  have w5: "get_word (Some ?r3) = (sender, Some [])"
    using get_word_word(2) [of sender "[]"] assms(3,4) by simp
  have line: "''BO_ '' @ show_base 10 (unat can_id) @ '' '' @ name @ '': '' @ show_base 10 (unat len) @ '' '' @ sender
      = ''BO_'' @ '' '' @ show_base 10 (unat can_id) @ ?r1" by simp
  show ?thesis
    unfolding parse_message_line_def line w1 Let_def prod.case w2 w3 w4 w5 by (simp add: pop_back_if_def)
qed

theorem dbc_message_roundtrip_witness:
  "parse_message_line (''BO_ '' @ show_base 10 (unat (291 :: u32)) @ '' '' @ ''EngineData'' @ '': ''
       @ show_base 10 (unat (8 :: byte)) @ '' '' @ ''ECU'')
     = Some \<lparr>msg_can_id = 291, msg_name = ''EngineData'', msg_length = 8, signals = []\<rparr>"
  by (rule dbc_message_roundtrip) (simp_all add: isspace_def)

end
