(* ===== verification/Signal_Decoder.thy ===== *)
theory Signal_Decoder
  imports Dbc_Parser
begin

text \<open>
  The signal decoder (\<^verbatim>\<open>src/can/signal_decoder.hpp\<close>, \<^verbatim>\<open>signal_decoder.cpp\<close>, the decoded
  signal of \<^verbatim>\<open>include/gateway/types.hpp\<close>). \<open>None\<close> is undefined behaviour: a read outside
  the eight data bytes or a shift by a negative amount or by the width and more. The
  floating-point expression is evaluated operation by operation in double precision, as on
  the targets without fused multiply-add.
\<close>

section \<open>Data\<close>

text \<open>The fields of the kernel's \<open>struct can_frame\<close> that the gateway uses.\<close>

record can_frame =
  can_id :: u32
  can_dlc :: byte
  data :: "byte list"

definition frame_ok :: "can_frame \<Rightarrow> bool" where
  "frame_ok f \<longleftrightarrow> length (data f) = 8"

record decoded_signal =
  dec_name :: string
  dec_value :: fp
  dec_unit :: string

section \<open>Operations\<close>

text \<open>
  The loop counter \<open>i\<close> is an eight-bit integer below \<open>length\<close>, so it does not wrap; the
  bit position is computed modulo 256.
\<close>

function extract_loop :: "byte list \<Rightarrow> byte \<Rightarrow> nat \<Rightarrow> nat \<Rightarrow> u64 \<Rightarrow> u64 option" where
  "extract_loop dat start len i result =
     (if i < len then
        (let bit_pos = start + of_nat i;
             byte_idx = unat bit_pos div 8;
             bit_idx = unat bit_pos mod 8 in
         if 8 \<le> byte_idx then Some result
         else (case rd dat byte_idx of
             None \<Rightarrow> None
           | Some b \<Rightarrow>
               if b AND push_bit bit_idx 1 \<noteq> 0
               then (if i < 64 then extract_loop dat start len (Suc i) (result OR push_bit i 1) else None)
               else extract_loop dat start len (Suc i) result))
      else Some result)"
  by pat_completeness auto
termination
  by (relation "measure (\<lambda>(dat, start, len, i, result). len - i)") auto

declare extract_loop.simps [simp del]

definition extract_bits :: "byte list \<Rightarrow> byte \<Rightarrow> byte \<Rightarrow> u64 option" where
  "extract_bits dat start len = extract_loop dat start (unat len) 0 0"

text \<open>Step 2 of \<open>decode\<close>: the raw bits as a signed 64-bit integer.\<close>

definition sign_extend :: "signal_def \<Rightarrow> u64 \<Rightarrow> int option" where
  "sign_extend sig raw =
     (let len = unat (sig_length sig) in
      if is_signed sig \<and> len < 64 then
        (if len = 0 then None
         else let sign_bit = push_bit (len - 1) (1 :: u64) in
           if raw AND sign_bit \<noteq> 0 then Some (sint (raw OR push_bit len (NOT 0)))
           else Some (sint raw))
      else Some (sint raw))"

definition physical_value :: "signal_def \<Rightarrow> int \<Rightarrow> fp" where
  "physical_value sig raw =
     (let physical = fp_add binary64 (fp_mul binary64 (fp_of_int binary64 raw) (scale sig)) (offset sig)
      in std_max fp_lt (min_val sig) (std_min fp_lt (max_val sig) physical))"

definition decode_signal :: "can_frame \<Rightarrow> signal_def \<Rightarrow> decoded_signal option" where
  "decode_signal frame sig = do {
     raw \<leftarrow> extract_bits (data frame) (start_bit sig) (sig_length sig);
     raw_signed \<leftarrow> sign_extend sig raw;
     Some \<lparr>dec_name = sig_name sig, dec_value = physical_value sig raw_signed, dec_unit = unit sig\<rparr> }"

fun decode_all :: "can_frame \<Rightarrow> signal_def list \<Rightarrow> decoded_signal list option" where
  "decode_all frame [] = Some []"
| "decode_all frame (sig # sigs) = do {
     r \<leftarrow> decode_signal frame sig;
     rs \<leftarrow> decode_all frame sigs;
     Some (r # rs) }"

definition decode :: "can_frame \<Rightarrow> message_def \<Rightarrow> decoded_signal list option" where
  "decode frame msg = decode_all frame (signals msg)"

section \<open>Reference: the frame as one little-endian word\<close>

definition frame_word :: "byte list \<Rightarrow> u64" where
  "frame_word dat = foldr (\<lambda>b w. push_bit 8 w OR ucast b) dat 0"

definition field :: "byte list \<Rightarrow> byte \<Rightarrow> byte \<Rightarrow> u64" where
  "field dat start len = take_bit (unat len) (drop_bit (unat start) (frame_word dat))"

lemma bit_frame_word:
  "bit (frame_word dat) n \<longleftrightarrow> n < 64 \<and> n div 8 < length dat \<and> bit (dat ! (n div 8)) (n mod 8)"
proof (induction dat arbitrary: n)
  case Nil
  then show ?case by (simp add: frame_word_def)
next
  case (Cons b dat)
  have step: "frame_word (b # dat) = push_bit 8 (frame_word dat) OR ucast b" by (simp add: frame_word_def)
  show ?case
  proof (cases "n < 8")
    case True
    then show ?thesis by (auto simp: step bit_simps bit_high)
  next
    case False
    then obtain k where k: "n = 8 + k" by (metis le_Suc_ex not_less)
    then have "n div 8 = Suc (k div 8)" "n mod 8 = k mod 8" by simp_all
    with Cons [of k] k show ?thesis by (auto simp: step bit_simps bit_high)
  qed
qed

lemma and_push_bit_1: "b AND push_bit k 1 \<noteq> 0 \<longleftrightarrow> bit b k" for b :: "'a::len word"
proof
  assume "bit b k"
  moreover from this have "k < LENGTH('a)" by (rule bit_imp_le_length)
  ultimately have "bit (b AND push_bit k 1) k" by (simp add: bit_simps)
  then show "b AND push_bit k 1 \<noteq> 0" by (metis bit_0_eq bot_apply bot_bool_def)
next
  assume "b AND push_bit k 1 \<noteq> 0"
  then obtain n where "bit (b AND push_bit k 1) n" by (metis bit_eqI bit_0_eq bot_apply bot_bool_def)
  then show "bit b k" by (auto simp: bit_simps)
qed

text \<open>
  The loop collects, from position \<open>i\<close> on, the bits of the frame word. It leaves at the
  first position past the frame, before the eight-bit position can wrap.
\<close>

lemma bit_pos_nowrap:
  assumes "i = 0 \<or> unat start + i \<le> 64"
  shows "unat (start + of_nat i :: byte) = unat start + i"
  using assms unsigned_less [where 'b = 8 and 'a = nat, of start]
  by (auto simp: unat_word_ariths take_bit_eq_mod unat_of_nat)

definition with_bit :: "byte list \<Rightarrow> byte \<Rightarrow> nat \<Rightarrow> u64 \<Rightarrow> u64" where
  "with_bit dat start i result =
     (if bit (frame_word dat) (unat start + i) then result OR push_bit i 1 else result)"

lemma extract_loop_inside:
  assumes "i < len" and "unat start + i < 64" and "length dat = 8"
  shows "extract_loop dat start len i result = extract_loop dat start len (Suc i) (with_bit dat start i result)"
proof -
  let ?k = "(unat start + i) div 8"
  have idx: "?k < 8" using assms(2) by simp
  then have b: "bit (frame_word dat) (unat start + i) \<longleftrightarrow> bit (dat ! ?k) ((unat start + i) mod 8)"
    using assms(2,3) by (simp add: bit_frame_word)
  have r: "rd dat ?k = Some (dat ! ?k)" using idx assms(3) by (simp add: rd_def)
  have pos: "unat (start + of_nat i) = unat start + i" using assms(2) by (simp add: bit_pos_nowrap)
  show ?thesis
    unfolding extract_loop.simps [of dat start len i result] Let_def pos b r option.case and_push_bit_1 with_bit_def
    using idx assms(1,2) by simp
qed

lemma extract_loop_outside:
  assumes "64 \<le> unat start + i" and "unat (start + of_nat i) = unat start + i"
  shows "extract_loop dat start len i result = Some result"
proof -
  have "8 \<le> (unat start + i) div 8" using assms(1) by simp
  then show ?thesis using assms(2) by (subst extract_loop.simps) (simp add: Let_def)
qed

lemma bit_with_bit:
  assumes "unat start + i < 64" and "\<And>n. bit result n \<longleftrightarrow> n < i \<and> bit (frame_word dat) (unat start + n)"
  shows "bit (with_bit dat start i result) n \<longleftrightarrow> n < Suc i \<and> bit (frame_word dat) (unat start + n)"
  using assms(1) by (simp add: with_bit_def assms(2) bit_simps less_Suc_eq) auto

lemma extract_loop_bits:
  assumes "length dat = 8" and "i \<le> len" and "i = 0 \<or> unat start + i \<le> 64"
    and "\<And>n. bit result n \<longleftrightarrow> n < i \<and> bit (frame_word dat) (unat start + n)"
  shows "\<exists>r. extract_loop dat start len i result = Some r
     \<and> (\<forall>n. bit r n \<longleftrightarrow> n < len \<and> bit (frame_word dat) (unat start + n))"
  using assms
proof (induction "len - i" arbitrary: i result)
  case 0
  then have "extract_loop dat start len i result = Some result" by (subst extract_loop.simps) simp
  with 0 show ?case by simp
next
  case (Suc m)
  then have less: "i < len" by simp
  show ?case
  proof (cases "unat start + i < 64")
    case False
    have "bit result n \<longleftrightarrow> n < len \<and> bit (frame_word dat) (unat start + n)" for n
      using False less by (cases "n < i") (simp_all add: Suc.prems(4) bit_frame_word)
    with extract_loop_outside [OF _ bit_pos_nowrap [OF Suc.prems(3)]] False show ?thesis
      by (simp add: not_less)
  next
    case True
    from Suc.hyps(1) [OF _ Suc.prems(1) _ _ bit_with_bit [OF True Suc.prems(4)]] Suc.hyps(2) less True
    show ?thesis unfolding extract_loop_inside [OF less True Suc.prems(1)] by simp
  qed
qed

lemma extract_bits_field:
  assumes "length dat = 8"
  shows "extract_bits dat start len = Some (field dat start len)"
proof -
  obtain r where r: "extract_bits dat start len = Some r"
    and bits: "\<forall>n. bit r n \<longleftrightarrow> n < unat len \<and> bit (frame_word dat) (unat start + n)"
    using extract_loop_bits [OF assms, of 0 "unat len" start 0] by (auto simp: extract_bits_def)
  have "r = field dat start len"
    by (rule bit_eqI) (auto simp: field_def bits bit_simps)
  with r show ?thesis by simp
qed

section \<open>Reference: the raw value\<close>

text \<open>The field of the frame, read as an unsigned or as a two's complement number.\<close>

definition raw_value :: "signal_def \<Rightarrow> byte list \<Rightarrow> int" where
  "raw_value sig dat =
     (let w = uint (field dat (start_bit sig) (sig_length sig))
      in if is_signed sig then signed_take_bit (unat (sig_length sig) - 1) w else w)"

lemma bit_field_less: "bit (field dat start len) n \<Longrightarrow> n < unat len"
  by (simp add: field_def bit_simps)

lemma bit_u64_less: "bit (w :: u64) n \<Longrightarrow> n < 64"
  using bit_imp_le_length [of w n] by simp

lemma bit_sint64: "bit (sint (w :: u64)) n \<longleftrightarrow> bit w (min n 63)"
  by (auto simp: bit_sint_iff min_def dest: bit_u64_less)

lemma sint_uint_small: "\<not> bit (w :: u64) 63 \<Longrightarrow> sint w = uint w"
  by (intro bit_eqI) (auto simp: bit_sint64 bit_simps min_def dest: bit_u64_less)

lemma sint_uint_high: "bit (w :: u64) 63 \<Longrightarrow> sint w = uint w - 2 ^ 64"
  using unsigned_less [where 'b = 64 and 'a = int, of w]
  by (simp add: sint_uint signed_take_bit_eq_take_bit_minus take_bit_eq_mod bit_simps)

lemma sign_extend_signed:
  assumes "is_signed sig" and "0 < unat (sig_length sig)" and "unat (sig_length sig) \<le> 64"
    and "\<And>n. bit raw n \<Longrightarrow> n < unat (sig_length sig)"
  shows "sign_extend sig raw = Some (signed_take_bit (unat (sig_length sig) - 1) (uint raw))"
proof (cases "unat (sig_length sig) = 64")
  case True
  then show ?thesis
    by (simp add: sign_extend_def) (rule bit_eqI, simp add: bit_sint64 bit_simps min.commute)
next
  case False
  let ?l = "unat (sig_length sig)"
  from False assms(3) have l: "?l < 64" by simp
  have "sint (raw OR push_bit ?l (NOT 0)) = signed_take_bit (?l - 1) (uint raw)" if "bit raw (?l - 1)"
  proof (rule bit_eqI)
    fix n
    show "bit (sint (raw OR push_bit ?l (NOT 0))) n = bit (signed_take_bit (?l - 1) (uint raw)) n"
      using l that assms(2,4) by (cases "n = ?l - 1") (auto simp: bit_sint64 bit_simps min_def)
  qed
  moreover have "sint raw = signed_take_bit (?l - 1) (uint raw)" if "\<not> bit raw (?l - 1)"
  proof (rule bit_eqI)
    fix n
    have "\<not> bit raw k" if "?l - 1 \<le> k" for k
      using that \<open>\<not> bit raw (?l - 1)\<close> assms(4) [of k] by (cases "k = ?l - 1") auto
    then show "bit (sint raw) n = bit (signed_take_bit (?l - 1) (uint raw)) n"
      using l by (auto simp: bit_sint64 bit_simps min_def)
  qed
  ultimately show ?thesis
    using assms(1,2) l by (simp add: sign_extend_def Let_def and_push_bit_1 [unfolded push_bit_of_1])
qed

text \<open>A signal whose value the decoder's signed 64-bit intermediate can hold.\<close>

definition sig_fits :: "signal_def \<Rightarrow> bool" where
  "sig_fits sig \<longleftrightarrow>
     0 < sig_length sig \<and> sig_length sig \<le> 64 \<and> (is_signed sig \<or> sig_length sig < 64)"

lemma sig_fits_nat:
  "sig_fits sig \<longleftrightarrow> 0 < unat (sig_length sig) \<and> unat (sig_length sig) \<le> 64
     \<and> (is_signed sig \<or> unat (sig_length sig) < 64)"
  by (simp add: sig_fits_def word_less_nat_alt word_le_nat_alt unat_gt_0)

lemma decode_signal_correct:
  assumes "frame_ok f" and "sig_fits sig"
  shows "decode_signal f sig = Some \<lparr>dec_name = sig_name sig,
           dec_value = physical_value sig (raw_value sig (data f)), dec_unit = unit sig\<rparr>"
proof -
  let ?w = "field (data f) (start_bit sig) (sig_length sig)"
  have "sign_extend sig ?w = Some (raw_value sig (data f))"
  proof (cases "is_signed sig")
    case True
    then show ?thesis
      using sign_extend_signed [OF True _ _ bit_field_less] assms(2) by (simp add: sig_fits_nat raw_value_def)
  next
    case False
    then have "\<not> bit ?w 63" using assms(2) bit_field_less [of "data f"] by (fastforce simp: sig_fits_nat)
    with False show ?thesis by (simp add: sign_extend_def raw_value_def sint_uint_small)
  qed
  with assms(1) show ?thesis by (simp add: decode_signal_def extract_bits_field frame_ok_def)
qed

lemma decode_signal_defined:
  assumes "frame_ok f"
  shows "decode_signal f sig = None \<longleftrightarrow> is_signed sig \<and> sig_length sig = 0"
  using assms
  by (simp add: decode_signal_def extract_bits_field frame_ok_def sign_extend_def Let_def bind_eq_None_conv unat_eq_0)

lemma decode_all_map:
  "(\<And>s. s \<in> set sigs \<Longrightarrow> decode_signal f s = Some (g s)) \<Longrightarrow> decode_all f sigs = Some (map g sigs)"
  by (induction sigs) simp_all

lemma decode_all_None: "decode_all f sigs = None \<longleftrightarrow> (\<exists>s\<in>set sigs. decode_signal f s = None)"
  by (induction sigs) (auto simp: bind_eq_None_conv)

lemma decode_all_nth:
  "decode_all f sigs = Some ds \<Longrightarrow> length ds = length sigs \<and> (\<forall>i<length sigs. decode_signal f (sigs ! i) = Some (ds ! i))"
proof (induction sigs arbitrary: ds)
  case (Cons s sigs)
  then obtain d ds' where "decode_signal f s = Some d" "decode_all f sigs = Some ds'" "ds = d # ds'"
    by (auto simp: bind_eq_Some_conv)
  with Cons.IH [of ds'] show ?case by (auto simp: nth_Cons split: nat.splits)
qed simp

lemma decode_signal_value: "decode_signal f s = Some d \<Longrightarrow> \<exists>raw. dec_value d = physical_value s raw"
  by (auto simp: decode_signal_def bind_eq_Some_conv)

section \<open>The clamped value\<close>

definition fp_finite :: "fp \<Rightarrow> bool" where
  "fp_finite x = (case x of Fin s m e \<Rightarrow> True | _ \<Rightarrow> False)"

lemma fp_finiteE: "fp_finite x \<Longrightarrow> (\<And>s m e. x = Fin s m e \<Longrightarrow> P) \<Longrightarrow> P"
  by (auto simp: fp_finite_def split: fp.splits)

lemma fp_lt_finite: "fp_finite x \<Longrightarrow> fp_finite y \<Longrightarrow> fp_lt x y \<longleftrightarrow> fval x < fval y"
  by (auto elim!: fp_finiteE simp: fp_lt_Fin simp del: fp_lt.simps)

lemma finite_as_finite: "finite_as F x v \<Longrightarrow> fp_finite x \<and> fval x = v"
  by (auto simp: finite_as_def fp_finite_def)

text \<open>Whatever is clamped, NaN and the infinities included, the result lies within finite bounds.\<close>

lemma clamp_finite:
  assumes "fp_finite lo" and "fp_finite hi" and "fval lo \<le> fval hi"
  shows "fp_finite (std_max fp_lt lo (std_min fp_lt hi x))"
    and "fval lo \<le> fval (std_max fp_lt lo (std_min fp_lt hi x))"
    and "fval (std_max fp_lt lo (std_min fp_lt hi x)) \<le> fval hi"
proof -
  have "fp_finite (std_max fp_lt lo (std_min fp_lt hi x))"
    using assms(1,2) by (cases x) (auto simp: std_max_def std_min_def fp_finite_def split: fp.splits)
  moreover have "\<not> fp_lt hi lo" using assms by (simp add: fp_lt_finite)
  ultimately show "fp_finite (std_max fp_lt lo (std_min fp_lt hi x))"
    "fval lo \<le> fval (std_max fp_lt lo (std_min fp_lt hi x))"
    "fval (std_max fp_lt lo (std_min fp_lt hi x)) \<le> fval hi"
    using double_less.clamp_bounds [of hi lo x] assms by (simp_all add: fp_lt_finite)
qed

lemma clamp_fval:
  assumes "fp_finite lo" and "fp_finite hi" and "fp_finite x"
  shows "fval (std_max fp_lt lo (std_min fp_lt hi x)) = max (fval lo) (min (fval hi) (fval x))"
  using assms by (simp add: std_max_def std_min_def fp_lt_finite max_def min_def)

lemma affine_exact:
  assumes "fp_finite a" and "fp_finite b" and "representable binary64 (of_int k)"
    and "representable binary64 (of_int k * fval a)" and "representable binary64 (of_int k * fval a + fval b)"
  shows "finite_as binary64 (fp_add binary64 (fp_mul binary64 (fp_of_int binary64 k) a) b) (of_int k * fval a + fval b)"
proof -
  have k: "fp_finite (fp_of_int binary64 k) \<and> fval (fp_of_int binary64 k) = of_int k"
    by (rule finite_as_finite [OF fp_of_int_exact [OF fmt_ok_formats(1) assms(3)]])
  from assms(1) k have p: "fp_finite (fp_mul binary64 (fp_of_int binary64 k) a)
      \<and> fval (fp_mul binary64 (fp_of_int binary64 k) a) = of_int k * fval a"
    using fp_mul_exact [of binary64] assms(4) by (metis finite_as_finite fmt_ok_formats(1) fp_finiteE)
  with assms(2) show ?thesis
    using fp_add_exact [of binary64] assms(5) by (metis fmt_ok_formats(1) fp_finiteE)
qed

section \<open>Properties\<close>

text \<open>
  Where the decoder leaves the DBC format: the byte order of a signal has no influence on what is
  read, so a Motorola signal is read as an Intel one, and an unsigned signal of 64 bits with its
  top bit set is read as a negative number.
\<close>

lemma decode_ignores_byte_order:
  "decode f (msg\<lparr>signals := map (\<lambda>s. s\<lparr>is_little_endian := order s\<rparr>) (signals msg)\<rparr>) = decode f msg"
proof -
  have "decode_signal f (s\<lparr>is_little_endian := b\<rparr>) = decode_signal f s" for s b
    by (simp add: decode_signal_def sign_extend_def physical_value_def Let_def)
  then have "decode_all f (map (\<lambda>s. s\<lparr>is_little_endian := order s\<rparr>) ss) = decode_all f ss" for ss
    by (induction ss) simp_all
  then show ?thesis by (simp add: decode_def)
qed

lemma decode_unsigned64:
  assumes "frame_ok f" and "\<not> is_signed sig" and "sig_length sig = 64" and "bit (field (data f) (start_bit sig) 64) 63"
  shows "decode_signal f sig = Some \<lparr>dec_name = sig_name sig, dec_value = physical_value sig (raw_value sig (data f) - 2 ^ 64), dec_unit = unit sig\<rparr>"
  using assms by (simp add: decode_signal_def extract_bits_field frame_ok_def sign_extend_def raw_value_def sint_uint_high Let_def)

text \<open>
  C5: The decoder reads the right bits of Intel (little-endian) signals. For every frame and
  every message all of whose signals are declared little-endian, 1 to 64 bits long and, when
  unsigned, below 64 bits, decoding is defined and yields, signal by signal and in the order of
  the database, the name, the unit and the physical value of the field of the frame read as one
  little-endian 64-bit word, shifted by the start bit, masked to the length and taken as two's
  complement when the signal is signed. Bits past the eighth byte count as zero.
\<close>

theorem decode_correct:
  assumes "frame_ok f" and "\<forall>s\<in>set (signals msg). is_little_endian s \<and> sig_fits s"
  shows "decode f msg = Some (map (\<lambda>s. \<lparr>dec_name = sig_name s,
           dec_value = physical_value s (raw_value s (data f)), dec_unit = unit s\<rparr>) (signals msg))"
  unfolding decode_def using assms by (intro decode_all_map decode_signal_correct) simp_all

text \<open>The engine temperature of \<^verbatim>\<open>config/vehicle.dbc\<close>, and a signed twelve-bit signal.\<close>

definition engine_temp :: signal_def where
  "engine_temp = \<lparr>sig_name = ''EngineTemp'', start_bit = 16, sig_length = 8, is_signed = False,
     is_little_endian = True, scale = Fin False 6755399441055744 (-53), offset = Fin True 5629499534213120 (-47),
     min_val = Fin True 5629499534213120 (-47), max_val = Fin False 5233675348213760 (-45), unit = ''degC''\<rparr>"

definition signed12 :: signal_def where
  "signed12 = engine_temp\<lparr>sig_name := ''Torque'', start_bit := 4, sig_length := 12, is_signed := True\<rparr>"

definition demo_frame :: can_frame where
  "demo_frame = \<lparr>can_id = 0x123, can_dlc = 8, data = [0xB0, 0xF6, 0xA7, 0x3B, 0, 0, 0, 0]\<rparr>"

lemma intel_examples: "is_little_endian engine_temp" "is_little_endian signed12"
  by (simp_all add: engine_temp_def signed12_def)

lemma fits_examples: "sig_fits engine_temp" "sig_fits signed12" "frame_ok demo_frame"
  by (simp_all add: sig_fits_def engine_temp_def signed12_def demo_frame_def frame_ok_def)

lemma raw_examples: "raw_value engine_temp (data demo_frame) = 167" "raw_value signed12 (data demo_frame) = -149"
  by (simp_all add: raw_value_def engine_temp_def signed12_def demo_frame_def field_def frame_word_def Let_def
      take_bit_eq_mod drop_bit_eq_div signed_take_bit_eq_take_bit_minus)

theorem decode_correct_witness:
  "map_option (map dec_value) (decode demo_frame (MessageDef\<lparr>signals := [engine_temp, signed12]\<rparr>))
     = Some [physical_value engine_temp 167, physical_value signed12 (-149)]"
  using decode_correct [of demo_frame "MessageDef\<lparr>signals := [engine_temp, signed12]\<rparr>"]
  by (simp add: fits_examples intel_examples raw_examples)

text \<open>
  C27: Decoding is defined for every frame of eight bytes exactly when no signal of the message
  is signed with length zero: then, and only then, the decoder shifts by a negative amount,
  which C++ leaves undefined. No start bit and no other length makes it read outside the frame.
\<close>

theorem decode_defined:
  assumes "frame_ok f"
  shows "decode f msg \<noteq> None \<longleftrightarrow> (\<forall>s\<in>set (signals msg). \<not> (is_signed s \<and> sig_length s = 0))"
  by (auto simp: decode_def decode_all_None decode_signal_defined [OF assms])

theorem decode_defined_witness:
  "decode demo_frame (MessageDef\<lparr>signals := [engine_temp\<lparr>start_bit := 250, sig_length := 255\<rparr>]\<rparr>) \<noteq> None
   \<and> decode demo_frame (MessageDef\<lparr>signals := [engine_temp, signed12\<lparr>sig_length := 0\<rparr>]\<rparr>) = None"
  using decode_defined [OF fits_examples(3), of "MessageDef\<lparr>signals := [engine_temp\<lparr>start_bit := 250, sig_length := 255\<rparr>]\<rparr>"]
    decode_defined [OF fits_examples(3), of "MessageDef\<lparr>signals := [engine_temp, signed12\<lparr>sig_length := 0\<rparr>]\<rparr>"]
  by (simp add: engine_temp_def signed12_def)

text \<open>
  C26: Every decoded value lies in the range its signal declares: when the declared bounds are
  finite and in order, the value is a finite number between them, whatever the bits of the
  frame, the scale and the offset are, overflow to infinity and NaN included.
\<close>

theorem decode_in_range:
  assumes "decode f msg = Some ds" and "i < length (signals msg)"
    and "fp_finite (min_val (signals msg ! i))" and "fp_finite (max_val (signals msg ! i))"
    and "fval (min_val (signals msg ! i)) \<le> fval (max_val (signals msg ! i))"
  shows "length ds = length (signals msg) \<and> fp_finite (dec_value (ds ! i))
     \<and> fval (min_val (signals msg ! i)) \<le> fval (dec_value (ds ! i))
     \<and> fval (dec_value (ds ! i)) \<le> fval (max_val (signals msg ! i))"
proof -
  have ds: "length ds = length (signals msg)" "decode_signal f (signals msg ! i) = Some (ds ! i)"
    using decode_all_nth [of f "signals msg" ds] assms(1,2) by (simp_all add: decode_def)
  then obtain raw where "dec_value (ds ! i) = physical_value (signals msg ! i) raw"
    using decode_signal_value by blast
  with clamp_finite [OF assms(3-5)] ds(1) show ?thesis by (simp add: physical_value_def Let_def)
qed

text \<open>
  C25: The physical value is exact when the arithmetic can be: if the raw value, its product
  with the scale and the sum with the offset are double precision numbers, the decoded value is
  the real number \<open>raw * scale + offset\<close> clamped to the declared range, with no rounding error.
\<close>

theorem physical_value_exact:
  assumes "fp_finite (scale sig)" and "fp_finite (offset sig)" and "fp_finite (min_val sig)" and "fp_finite (max_val sig)"
    and "representable binary64 (of_int raw)" and "representable binary64 (of_int raw * fval (scale sig))"
    and "representable binary64 (of_int raw * fval (scale sig) + fval (offset sig))"
  shows "fval (physical_value sig raw)
     = max (fval (min_val sig)) (min (fval (max_val sig)) (of_int raw * fval (scale sig) + fval (offset sig)))"
  using finite_as_finite [OF affine_exact [OF assms(1,2,5-7)]] assms(3,4)
  by (simp add: physical_value_def clamp_fval)

lemma engine_temp_fval:
  "fval (scale engine_temp) = 0.75" "fval (offset engine_temp) = -40"
  "fval (min_val engine_temp) = -40" "fval (max_val engine_temp) = 148.75"
  by (simp_all add: engine_temp_def fval_def power_int_def power_divide)

lemma engine_temp_finite:
  "fp_finite (scale engine_temp)" "fp_finite (offset engine_temp)" "fp_finite (min_val engine_temp)" "fp_finite (max_val engine_temp)"
  by (simp_all add: engine_temp_def fp_finite_def)

lemma representable_quarter: "\<bar>k\<bar> < 2 ^ 53 \<Longrightarrow> representable binary64 (of_int k / 4)"
  unfolding representable_def
  by (intro exI [of _ "nat \<bar>k\<bar>"] exI [of _ "-2"]) (auto simp: binary64_def power_int_def nat_less_iff power2_eq_square)

theorem physical_value_exact_witness:
  "fval (physical_value engine_temp 167) = 85.25"
  using physical_value_exact [of engine_temp 167] representable_quarter [of 668] representable_quarter [of 501]
    representable_quarter [of 341]
  by (simp add: engine_temp_finite engine_temp_fval)

theorem decode_in_range_witness:
  "\<exists>ds. decode demo_frame (MessageDef\<lparr>signals := [engine_temp]\<rparr>) = Some ds
     \<and> - 40 \<le> fval (dec_value (ds ! 0)) \<and> fval (dec_value (ds ! 0)) \<le> 148.75"
proof -
  have "sig_length engine_temp \<noteq> 0" by (simp add: engine_temp_def)
  then obtain ds where ds: "decode demo_frame (MessageDef\<lparr>signals := [engine_temp]\<rparr>) = Some ds"
    using decode_signal_defined [OF fits_examples(3), of engine_temp] by (auto simp: decode_def)
  from decode_in_range [OF this, of 0] ds show ?thesis by (simp add: engine_temp_finite engine_temp_fval)
qed

end
