(* ===== verification/Someip_Publisher.thy ===== *)
theory Someip_Publisher
  imports Someip_Message Signal_Decoder
begin

text \<open>
  The SOME/IP publisher (\<^verbatim>\<open>src/someip/someip_publisher.hpp\<close>, \<^verbatim>\<open>someip_publisher.cpp\<close>). A
  call returns the datagrams it hands to \<open>sendto\<close>, all for the destination set by the
  constructor; a failing \<open>sendto\<close> only prints a message. The conversion to \<open>float\<close> rounds to
  nearest and overflows to infinity, as on hosts with IEEE arithmetic.
\<close>

section \<open>State and operations\<close>

record publisher =
  pub_session :: u16
  signal_map :: "string \<rightharpoonup> u16 \<times> u16"

definition SomeIpPublisher :: publisher where
  "SomeIpPublisher = \<lparr>pub_session = 1, signal_map = Map.empty\<rparr>"

definition register_signal :: "publisher \<Rightarrow> string \<Rightarrow> u16 \<Rightarrow> u16 \<Rightarrow> publisher" where
  "register_signal p name service method = p\<lparr>signal_map := (signal_map p)(name \<mapsto> (service, method))\<rparr>"

text \<open>The buffer \<open>buf\<close> on the stack has whatever content it has at the call.\<close>

definition send_message :: "byte list \<Rightarrow> someip_message \<Rightarrow> byte list list option" where
  "send_message buf msg = do {
     (len, buf) \<leftarrow> serialize_into msg buf SOMEIP_MAX_SIZE;
     if len = 0 then Some []
     else do { datagram \<leftarrow> rd_run buf 0 len; Some [datagram] } }"

definition publish :: "byte list \<Rightarrow> publisher \<Rightarrow> decoded_signal \<Rightarrow> (publisher \<times> byte list list) option" where
  "publish buf p sig =
     (case signal_map p (dec_name sig) of
        None \<Rightarrow> Some (p, [])
      | Some (service, method) \<Rightarrow> do {
          msg \<leftarrow> make_float_notification service method (pub_session p) (fp_cast binary32 (dec_value sig));
          let p = p\<lparr>pub_session := pub_session p + 1\<rparr>;
          sent \<leftarrow> send_message buf msg;
          Some (p, sent) })"

definition publish_float :: "byte list \<Rightarrow> publisher \<Rightarrow> u16 \<Rightarrow> u16 \<Rightarrow> fp \<Rightarrow> (publisher \<times> byte list list) option" where
  "publish_float buf p service method val = do {
     msg \<leftarrow> make_float_notification service method (pub_session p) val;
     let p = p\<lparr>pub_session := pub_session p + 1\<rparr>;
     sent \<leftarrow> send_message buf msg;
     Some (p, sent) }"

section \<open>Specification: a publisher without buffers\<close>

datatype pub_op = Register string u16 u16 | Publish decoded_signal | PublishFloat u16 u16 fp

text \<open>The code's step for an operation, with the content of the stack buffer at that call.\<close>

definition pub_step :: "publisher \<Rightarrow> byte list \<times> pub_op \<Rightarrow> (publisher \<times> byte list list) option" where
  "pub_step p op =
     (case op of
        (buf, Register name service method) \<Rightarrow> Some (register_signal p name service method, [])
      | (buf, Publish sig) \<Rightarrow> publish buf p sig
      | (buf, PublishFloat service method val) \<Rightarrow> publish_float buf p service method val)"

definition float_message :: "u16 \<Rightarrow> u16 \<Rightarrow> u16 \<Rightarrow> fp \<Rightarrow> someip_message" where
  "float_message service method session val =
     \<lparr>service_id = service, method_id = method, client_id = 0, session_id = session,
      msg_type = 0x02, return_code = 0x00, payload = be32 (float_bits val)\<rparr>"

definition notify :: "publisher \<Rightarrow> u16 \<Rightarrow> u16 \<Rightarrow> fp \<Rightarrow> publisher \<times> byte list list" where
  "notify p service method val =
     (p\<lparr>pub_session := pub_session p + 1\<rparr>, [someip_bytes (float_message service method (pub_session p) val)])"

definition pub_spec :: "publisher \<Rightarrow> byte list \<times> pub_op \<Rightarrow> publisher \<times> byte list list" where
  "pub_spec p op =
     (case snd op of
        Register name service method \<Rightarrow> (register_signal p name service method, [])
      | Publish sig \<Rightarrow>
          (case signal_map p (dec_name sig) of
             None \<Rightarrow> (p, [])
           | Some (service, method) \<Rightarrow> notify p service method (fp_cast binary32 (dec_value sig)))
      | PublishFloat service method val \<Rightarrow> notify p service method val)"

section \<open>Refinement\<close>

lemma make_float_message: "make_float_notification s m sess v = Some (float_message s m sess v)"
  by (simp add: make_float_eq float_message_def SomeIpMessage_def someip_consts)

lemma send_message_bytes:
  assumes "length buf = SOMEIP_MAX_SIZE" and "length (payload m) \<le> 1484"
  shows "send_message buf m = Some [someip_bytes m]"
  using assms by (simp add: send_message_def serialize_into_bytes SOMEIP_MAX_SIZE_def rd_run_def)

lemma send_message_too_large:
  assumes "length buf = SOMEIP_MAX_SIZE" and "1484 < length (payload m)"
  shows "send_message buf m = Some []"
  using assms by (simp add: send_message_def serialize_into_bytes SOMEIP_MAX_SIZE_def)

lemma float_message_payload [simp]: "length (payload (float_message s m sess v)) = 4"
  by (simp add: float_message_def)

lemma publish_spec: "length buf = SOMEIP_MAX_SIZE \<Longrightarrow> publish buf p sig = Some (pub_spec p (buf, Publish sig))"
  by (simp add: publish_def pub_spec_def notify_def make_float_message send_message_bytes Let_def split: option.split)

lemma publish_float_spec:
  "length buf = SOMEIP_MAX_SIZE \<Longrightarrow> publish_float buf p s m v = Some (pub_spec p (buf, PublishFloat s m v))"
  by (simp add: publish_float_def pub_spec_def notify_def make_float_message send_message_bytes Let_def)

interpretation pub: machine_refinement pub_step "\<lambda>_. True" "\<lambda>(buf, op). length buf = SOMEIP_MAX_SIZE" id pub_spec
  by unfold_locales
    (auto simp: pub_step_def publish_spec publish_float_spec pub_spec_def [where op = "(_, Register _ _ _)"] split: pub_op.splits)

text \<open>Session numbers along a run of the specification.\<close>

definition float_datagram :: "u16 \<Rightarrow> byte list \<Rightarrow> bool" where
  "float_datagram sess d \<longleftrightarrow> (\<exists>s m v. d = someip_bytes (float_message s m sess v))"

lemma pub_spec_cases:
  "(snd (pub_spec p op) = [] \<and> pub_session (fst (pub_spec p op)) = pub_session p)
   \<or> (\<exists>d. snd (pub_spec p op) = [d] \<and> float_datagram (pub_session p) d \<and> pub_session (fst (pub_spec p op)) = pub_session p + 1)"
  by (auto simp: pub_spec_def register_signal_def notify_def float_datagram_def split: pub_op.splits option.splits)

interpretation pub_numbers: session_numbering pub_spec pub_session "\<lambda>_. True" float_datagram
proof
  fix p :: publisher and op :: "byte list \<times> pub_op" and k
  show "pub_session (fst (pub_spec p op)) = pub_session p + of_nat (length (filter (\<lambda>_. True) (snd (pub_spec p op))))"
    using pub_spec_cases [of p op] by auto
  show "float_datagram (pub_session p + of_nat k) (filter (\<lambda>_. True) (snd (pub_spec p op)) ! k)"
    if "k < length (filter (\<lambda>_. True) (snd (pub_spec p op)))"
    using that pub_spec_cases [of p op] by auto
qed

lemma float_message_fits [simp]: "msg_fits (float_message s m sess v)"
  by (simp add: msg_fits_def)

lemma float_message_next: "someip_next (someip_bytes (float_message s m sess v)) = Some (float_message s m sess v, 20)"
  using someip_next_bytes [of "float_message s m sess v" "[]"] by simp

lemma float_datagram_next:
  "float_datagram sess d \<Longrightarrow> length d = 20 \<and> (\<exists>m. someip_next d = Some (m, 20) \<and> session_id m = sess
     \<and> msg_type m = SOMEIP_MSG_NOTIFICATION \<and> payload_size m = 4)"
  by (auto simp: float_datagram_def float_message_next payload_size_def)
    (simp_all add: float_message_def someip_consts)

section \<open>Properties\<close>

text \<open>
  C14: Sessions are numbered without gaps. Any sequence of registrations and publications, with
  any content of the stack buffers, is free of undefined behaviour; the datagrams it sends are
  notifications of 20 bytes, the \<open>k\<close>-th of them (from zero) carries the session number at the
  start plus \<open>k\<close> modulo \<open>2 ^ 16\<close>, and the next session number follows the last one used.
\<close>

theorem publisher_sessions:
  assumes "\<forall>(buf, op)\<in>set ops. length buf = SOMEIP_MAX_SIZE"
  shows "\<exists>p' ds. try_steps pub_step p ops = Some (p', ds)
     \<and> pub_session p' = pub_session p + of_nat (length ds)
     \<and> (\<forall>k<length ds. length (ds ! k) = 20
          \<and> (\<exists>m. someip_next (ds ! k) = Some (m, 20) \<and> session_id m = pub_session p + of_nat k
               \<and> msg_type m = SOMEIP_MSG_NOTIFICATION \<and> payload_size m = 4))"
proof -
  obtain p' ds where ds: "run_steps pub_spec p ops = (p', ds)" by fastforce
  then have run: "try_steps pub_step p ops = Some (p', ds)"
    using pub.run_sim [of ops p] assms by auto
  have "length (ds ! k) = 20 \<and> (\<exists>m. someip_next (ds ! k) = Some (m, 20)
      \<and> session_id m = pub_session p + of_nat k \<and> msg_type m = SOMEIP_MSG_NOTIFICATION \<and> payload_size m = 4)"
    if "k < length ds" for k
    using pub_numbers.run_stamp [of k p ops] that float_datagram_next by (simp add: ds)
  with run pub_numbers.run_counter [of p ops] show ?thesis by (simp add: ds)
qed

definition rpm_signal :: decoded_signal where
  "rpm_signal = \<lparr>dec_name = ''EngineRPM'', dec_value = Fin False 7881299347898368 (-41), dec_unit = ''rpm''\<rparr>"

definition stack_bytes :: "byte list" where
  "stack_bytes = replicate SOMEIP_MAX_SIZE 0xCC"

lemma length_stack_bytes [simp]: "length stack_bytes = SOMEIP_MAX_SIZE"
  by (simp add: stack_bytes_def)

theorem publisher_sessions_witness:
  "\<exists>p' ds. try_steps pub_step (SomeIpPublisher\<lparr>pub_session := 0xFFFF\<rparr>)
       (map (Pair stack_bytes) [Register ''EngineRPM'' 0x0101 0x8001, Publish rpm_signal, Publish rpm_signal])
         = Some (p', ds) \<and> pub_session p' = 0xFFFF + of_nat (length ds)"
  using publisher_sessions [of "map (Pair stack_bytes) [Register ''EngineRPM'' 0x0101 0x8001, Publish rpm_signal, Publish rpm_signal]"
      "SomeIpPublisher\<lparr>pub_session := 0xFFFF\<rparr>"]
  by auto

text \<open>
  C12: A published signal arrives as it was decoded. After a signal is registered, whatever was
  registered before, publishing a decoded value of that name sends one datagram from which a
  receiver reads the registered service and method and a binary32 payload that is the double
  value rounded to single precision; when the value has at most 24 significant bits in the
  binary32 range the payload is exactly the decoded value. A signal that was never registered
  sends nothing and uses no session number.
\<close>

theorem publish_delivers:
  assumes "length buf = SOMEIP_MAX_SIZE"
  shows "(\<exists>d m val. publish buf (register_signal p (dec_name sig) service method) sig
           = Some (register_signal p (dec_name sig) service method\<lparr>pub_session := pub_session p + 1\<rparr>, [d])
       \<and> someip_next d = Some (m, length d) \<and> service_id m = service \<and> method_id m = method
       \<and> map_option float_of_bits (dec32 (payload m)) = Some val \<and> val = fp_cast binary32 (dec_value sig)
       \<and> (fp_finite (dec_value sig) \<and> representable binary32 (fval (dec_value sig))
            \<longrightarrow> fval val = fval (dec_value sig)))
   \<and> (signal_map p (dec_name sig) = None \<longrightarrow> publish buf p sig = Some (p, []))"
proof -
  let ?v = "fp_cast binary32 (dec_value sig)"
  let ?m = "float_message service method (pub_session p) ?v"
  have exact: "fval ?v = fval (dec_value sig)" if "fp_finite (dec_value sig)" "representable binary32 (fval (dec_value sig))"
    using that fp_cast_exact [OF fmt_ok_formats(2)] by (metis finite_as_finite fp_finiteE)
  have m: "map_option float_of_bits (dec32 (payload ?m)) = Some ?v" "service_id ?m = service" "method_id ?m = method"
    using w32.dec_enc [of "float_bits ?v" "[]"] float_bits_roundtrip [OF fp_cast_canonical [of binary32]]
    by (simp_all add: float_message_def)
  have "publish buf (register_signal p (dec_name sig) service method) sig
      = Some (register_signal p (dec_name sig) service method\<lparr>pub_session := pub_session p + 1\<rparr>, [someip_bytes ?m])"
    using assms by (simp add: publish_spec pub_spec_def notify_def register_signal_def)
  moreover have "someip_next (someip_bytes ?m) = Some (?m, length (someip_bytes ?m))"
    by (simp add: float_message_next)
  moreover have "signal_map p (dec_name sig) = None \<longrightarrow> publish buf p sig = Some (p, [])"
    by (simp add: publish_def)
  ultimately show ?thesis using m exact by blast
qed

theorem publish_delivers_witness:
  "\<exists>d m val. publish stack_bytes (register_signal SomeIpPublisher ''EngineRPM'' 0x0101 0x8001) rpm_signal
           = Some (register_signal SomeIpPublisher ''EngineRPM'' 0x0101 0x8001\<lparr>pub_session := 2\<rparr>, [d])
       \<and> someip_next d = Some (m, length d) \<and> service_id m = 0x0101 \<and> method_id m = 0x8001
       \<and> map_option float_of_bits (dec32 (payload m)) = Some val
   \<and> publish stack_bytes SomeIpPublisher rpm_signal = Some (SomeIpPublisher, [])"
  using publish_delivers [of stack_bytes SomeIpPublisher rpm_signal "0x0101" "0x8001"]
  by (auto simp: SomeIpPublisher_def rpm_signal_def)

text \<open>
  What is handed to the socket fits a datagram: a message of up to 1484 payload bytes is
  sent as its serialised bytes, a larger one is refused and nothing is sent, and in no case is
  a byte beyond the 1500-byte buffer read or written.
\<close>

theorem send_message_bounds:
  assumes "length buf = SOMEIP_MAX_SIZE"
  shows "send_message buf m = Some (if length (payload m) \<le> 1484 then [someip_bytes m] else [])
   \<and> (length (payload m) \<le> 1484 \<longleftrightarrow> length (someip_bytes m) \<le> SOMEIP_MAX_SIZE)"
  using assms by (auto simp: send_message_bytes send_message_too_large SOMEIP_MAX_SIZE_def)

theorem send_message_bounds_witness:
  "send_message stack_bytes (SomeIpMessage\<lparr>payload := replicate 1485 0\<rparr>) = Some []
   \<and> send_message stack_bytes (SomeIpMessage\<lparr>payload := [1]\<rparr>) = Some [someip_bytes (SomeIpMessage\<lparr>payload := [1]\<rparr>)]"
  using send_message_bounds [of stack_bytes "SomeIpMessage\<lparr>payload := replicate 1485 0\<rparr>"]
    send_message_bounds [of stack_bytes "SomeIpMessage\<lparr>payload := [1]\<rparr>"]
  by (simp add: SomeIpMessage_def)

end
