(* ===== verification/Someip_Sd.thy ===== *)
theory Someip_Sd
  imports Someip_Message
begin

text \<open>
  Service discovery messages (\<^verbatim>\<open>src/someip/someip_sd.hpp\<close>, \<^verbatim>\<open>someip_sd.cpp\<close>). A serialiser
  that gets a pointer into a buffer is a function of the position it points at and of the
  buffer; \<open>None\<close> is a write outside the buffer. Sizes of vectors do not wrap.
\<close>

section \<open>Data\<close>

definition SOMEIP_SD_MULTICAST :: string where "SOMEIP_SD_MULTICAST = ''224.224.224.245''"
definition SOMEIP_SD_PORT :: u16 where "SOMEIP_SD_PORT = 30490"
definition SD_ENTRY_OFFER_SERVICE :: byte where "SD_ENTRY_OFFER_SERVICE = 0x01"
definition SD_ENTRY_SUBSCRIBE_EVENTGRP :: byte where "SD_ENTRY_SUBSCRIBE_EVENTGRP = 0x06"
definition SD_ENTRY_SUBSCRIBE_ACK :: byte where "SD_ENTRY_SUBSCRIBE_ACK = 0x07"
definition SD_OPT_IPV4_ENDPOINT :: byte where "SD_OPT_IPV4_ENDPOINT = 0x04"

lemmas sd_consts = SOMEIP_SD_PORT_def SD_ENTRY_OFFER_SERVICE_def SD_ENTRY_SUBSCRIBE_EVENTGRP_def
  SD_ENTRY_SUBSCRIBE_ACK_def SD_OPT_IPV4_ENDPOINT_def

record sd_entry =
  entry_type :: byte
  index_first :: byte
  num_opts :: byte
  entry_service :: u16
  instance_id :: u16
  major_version :: byte
  ttl :: u32
  minor_version :: u16
  eventgroup_id :: u16

definition SdEntry :: sd_entry where
  "SdEntry = \<lparr>entry_type = 0, index_first = 0, num_opts = 0, entry_service = 0, instance_id = 0xFFFF,
     major_version = 0x01, ttl = 3, minor_version = 0, eventgroup_id = 0\<rparr>"

text \<open>The address is kept in network byte order, as \<open>inet_addr\<close> returns it.\<close>

record sd_option =
  opt_type :: byte
  ipv4_addr :: u32
  protocol :: byte
  opt_port :: u16

definition SdOptionIpv4 :: sd_option where
  "SdOptionIpv4 = \<lparr>opt_type = SD_OPT_IPV4_ENDPOINT, ipv4_addr = 0, protocol = 0x11, opt_port = 0\<rparr>"

record sd_message =
  entries :: "sd_entry list"
  options :: "sd_option list"

definition SomeIpSdMessage :: sd_message where
  "SomeIpSdMessage = \<lparr>entries = [], options = []\<rparr>"

section \<open>Operations\<close>

definition entry_serialize :: "sd_entry \<Rightarrow> nat \<Rightarrow> byte list \<Rightarrow> byte list option" where
  "entry_serialize e pos p = do {
     p \<leftarrow> put pos [entry_type e] p;
     p \<leftarrow> put (pos + 1) [index_first e] p;
     p \<leftarrow> put (pos + 2) [push_bit 4 (num_opts e)] p;
     p \<leftarrow> put (pos + 3) [0] p;
     let svc = htons (entry_service e);
     p \<leftarrow> put (pos + 4) (mem16 svc) p;
     let ins = htons (instance_id e);
     p \<leftarrow> put (pos + 6) (mem16 ins) p;
     p \<leftarrow> put (pos + 8) [major_version e] p;
     p \<leftarrow> put (pos + 9) [ucast (drop_bit 16 (ttl e) AND 0xFF)] p;
     p \<leftarrow> put (pos + 10) [ucast (drop_bit 8 (ttl e) AND 0xFF)] p;
     p \<leftarrow> put (pos + 11) [ucast (ttl e AND 0xFF)] p;
     let minor = htons (minor_version e);
     p \<leftarrow> put (pos + 12) (mem16 minor) p;
     let evg = htons (eventgroup_id e);
     put (pos + 14) (mem16 evg) p }"

definition option_serialize :: "sd_option \<Rightarrow> nat \<Rightarrow> byte list \<Rightarrow> byte list option" where
  "option_serialize opt pos p = do {
     let len = htons 9;
     p \<leftarrow> put pos (mem16 len) p;
     p \<leftarrow> put (pos + 2) [opt_type opt] p;
     p \<leftarrow> put (pos + 3) [0] p;
     p \<leftarrow> put (pos + 4) (mem32 (ipv4_addr opt)) p;
     p \<leftarrow> put (pos + 8) [0] p;
     p \<leftarrow> put (pos + 9) [protocol opt] p;
     let prt = htons (opt_port opt);
     put (pos + 10) (mem16 prt) p }"

definition add_offer_service :: "sd_message \<Rightarrow> u16 \<Rightarrow> u32 \<Rightarrow> u16 \<Rightarrow> u32 \<Rightarrow> sd_message" where
  "add_offer_service m service addr prt time =
     (let entry = SdEntry\<lparr>entry_type := SD_ENTRY_OFFER_SERVICE, entry_service := service, instance_id := 0x0001,
                    major_version := 0x01, ttl := time, minor_version := 0x0000,
                    index_first := of_nat (length (options m)), num_opts := 1\<rparr>;
          opt = SdOptionIpv4\<lparr>opt_type := SD_OPT_IPV4_ENDPOINT, ipv4_addr := addr, protocol := 0x11, opt_port := prt\<rparr>
      in m\<lparr>entries := entries m @ [entry], options := options m @ [opt]\<rparr>)"

definition add_subscribe_ack :: "sd_message \<Rightarrow> u16 \<Rightarrow> u16 \<Rightarrow> sd_message" where
  "add_subscribe_ack m service eventgroup =
     (let entry = SdEntry\<lparr>entry_type := SD_ENTRY_SUBSCRIBE_ACK, entry_service := service, instance_id := 0x0001,
                    major_version := 0x01, ttl := 3, eventgroup_id := eventgroup, num_opts := 0\<rparr>
      in m\<lparr>entries := entries m @ [entry]\<rparr>)"

text \<open>The two loops of \<open>serialize\<close>: write each record and advance by its width.\<close>

fun write_all :: "('a \<Rightarrow> nat \<Rightarrow> byte list \<Rightarrow> byte list option) \<Rightarrow> nat \<Rightarrow> 'a list \<Rightarrow> nat \<Rightarrow> byte list \<Rightarrow> (nat \<times> byte list) option" where
  "write_all ser width [] pos p = Some (pos, p)"
| "write_all ser width (x # xs) pos p = do { p \<leftarrow> ser x pos p; write_all ser width xs (pos + width) p }"

definition sd_serialize :: "sd_message \<Rightarrow> u16 \<Rightarrow> byte list option" where
  "sd_serialize m session = do {
     let entries_len = length (entries m) * 16;
     let options_len = length (options m) * 12;
     let total_size = 16 + 4 + 4 + entries_len + 4 + options_len;
     let p = replicate total_size 0;
     p \<leftarrow> put 0 [0xFF, 0xFF] p;
     p \<leftarrow> put 2 [0x81, 0x00] p;
     p \<leftarrow> put 4 (mem32 (htonl (of_nat (total_size - 8)))) p;
     p \<leftarrow> put 8 [0x00, 0x00] p;
     p \<leftarrow> put 10 (mem16 (htons session)) p;
     p \<leftarrow> put 12 [0x01, 0x01, 0x02, 0x00] p;
     p \<leftarrow> put 16 [0xC0, 0x00, 0x00, 0x00] p;
     p \<leftarrow> put 20 (mem32 (htonl (of_nat entries_len))) p;
     (pos, p) \<leftarrow> write_all entry_serialize 16 (entries m) 24 p;
     p \<leftarrow> put pos (mem32 (htonl (of_nat options_len))) p;
     (pos, p) \<leftarrow> write_all option_serialize 12 (options m) (pos + 4) p;
     Some p }"

section \<open>Reference: the wire format\<close>

definition entry_bytes :: "sd_entry \<Rightarrow> byte list" where
  "entry_bytes e =
     [entry_type e, index_first e, push_bit 4 (num_opts e), 0] @ be16 (entry_service e) @ be16 (instance_id e)
     @ [major_version e, ucast (drop_bit 16 (ttl e) AND 0xFF), ucast (drop_bit 8 (ttl e) AND 0xFF), ucast (ttl e AND 0xFF)]
     @ be16 (minor_version e) @ be16 (eventgroup_id e)"

definition option_bytes :: "sd_option \<Rightarrow> byte list" where
  "option_bytes opt =
     be16 9 @ [opt_type opt, 0] @ mem32 (ipv4_addr opt) @ [0, protocol opt] @ be16 (opt_port opt)"

definition sd_payload :: "sd_message \<Rightarrow> byte list" where
  "sd_payload m =
     [0xC0, 0x00, 0x00, 0x00] @ be32 (of_nat (16 * length (entries m))) @ concat (map entry_bytes (entries m))
     @ be32 (of_nat (12 * length (options m))) @ concat (map option_bytes (options m))"

text \<open>A service discovery message is a SOME/IP notification of the reserved service.\<close>

definition sd_someip :: "sd_message \<Rightarrow> u16 \<Rightarrow> someip_message" where
  "sd_someip m session =
     \<lparr>service_id = 0xFFFF, method_id = 0x8100, client_id = 0, session_id = session,
      msg_type = 0x02, return_code = 0x00, payload = sd_payload m\<rparr>"

lemma length_mem [simp]: "length (mem16 a) = 2" "length (mem32 b) = 4"
  by (simp_all add: mem16_def mem32_def)

lemma length_entry_bytes [simp]: "length (entry_bytes e) = 16"
  by (simp add: entry_bytes_def)

lemma length_option_bytes [simp]: "length (option_bytes opt) = 12"
  by (simp add: option_bytes_def)

lemma entry_serialize_bytes:
  assumes "pos = length ws" and "16 \<le> k"
  shows "entry_serialize e pos (ws @ replicate k 0) = Some ((ws @ entry_bytes e) @ replicate (k - 16) 0)"
  using assms by (simp add: entry_serialize_def entry_bytes_def put_next mem16_htons Let_def flip: append_assoc)

lemma option_serialize_bytes:
  assumes "pos = length ws" and "12 \<le> k"
  shows "option_serialize opt pos (ws @ replicate k 0) = Some ((ws @ option_bytes opt) @ replicate (k - 12) 0)"
  using assms by (simp add: option_serialize_def option_bytes_def put_next mem16_htons Let_def flip: append_assoc)

lemma write_all_bytes:
  assumes ser: "\<And>x ws k. width \<le> k \<Longrightarrow>
      ser x (length ws) (ws @ replicate k 0) = Some ((ws @ bytes x) @ replicate (k - width) 0)"
    and len: "\<And>x. length (bytes x) = width"
  shows "width * length xs \<le> k \<Longrightarrow>
     write_all ser width xs (length ws) (ws @ replicate k 0)
       = Some (length ws + width * length xs, (ws @ concat (map bytes xs)) @ replicate (k - width * length xs) 0)"
proof (induction xs arbitrary: ws k)
  case Nil
  then show ?case by simp
next
  case (Cons x xs)
  then have "width \<le> k" "width * length xs \<le> k - width" by simp_all
  with Cons.IH [of "k - width" "ws @ bytes x"] ser [of k x ws] len [of x] show ?case
    by (simp add: ac_simps)
qed

lemma length_sd_payload: "length (sd_payload m) = 12 + 16 * length (entries m) + 12 * length (options m)"
  by (simp add: sd_payload_def length_concat comp_def sum_list_triv)

lemma put_first: "length bs \<le> k \<Longrightarrow> put 0 bs (replicate k 0) = Some (bs @ replicate (k - length bs) 0)"
  using put_next [of 0 "[]" bs k] by simp

text \<open>The bytes in front of the entries, and the writes that produce them.\<close>

definition sd_front :: "sd_message \<Rightarrow> u16 \<Rightarrow> byte list" where
  "sd_front m session =
     [0xFF, 0xFF] @ [0x81, 0x00] @ be32 (of_nat (20 + 16 * length (entries m) + 12 * length (options m)))
     @ [0x00, 0x00] @ be16 session @ [0x01, 0x01, 0x02, 0x00] @ [0xC0, 0x00, 0x00, 0x00]
     @ be32 (of_nat (16 * length (entries m)))"

lemma length_sd_front [simp]: "length (sd_front m session) = 24"
  by (simp add: sd_front_def)

lemma sd_front_writes:
  fixes m :: sd_message
  defines "n \<equiv> length (entries m)" and "k \<equiv> length (options m)"
  shows "do {
      p \<leftarrow> put 0 [0xFF, 0xFF] (replicate (28 + 16 * n + 12 * k) 0);
      p \<leftarrow> put 2 [0x81, 0x00] p;
      p \<leftarrow> put 4 (mem32 (htonl (of_nat (28 + 16 * n + 12 * k - 8)))) p;
      p \<leftarrow> put 8 [0x00, 0x00] p;
      p \<leftarrow> put 10 (mem16 (htons session)) p;
      p \<leftarrow> put 12 [0x01, 0x01, 0x02, 0x00] p;
      p \<leftarrow> put 16 [0xC0, 0x00, 0x00, 0x00] p;
      put 20 (mem32 (htonl (of_nat (16 * n)))) p } = Some (sd_front m session @ replicate (4 + 16 * n + 12 * k) 0)"
  unfolding sd_front_def n_def k_def
  by (simp add: put_first put_next mem16_htons mem32_htonl add.assoc del: append.simps append_Cons flip: append_assoc)

lemma sd_serialize_parts:
  "sd_serialize m session = Some (((sd_front m session @ concat (map entry_bytes (entries m)))
     @ be32 (of_nat (12 * length (options m)))) @ concat (map option_bytes (options m)))"
proof -
  let ?n = "length (entries m)" and ?k = "length (options m)" and ?front = "sd_front m session"
  let ?es = "concat (map entry_bytes (entries m))" and ?os = "concat (map option_bytes (options m))"
  have es: "write_all entry_serialize 16 (entries m) 24 (?front @ replicate (4 + 16 * ?n + 12 * ?k) 0)
      = Some (24 + 16 * ?n, (?front @ ?es) @ replicate (4 + 12 * ?k) 0)"
    using write_all_bytes [of 16 entry_serialize entry_bytes "entries m" "4 + 16 * ?n + 12 * ?k" ?front]
    by (simp add: entry_serialize_bytes)
  have len: "length (?front @ ?es) = 24 + 16 * ?n" by (simp add: length_concat comp_def sum_list_triv)
  have olen: "put (24 + 16 * ?n) (be32 (of_nat (12 * ?k))) ((?front @ ?es) @ replicate (4 + 12 * ?k) 0)
      = Some (((?front @ ?es) @ be32 (of_nat (12 * ?k))) @ replicate (12 * ?k) 0)"
    using len by (subst put_next) simp_all
  have os: "write_all option_serialize 12 (options m) (24 + 16 * ?n + 4)
        (((?front @ ?es) @ be32 (of_nat (12 * ?k))) @ replicate (12 * ?k) 0)
      = Some (28 + 16 * ?n + 12 * ?k, ((?front @ ?es) @ be32 (of_nat (12 * ?k))) @ ?os)"
    using write_all_bytes [of 12 option_serialize option_bytes "options m" "12 * ?k" "(?front @ ?es) @ be32 (of_nat (12 * ?k))"]
      len by (simp only: option_serialize_bytes) simp
  have sizes: "?n * 16 = 16 * ?n" "?k * 12 = 12 * ?k" "16 + 4 + 4 + 16 * ?n + 4 + 12 * ?k = 28 + 16 * ?n + 12 * ?k"
    by simp_all
  have "sd_serialize m session = do {
      p \<leftarrow> Some (?front @ replicate (4 + 16 * ?n + 12 * ?k) 0);
      (pos, p) \<leftarrow> write_all entry_serialize 16 (entries m) 24 p;
      p \<leftarrow> put pos (mem32 (htonl (of_nat (12 * ?k)))) p;
      (pos, p) \<leftarrow> write_all option_serialize 12 (options m) (pos + 4) p;
      Some p }"
    unfolding sd_serialize_def Let_def sizes(1,2) unfolding sizes(3) sd_front_writes [symmetric]
    by (simp only: Option.bind_assoc)
  then show ?thesis unfolding Option.bind_lunit es prod.case mem32_htonl olen os .
qed

lemma sd_serialize_bytes: "sd_serialize m session = Some (someip_bytes (sd_someip m session))"
proof -
  have c: "be16 0xFFFF = [0xFF, 0xFF]" "be16 0x8100 = [0x81, 0x00]" "be16 0 = [0x00, 0x00]"
    by (simp_all add: be16_def drop_bit_eq_div)
  have "length (sd_payload m) + 8 = 20 + 16 * length (entries m) + 12 * length (options m)"
    by (simp add: length_sd_payload)
  then show ?thesis
    unfolding sd_serialize_parts someip_bytes_def someip_header_def sd_front_def
    by (simp add: sd_someip_def c sd_payload_def add.assoc del: of_nat_add of_nat_mult)
qed

section \<open>Reading the arrays back\<close>

definition dec_entry :: "byte list \<Rightarrow> sd_entry option" where
  "dec_entry bs = do {
     t \<leftarrow> rd bs 0; i \<leftarrow> rd bs 1; n \<leftarrow> rd bs 2; s \<leftarrow> dec16 (drop 4 bs); ins \<leftarrow> dec16 (drop 6 bs);
     mj \<leftarrow> rd bs 8; t2 \<leftarrow> rd bs 9; t1 \<leftarrow> rd bs 10; t0 \<leftarrow> rd bs 11;
     mn \<leftarrow> dec16 (drop 12 bs); evg \<leftarrow> dec16 (drop 14 bs);
     Some \<lparr>entry_type = t, index_first = i, num_opts = drop_bit 4 n, entry_service = s, instance_id = ins,
           major_version = mj, ttl = join32 0 t2 t1 t0, minor_version = mn, eventgroup_id = evg\<rparr> }"

definition dec_option :: "byte list \<Rightarrow> sd_option option" where
  "dec_option bs = do {
     t \<leftarrow> rd bs 2; a \<leftarrow> rd bs 4; b \<leftarrow> rd bs 5; c \<leftarrow> rd bs 6; d \<leftarrow> rd bs 7; pr \<leftarrow> rd bs 9; p \<leftarrow> dec16 (drop 10 bs);
     Some \<lparr>opt_type = t, ipv4_addr = of_mem32 a b c d, protocol = pr, opt_port = p\<rparr> }"

text \<open>The fields of an entry that are narrower on the wire than in memory.\<close>

definition entry_fits :: "sd_entry \<Rightarrow> bool" where
  "entry_fits e \<longleftrightarrow> unat (num_opts e) < 2 ^ 4 \<and> unat (ttl e) < 2 ^ 24"

lemma dec16_at: "k = length xs \<Longrightarrow> dec16 (drop k (xs @ be16 w @ rest)) = Some w"
  by (simp add: w16.dec_enc [simplified])

lemma of_mem32_mem32: "mem32 w = [a, b, c, d] \<Longrightarrow> of_mem32 a b c d = w"
  by (auto simp: mem32_def of_mem32_def intro!: word32_byte_eqI) (simp_all add: bit_simps bit_high)

lemma join_ttl:
  assumes "unat (w :: u32) < 2 ^ 24"
  shows "join32 0 (ucast (drop_bit 16 w AND 0xFF)) (ucast (drop_bit 8 w AND 0xFF)) (ucast (w AND 0xFF)) = w"
proof -
  have "\<not> bit w (24 + n)" for n using assms by (rule bit_unat_less) simp
  then show ?thesis by (intro word32_byte_eqI) (simp_all add: wire_defs bit_simps bit_high)
qed

lemma dec_entry_bytes: "entry_fits e \<Longrightarrow> dec_entry (entry_bytes e @ rest) = Some e"
proof -
  assume fits: "entry_fits e"
  have nib: "drop_bit 4 (push_bit 4 (num_opts e)) = num_opts e"
  proof (rule bit_word_eqI)
    fix n
    have "\<not> bit (num_opts e) n" if "4 \<le> n" using fits bit_unat_less [of "num_opts e" 4 n] that by (simp add: entry_fits_def)
    then show "bit (drop_bit 4 (push_bit 4 (num_opts e))) n = bit (num_opts e) n"
      by (cases "n < 4") (auto simp: bit_simps)
  qed
  obtain s1 s0 where s: "be16 (entry_service e) = [s1, s0]" by (simp add: be16_def)
  obtain i1 i0 where i: "be16 (instance_id e) = [i1, i0]" by (simp add: be16_def)
  obtain m1 m0 where m: "be16 (minor_version e) = [m1, m0]" by (simp add: be16_def)
  obtain g1 g0 where g: "be16 (eventgroup_id e) = [g1, g0]" by (simp add: be16_def)
  have d: "dec16 (s1 # s0 # r) = Some (entry_service e)" "dec16 (i1 # i0 # r) = Some (instance_id e)"
    "dec16 (m1 # m0 # r) = Some (minor_version e)" "dec16 (g1 # g0 # r) = Some (eventgroup_id e)" for r
    using dec16_be16 [of "entry_service e" r] dec16_be16 [of "instance_id e" r]
      dec16_be16 [of "minor_version e" r] dec16_be16 [of "eventgroup_id e" r] s i m g by simp_all
  show ?thesis
    using fits by (simp add: dec_entry_def entry_bytes_def s i m g d nib join_ttl entry_fits_def rd_def)
qed

lemma dec_option_bytes: "dec_option (option_bytes opt @ rest) = Some opt"
proof -
  obtain a b c d where a: "mem32 (ipv4_addr opt) = [a, b, c, d]" by (simp add: mem32_def)
  obtain l1 l0 where l: "be16 9 = [l1, l0]" by (simp add: be16_def)
  obtain p1 p0 where p: "be16 (opt_port opt) = [p1, p0]" by (simp add: be16_def)
  have "dec16 (p1 # p0 # r) = Some (opt_port opt)" for r using dec16_be16 [of "opt_port opt" r] p by simp
  then show ?thesis by (simp add: dec_option_def option_bytes_def a l p of_mem32_mem32 [OF a] rd_def)
qed

interpretation sd_entries: fixed_codec entry_bytes dec_entry 16 id entry_fits
  by unfold_locales (simp_all add: dec_entry_bytes)

interpretation sd_options: fixed_codec option_bytes dec_option 12 id "\<lambda>_. True"
  by unfold_locales (simp_all add: dec_option_bytes)

text \<open>A receiver's view of the payload: the two arrays, cut by their length fields.\<close>

definition dec_array :: "(byte list \<Rightarrow> 'a option) \<Rightarrow> nat \<Rightarrow> nat \<Rightarrow> byte list \<Rightarrow> 'a list option" where
  "dec_array dec width n bs = those (map (\<lambda>i. dec (drop (width * i) bs)) [0..<n])"

definition sd_parse :: "byte list \<Rightarrow> sd_message option" where
  "sd_parse pl = do {
     elen \<leftarrow> dec32 (drop 4 pl);
     es \<leftarrow> dec_array dec_entry 16 (unat elen div 16) (drop 8 pl);
     olen \<leftarrow> dec32 (drop (8 + unat elen) pl);
     os \<leftarrow> dec_array dec_option 12 (unat olen div 12) (drop (12 + unat elen) pl);
     Some \<lparr>entries = es, options = os\<rparr> }"

definition sd_fits :: "sd_message \<Rightarrow> bool" where
  "sd_fits m \<longleftrightarrow> 20 + 16 * length (entries m) + 12 * length (options m) < 2 ^ 32 \<and> (\<forall>e\<in>set (entries m). entry_fits e)"

lemma sd_parse_payload:
  assumes "sd_fits m" shows "sd_parse (sd_payload m) = Some m"
proof -
  let ?n = "16 * length (entries m)" and ?k = "12 * length (options m)"
  let ?es = "concat (map entry_bytes (entries m))" and ?os = "concat (map option_bytes (options m))"
  have u: "unat (of_nat ?n :: u32) = ?n" "unat (of_nat ?k :: u32) = ?k"
    using assms by (intro unat_of_nat_u32; simp add: sd_fits_def)+
  have len: "length ?es = ?n" by (rule sd_entries.length_concat_enc)
  have d: "drop 4 (sd_payload m) = be32 (of_nat ?n) @ ?es @ be32 (of_nat ?k) @ ?os"
    "drop 8 (sd_payload m) = ?es @ be32 (of_nat ?k) @ ?os"
    by (simp_all add: sd_payload_def)
  have "drop (8 + ?n) (sd_payload m) = drop ?n (drop 8 (sd_payload m))"
    "drop (12 + ?n) (sd_payload m) = drop (4 + ?n) (drop 8 (sd_payload m))" by (simp_all add: ac_simps)
  then have d2: "drop (8 + ?n) (sd_payload m) = be32 (of_nat ?k) @ ?os @ []" "drop (12 + ?n) (sd_payload m) = ?os @ []"
    unfolding d using len by simp_all
  have "dec_array dec_entry 16 (length (entries m)) (?es @ be32 (of_nat ?k) @ ?os) = Some (entries m)"
    using sd_entries.dec_array [of "entries m"] assms by (simp add: dec_array_def sd_fits_def del: drop_append)
  moreover have "dec_array dec_option 12 (length (options m)) (?os @ []) = Some (options m)"
    using sd_options.dec_array [of "options m" "[]"] by (simp add: dec_array_def)
  ultimately show ?thesis
    unfolding sd_parse_def d w32.dec_enc [simplified] Option.bind_lunit u d2 by (simp add: w32.dec_enc [simplified])
qed

lemma sd_message_read:
  assumes "sd_fits m"
  shows "someip_next (someip_bytes (sd_someip m session)) = Some (sd_someip m session, length (someip_bytes (sd_someip m session)))"
    and "sd_parse (payload (sd_someip m session)) = Some m"
proof -
  have "payload (sd_someip m session) = sd_payload m" by (simp add: sd_someip_def)
  moreover from this have "msg_fits (sd_someip m session)" using assms by (simp add: msg_fits_def sd_fits_def length_sd_payload)
  ultimately show "someip_next (someip_bytes (sd_someip m session)) = Some (sd_someip m session, length (someip_bytes (sd_someip m session)))"
    "sd_parse (payload (sd_someip m session)) = Some m"
    using someip_next_bytes [of "sd_someip m session" "[]"] sd_parse_payload [OF assms] by simp_all
qed

section \<open>Properties\<close>

text \<open>
  C20: Service discovery messages survive the wire. Serialising never writes outside the buffer
  it allocates and produces a SOME/IP notification of service 0xFFFF, method 0x8100 with the
  given session and the right length field; for a message whose lengths fit 32 bits, option
  counts four bits and lifetimes 24 bits, a receiver recovers from it exactly the entries and
  the endpoint options, in order.
\<close>

theorem sd_roundtrip:
  assumes "sd_fits m"
  shows "\<exists>bs h. sd_serialize m session = Some bs \<and> length bs = 28 + 16 * length (entries m) + 12 * length (options m)
     \<and> someip_next bs = Some (h, length bs) \<and> service_id h = 0xFFFF \<and> method_id h = 0x8100
     \<and> session_id h = session \<and> msg_type h = SOMEIP_MSG_NOTIFICATION \<and> sd_parse (payload h) = Some m"
proof -
  let ?h = "sd_someip m session"
  have h: "service_id ?h = 0xFFFF" "method_id ?h = 0x8100" "session_id ?h = session"
    "msg_type ?h = SOMEIP_MSG_NOTIFICATION" "payload ?h = sd_payload m"
    by (simp_all add: sd_someip_def someip_consts)
  have "length (someip_bytes ?h) = 28 + 16 * length (entries m) + 12 * length (options m)"
    by (simp add: h length_sd_payload)
  with h sd_message_read [OF assms] sd_serialize_bytes show ?thesis by metis
qed

lemma sd_example_fits: "sd_fits (add_subscribe_ack (add_offer_service SomeIpSdMessage 0x0101 0x0100007F 30501 3) 0x0102 5)"
  by (simp add: sd_fits_def add_subscribe_ack_def add_offer_service_def SomeIpSdMessage_def SdEntry_def entry_fits_def)

theorem sd_roundtrip_witness:
  "\<exists>bs h. sd_serialize (add_subscribe_ack (add_offer_service SomeIpSdMessage 0x0101 0x0100007F 30501 3) 0x0102 5) 9 = Some bs
     \<and> someip_next bs = Some (h, length bs) \<and> session_id h = 9
     \<and> sd_parse (payload h) = Some (add_subscribe_ack (add_offer_service SomeIpSdMessage 0x0101 0x0100007F 30501 3) 0x0102 5)"
  using sd_roundtrip [OF sd_example_fits, of 9] by blast

end
