(* ===== verification/Someip_Sd_Service.thy ===== *)
theory Someip_Sd_Service
  imports Someip_Sd
begin

text \<open>
  The service discovery endpoint (\<^verbatim>\<open>src/someip/someip_sd_service.hpp\<close>,
  \<^verbatim>\<open>someip_sd_service.cpp\<close>).

  \<^item> What the endpoint does to the outside (\<open>sendto\<close>, the subscription callback) is a list
    of outputs in program order; a failing \<open>sendto\<close> is ignored by the code.
  \<^item> \<open>inet\<close> is the C library's \<open>inet_addr\<close>; \<open>W\<close> is the width of \<open>size_t\<close>.
  \<^item> Only the bytes that \<open>recvfrom\<close> stored may be read: a read past them is \<open>None\<close>.
\<close>

section \<open>State\<close>

record sockaddr_in =
  sin_port :: u16
  sin_addr :: u32

record offered_service =
  offered_service_id :: u16
  offered_addr :: u32
  offered_port :: u16

record subscriber =
  sub_addr :: sockaddr_in
  sub_service_id :: u16
  sub_eventgroup_id :: u16

record sd_service =
  sd_session :: u16
  offered :: "offered_service list"
  subscribers :: "subscriber list"
  on_subscribe_set :: bool

definition SomeIpSdService :: sd_service where
  "SomeIpSdService = \<lparr>sd_session = 1, offered = [], subscribers = [], on_subscribe_set = False\<rparr>"

datatype sd_out = SendDatagram sockaddr_in "byte list" | OnSubscribe subscriber

section \<open>Operations\<close>

definition offer_service :: "(string \<Rightarrow> u32) \<Rightarrow> sd_service \<Rightarrow> u16 \<Rightarrow> string \<Rightarrow> u16 \<Rightarrow> sd_service" where
  "offer_service inet sd service local_ip port =
     sd\<lparr>offered := offered sd @ [\<lparr>offered_service_id = service, offered_addr = inet local_ip, offered_port = port\<rparr>]\<rparr>"

definition send_offers :: "(string \<Rightarrow> u32) \<Rightarrow> sd_service \<Rightarrow> (sd_service \<times> sd_out list) option" where
  "send_offers inet sd =
     (if offered sd = [] then Some (sd, [])
      else do {
        let sd_msg = foldl (\<lambda>m svc. add_offer_service m (offered_service_id svc) (offered_addr svc) (offered_port svc) 3)
                       SomeIpSdMessage (offered sd);
        bytes \<leftarrow> sd_serialize sd_msg (sd_session sd);
        let sd = sd\<lparr>sd_session := sd_session sd + 1\<rparr>;
        let dest = \<lparr>sin_port = htons SOMEIP_SD_PORT, sin_addr = inet SOMEIP_SD_MULTICAST\<rparr>;
        Some (sd, [SendDatagram dest bytes]) })"

definition send_subscribe_ack :: "sd_service \<Rightarrow> sockaddr_in \<Rightarrow> u16 \<Rightarrow> u16 \<Rightarrow> (sd_service \<times> sd_out list) option" where
  "send_subscribe_ack sd dest service eventgroup = do {
     let ack = add_subscribe_ack SomeIpSdMessage service eventgroup;
     bytes \<leftarrow> sd_serialize ack (sd_session sd);
     Some (sd\<lparr>sd_session := sd_session sd + 1\<rparr>, [SendDatagram dest bytes]) }"

text \<open>A two-byte integer copied out of the buffer and converted to host order.\<close>

definition read_net16 :: "byte list \<Rightarrow> nat \<Rightarrow> u16 option" where
  "read_net16 buf i = do { a \<leftarrow> rd buf i; b \<leftarrow> rd buf (i + 1); Some (ntohs (of_mem16 a b)) }"

text \<open>The loop over the entries: \<open>pos\<close> stays below the length of the buffer and does not wrap.\<close>

function entries_loop ::
  "byte list \<Rightarrow> sockaddr_in \<Rightarrow> nat \<Rightarrow> nat \<Rightarrow> sd_service \<Rightarrow> (sd_service \<times> sd_out list) option" where
  "entries_loop buf from_addr entries_end pos sd =
     (if pos + 16 \<le> entries_end \<and> pos + 16 \<le> length buf then do {
        etype \<leftarrow> rd buf pos;
        entry_svc_id \<leftarrow> read_net16 buf (pos + 4);
        evg_id \<leftarrow> read_net16 buf (pos + 14);
        (sd, out) \<leftarrow>
          (if etype = SD_ENTRY_SUBSCRIBE_EVENTGRP then do {
             let sub = \<lparr>sub_addr = from_addr, sub_service_id = entry_svc_id, sub_eventgroup_id = evg_id\<rparr>;
             let sd = sd\<lparr>subscribers := subscribers sd @ [sub]\<rparr>;
             (sd, out) \<leftarrow> send_subscribe_ack sd from_addr entry_svc_id evg_id;
             Some (sd, out @ (if on_subscribe_set sd then [OnSubscribe sub] else [])) }
           else Some (sd, []));
        (sd, out') \<leftarrow> entries_loop buf from_addr entries_end (pos + 16) sd;
        Some (sd, out @ out') }
      else Some (sd, []))"
  by pat_completeness auto
termination
  by (relation "measure (\<lambda>(buf, from_addr, entries_end, pos, sd). length buf - pos)") auto

declare entries_loop.simps [simp del]

definition handle_sd_message ::
  "nat \<Rightarrow> sd_service \<Rightarrow> byte list \<Rightarrow> sockaddr_in \<Rightarrow> (sd_service \<times> sd_out list) option" where
  "handle_sd_message W sd buf from_addr =
     (if length buf < 28 then Some (sd, [])
      else do {
        b0 \<leftarrow> rd buf 0; b1 \<leftarrow> rd buf 1; b2 \<leftarrow> rd buf 2; b3 \<leftarrow> rd buf 3;
        let svc_id = join16 b0 b1;
        let met_id = join16 b2 b3;
        if svc_id \<noteq> 0xFFFF \<or> met_id \<noteq> 0x8100 then Some (sd, [])
        else do {
          let pos = 16 + 4;
          a \<leftarrow> rd buf pos; b \<leftarrow> rd buf (pos + 1); c \<leftarrow> rd buf (pos + 2); d \<leftarrow> rd buf (pos + 3);
          let entries_len = ntohl (of_mem32 a b c d);
          let pos = pos + 4;
          let entries_end = (pos + unat entries_len) mod 2 ^ W;
          entries_loop buf from_addr entries_end pos sd } })"

text \<open>The reader callback: \<open>recvfrom\<close> failed (\<open>None\<close>) or stored a datagram of at most 1500 bytes.\<close>

definition sd_on_readable ::
  "nat \<Rightarrow> sd_service \<Rightarrow> (byte list \<times> sockaddr_in) option \<Rightarrow> (sd_service \<times> sd_out list) option" where
  "sd_on_readable W sd received =
     (case received of
        None \<Rightarrow> Some (sd, [])
      | Some (bytes, from_addr) \<Rightarrow> handle_sd_message W sd bytes from_addr)"

section \<open>Specification\<close>

text \<open>
  The subscription requests of a datagram, by position: the entries that lie both within the
  announced length of the entries array and within the datagram.
\<close>

definition entry_request :: "byte list \<Rightarrow> nat \<Rightarrow> (u16 \<times> u16) list" where
  "entry_request buf i =
     (let at_pos = \<lambda>k. buf ! (24 + 16 * i + k) in
      if at_pos 0 = 0x06 then [(join16 (at_pos 4) (at_pos 5), join16 (at_pos 14) (at_pos 15))] else [])"

definition is_sd :: "byte list \<Rightarrow> bool" where
  "is_sd buf \<longleftrightarrow> 28 \<le> length buf \<and> take 4 buf = [0xFF, 0xFF, 0x81, 0x00]"

definition announced :: "byte list \<Rightarrow> nat" where
  "announced buf = unat (join32 (buf ! 20) (buf ! 21) (buf ! 22) (buf ! 23))"

definition entry_count :: "nat \<Rightarrow> byte list \<Rightarrow> nat" where
  "entry_count W buf = (min ((24 + announced buf) mod 2 ^ W) (length buf) - 24) div 16"

definition sd_requests :: "nat \<Rightarrow> byte list \<Rightarrow> (u16 \<times> u16) list" where
  "sd_requests W buf =
     (if is_sd buf then concat (map (entry_request buf) [0..<entry_count W buf]) else [])"

text \<open>One request: a new subscriber, an acknowledgement with a fresh session, the callback.\<close>

definition ack_bytes :: "u16 \<Rightarrow> u16 \<times> u16 \<Rightarrow> byte list" where
  "ack_bytes session req = someip_bytes (sd_someip (add_subscribe_ack SomeIpSdMessage (fst req) (snd req)) session)"

definition accept_request :: "sockaddr_in \<Rightarrow> sd_service \<Rightarrow> u16 \<times> u16 \<Rightarrow> sd_service \<times> sd_out list" where
  "accept_request from_addr sd req =
     (let sub = \<lparr>sub_addr = from_addr, sub_service_id = fst req, sub_eventgroup_id = snd req\<rparr> in
      (sd\<lparr>subscribers := subscribers sd @ [sub], sd_session := sd_session sd + 1\<rparr>,
       SendDatagram from_addr (ack_bytes (sd_session sd) req) # (if on_subscribe_set sd then [OnSubscribe sub] else [])))"

lemma send_ack_bytes:
  "send_subscribe_ack sd dest s g = Some (sd\<lparr>sd_session := sd_session sd + 1\<rparr>, [SendDatagram dest (ack_bytes (sd_session sd) (s, g))])"
  by (simp add: send_subscribe_ack_def sd_serialize_bytes ack_bytes_def)

lemma read_net16_in: "i + 1 < length buf \<Longrightarrow> read_net16 buf i = Some (join16 (buf ! i) (buf ! (i + 1)))"
  by (simp add: read_net16_def ntohs_of_mem16)

lemma entry_count_iff: "i < (M - 24) div 16 \<longleftrightarrow> 24 + 16 * i + 16 \<le> (M :: nat)"
proof -
  have "i < (M - 24) div 16 \<longleftrightarrow> Suc i * 16 \<le> M - 24"
    by (simp add: less_eq_div_iff_mult_less_eq Suc_le_eq [symmetric] del: mult_Suc)
  then show ?thesis by auto
qed

lemma entries_loop_step:
  assumes "24 + 16 * i + 16 \<le> entries_end" and "24 + 16 * i + 16 \<le> length buf"
  shows "entries_loop buf from_addr entries_end (24 + 16 * i) sd =
     (case run_steps (accept_request from_addr) sd (entry_request buf i) of (sd', out) \<Rightarrow> do {
        (sd'', out') \<leftarrow> entries_loop buf from_addr entries_end (24 + 16 * Suc i) sd';
        Some (sd'', out @ out') })"
proof -
  have r: "rd buf (24 + 16 * i) = Some (buf ! (24 + 16 * i))"
    "read_net16 buf (24 + 16 * i + 4) = Some (join16 (buf ! (24 + 16 * i + 4)) (buf ! (24 + 16 * i + 5)))"
    "read_net16 buf (24 + 16 * i + 14) = Some (join16 (buf ! (24 + 16 * i + 14)) (buf ! (24 + 16 * i + 15)))"
    using assms(2) by (simp_all add: read_net16_in)
  have next_pos: "24 + 16 * i + 16 = 24 + 16 * Suc i" by simp
  show ?thesis
    unfolding entries_loop.simps [of buf from_addr entries_end "24 + 16 * i"] next_pos [symmetric] r
    using assms
    by (simp add: entry_request_def SD_ENTRY_SUBSCRIBE_EVENTGRP_def send_ack_bytes accept_request_def Let_def)
qed

lemma entries_loop_stop:
  "\<not> (pos + 16 \<le> entries_end \<and> pos + 16 \<le> length buf) \<Longrightarrow> entries_loop buf from_addr entries_end pos sd = Some (sd, [])"
  by (subst entries_loop.simps) (rule if_not_P)

lemma entries_loop_spec:
  "n = (min entries_end (length buf) - 24) div 16 \<Longrightarrow> i \<le> n \<Longrightarrow>
   entries_loop buf from_addr entries_end (24 + 16 * i) sd
     = Some (run_steps (accept_request from_addr) sd (concat (map (entry_request buf) [i..<n])))"
proof (induction "n - i" arbitrary: i sd)
  case 0
  then have "\<not> (24 + 16 * i + 16 \<le> min entries_end (length buf))"
    using entry_count_iff [of i "min entries_end (length buf)"] by simp
  then have "entries_loop buf from_addr entries_end (24 + 16 * i) sd = Some (sd, [])"
    by (intro entries_loop_stop) simp
  with 0 show ?case by simp
next
  case (Suc k)
  have less: "i < n" using Suc.hyps(2) by linarith
  then have bounds: "24 + 16 * i + 16 \<le> entries_end" "24 + 16 * i + 16 \<le> length buf"
    using entry_count_iff [of i "min entries_end (length buf)"] Suc.prems(1) by simp_all
  have IH: "entries_loop buf from_addr entries_end (24 + 16 * Suc i) sd'
      = Some (run_steps (accept_request from_addr) sd' (concat (map (entry_request buf) [Suc i..<n])))" for sd'
    using Suc.hyps(1) [OF _ Suc.prems(1)] Suc.hyps(2) less by (metis Suc_diff_Suc Suc_leI old.nat.inject)
  show ?case
    unfolding entries_loop_step [OF bounds] IH
    using less by (simp add: upt_conv_Cons run_steps_append split: prod.split)
qed

lemma handle_sd_spec:
  "handle_sd_message W sd buf from_addr = Some (run_steps (accept_request from_addr) sd (sd_requests W buf))"
proof (cases "28 \<le> length buf")
  case False
  then show ?thesis by (simp add: handle_sd_message_def sd_requests_def is_sd_def)
next
  case True
  have "4 \<le> length buf" using True by simp
  then obtain b0 b1 b2 b3 rest where buf: "buf = b0 # b1 # b2 # b3 # rest" by (rule length_ge_4E)
  have "be16 0xFFFF = [0xFF, 0xFF]" "be16 0x8100 = [0x81, 0x00]" by (simp_all add: be16_def drop_bit_eq_div)
  then have hdr: "is_sd buf \<longleftrightarrow> join16 b0 b1 = 0xFFFF \<and> join16 b2 b3 = 0x8100"
    using True by (auto simp: is_sd_def join16_eq_iff buf)
  have rds: "rd buf 0 = Some b0" "rd buf (Suc 0) = Some b1" "rd buf 2 = Some b2" "rd buf 3 = Some b3"
    "rd buf 20 = Some (buf ! 20)" "rd buf 21 = Some (buf ! 21)" "rd buf 22 = Some (buf ! 22)" "rd buf 23 = Some (buf ! 23)"
    using True by (simp_all add: rd_def) (simp_all add: buf)
  have loop: "entries_loop buf from_addr ((24 + announced buf) mod 2 ^ W) 24 sd
      = Some (run_steps (accept_request from_addr) sd (concat (map (entry_request buf) [0..<entry_count W buf])))"
    using entries_loop_spec [of "entry_count W buf" "(24 + announced buf) mod 2 ^ W" buf 0] by (simp add: entry_count_def)
  show ?thesis
  proof (cases "is_sd buf")
    case False
    with True hdr show ?thesis by (auto simp: handle_sd_message_def sd_requests_def rds Let_def)
  next
    case True
    with hdr \<open>28 \<le> length buf\<close> show ?thesis
      unfolding sd_requests_def handle_sd_message_def
      by (simp add: rds Let_def ntohl_of_mem32 loop [unfolded announced_def])
  qed
qed

section \<open>Event sequences\<close>

datatype sd_event = Offer u16 string u16 | SendOffers | Datagram "(byte list \<times> sockaddr_in) option"

fun sd_step :: "(string \<Rightarrow> u32) \<Rightarrow> nat \<Rightarrow> sd_service \<Rightarrow> sd_event \<Rightarrow> (sd_service \<times> sd_out list) option" where
  "sd_step inet W sd (Offer service ip port) = Some (offer_service inet sd service ip port, [])"
| "sd_step inet W sd SendOffers = send_offers inet sd"
| "sd_step inet W sd (Datagram received) = sd_on_readable W sd received"

text \<open>The offer message for a list of services.\<close>

definition offer_entry :: "nat \<Rightarrow> offered_service \<Rightarrow> sd_entry" where
  "offer_entry i svc = \<lparr>entry_type = 0x01, index_first = of_nat i, num_opts = 1, entry_service = offered_service_id svc,
     instance_id = 1, major_version = 1, ttl = 3, minor_version = 0, eventgroup_id = 0\<rparr>"

definition offer_option :: "offered_service \<Rightarrow> sd_option" where
  "offer_option svc = \<lparr>opt_type = 0x04, ipv4_addr = offered_addr svc, protocol = 0x11, opt_port = offered_port svc\<rparr>"

definition offers_message :: "offered_service list \<Rightarrow> sd_message" where
  "offers_message svcs = \<lparr>entries = map2 offer_entry [0..<length svcs] svcs, options = map offer_option svcs\<rparr>"

fun sd_spec :: "(string \<Rightarrow> u32) \<Rightarrow> nat \<Rightarrow> sd_service \<Rightarrow> sd_event \<Rightarrow> sd_service \<times> sd_out list" where
  "sd_spec inet W sd (Offer service ip port) = (offer_service inet sd service ip port, [])"
| "sd_spec inet W sd SendOffers =
     (if offered sd = [] then (sd, [])
      else (sd\<lparr>sd_session := sd_session sd + 1\<rparr>,
            [SendDatagram \<lparr>sin_port = htons SOMEIP_SD_PORT, sin_addr = inet SOMEIP_SD_MULTICAST\<rparr>
               (someip_bytes (sd_someip (offers_message (offered sd)) (sd_session sd)))]))"
| "sd_spec inet W sd (Datagram received) =
     (case received of
        None \<Rightarrow> (sd, [])
      | Some (bytes, from_addr) \<Rightarrow> run_steps (accept_request from_addr) sd (sd_requests W bytes))"

lemma foldl_offers:
  "foldl (\<lambda>m svc. add_offer_service m (offered_service_id svc) (offered_addr svc) (offered_port svc) 3)
     \<lparr>entries = es, options = os\<rparr> svcs
   = \<lparr>entries = es @ map2 offer_entry [length os..<length os + length svcs] svcs, options = os @ map offer_option svcs\<rparr>"
proof (induction svcs arbitrary: es os)
  case (Cons svc svcs)
  have "add_offer_service \<lparr>entries = es, options = os\<rparr> (offered_service_id svc) (offered_addr svc) (offered_port svc) 3
      = \<lparr>entries = es @ [offer_entry (length os) svc], options = os @ [offer_option svc]\<rparr>"
    by (simp add: add_offer_service_def offer_entry_def offer_option_def SdEntry_def SdOptionIpv4_def sd_consts)
  with Cons.IH [of "es @ [offer_entry (length os) svc]" "os @ [offer_option svc]"] show ?case
    by (simp add: upt_conv_Cons del: upt_Suc)
qed simp

lemma send_offers_spec: "send_offers inet sd = Some (sd_spec inet W sd SendOffers)"
  using foldl_offers [of "[]" "[]" "offered sd"]
  by (simp add: send_offers_def SomeIpSdMessage_def offers_message_def sd_serialize_bytes)

interpretation sd: machine_refinement "sd_step inet W" "\<lambda>_. True" "\<lambda>_. True" id "sd_spec inet W" for inet W
proof
  fix s :: sd_service and i
  have "sd_step inet W s i = Some (sd_spec inet W s i)"
    by (cases i) (auto simp: send_offers_spec [where W = W] sd_on_readable_def handle_sd_spec split: option.splits simp del: sd_spec.simps(2))
  then show "\<exists>s'. sd_step inet W s i = Some (s', snd (sd_spec inet W (id s) i)) \<and> id s' = fst (sd_spec inet W (id s) i) \<and> True"
    by simp
qed

section \<open>Session numbers\<close>

fun is_sent :: "sd_out \<Rightarrow> bool" where
  "is_sent (SendDatagram _ _) = True"
| "is_sent _ = False"

definition sd_stamped :: "u16 \<Rightarrow> sd_out \<Rightarrow> bool" where
  "sd_stamped sess out \<longleftrightarrow> (\<exists>dest m. out = SendDatagram dest (someip_bytes (sd_someip m sess)))"

interpretation accept_numbers: session_numbering "accept_request from_addr" sd_session is_sent sd_stamped for from_addr
  by unfold_locales (auto simp: accept_request_def Let_def sd_stamped_def ack_bytes_def)

interpretation sd_numbers: session_numbering "sd_spec inet W" sd_session is_sent sd_stamped for inet W
proof
  fix sd :: sd_service and ev :: sd_event and k
  show "sd_session (fst (sd_spec inet W sd ev)) = sd_session sd + of_nat (length (filter is_sent (snd (sd_spec inet W sd ev))))"
    by (cases ev) (auto simp: offer_service_def accept_numbers.run_counter split: option.splits)
  show "sd_stamped (sd_session sd + of_nat k) (filter is_sent (snd (sd_spec inet W sd ev)) ! k)"
    if "k < length (filter is_sent (snd (sd_spec inet W sd ev)))"
    using that
  proof (cases ev)
    case SendOffers
    with that show ?thesis by (auto simp: sd_stamped_def split: if_splits)
  next
    case (Datagram received)
    with that show ?thesis by (auto simp: accept_numbers.run_stamp split: option.splits)
  qed simp
qed

section \<open>What a datagram does\<close>

lemma accept_run:
  "run_steps (accept_request from_addr) sd reqs = (sd', out) \<Longrightarrow>
   subscribers sd' = subscribers sd @ map (\<lambda>(s, g). \<lparr>sub_addr = from_addr, sub_service_id = s, sub_eventgroup_id = g\<rparr>) reqs
   \<and> offered sd' = offered sd \<and> on_subscribe_set sd' = on_subscribe_set sd
   \<and> filter is_sent out = map (\<lambda>i. SendDatagram from_addr (ack_bytes (sd_session sd + of_nat i) (reqs ! i))) [0..<length reqs]"
proof (induction reqs arbitrary: sd out)
  case Nil
  then show ?case by simp
next
  case (Cons req reqs)
  obtain sd1 o1 where 1: "accept_request from_addr sd req = (sd1, o1)" by fastforce
  obtain o2 where 2: "run_steps (accept_request from_addr) sd1 reqs = (sd', o2)" "out = o1 @ o2"
    using Cons.prems 1 by (auto split: prod.splits)
  have sd1: "subscribers sd1 = subscribers sd @ [\<lparr>sub_addr = from_addr, sub_service_id = fst req, sub_eventgroup_id = snd req\<rparr>]"
    "offered sd1 = offered sd" "on_subscribe_set sd1 = on_subscribe_set sd" "sd_session sd1 = sd_session sd + 1"
    "filter is_sent o1 = [SendDatagram from_addr (ack_bytes (sd_session sd) req)]"
    using 1 by (auto simp: accept_request_def Let_def)
  have "map (\<lambda>i. SendDatagram from_addr (ack_bytes (sd_session sd + of_nat i) ((req # reqs) ! i))) [0..<Suc (length reqs)]
      = SendDatagram from_addr (ack_bytes (sd_session sd) req)
        # map (\<lambda>i. SendDatagram from_addr (ack_bytes (sd_session sd1 + of_nat i) (reqs ! i))) [0..<length reqs]"
    by (rule nth_equalityI) (auto simp: nth_Cons sd1 ac_simps split: nat.split simp del: upt_Suc)
  with Cons.IH [OF 2(1)] 2(2) sd1 show ?case by (simp add: case_prod_unfold)
qed

lemma length_requests: "length (sd_requests W buf) \<le> (length buf - 24) div 16"
proof -
  have "length (concat (map (entry_request buf) [0..<n])) \<le> n" for n
    by (induction n) (auto simp: entry_request_def Let_def)
  moreover have "entry_count W buf \<le> (length buf - 24) div 16"
    unfolding entry_count_def by (intro div_le_mono) simp
  ultimately show ?thesis unfolding sd_requests_def by (cases "is_sd buf") (auto intro: order_trans)
qed

text \<open>The requests of a message that arrives as it was serialised.\<close>

lemma drop_sd_bytes:
  "drop 24 (someip_bytes (sd_someip m sess)) = concat (map entry_bytes (entries m))
     @ be32 (of_nat (12 * length (options m))) @ concat (map option_bytes (options m))"
  by (simp add: someip_bytes_def sd_someip_def sd_payload_def)

lemma entry_bytes_nth:
  "entry_bytes e ! 0 = entry_type e"
  "join16 (entry_bytes e ! 4) (entry_bytes e ! 5) = entry_service e"
  "join16 (entry_bytes e ! 14) (entry_bytes e ! 15) = eventgroup_id e"
  using join16_be16 [of "entry_service e"] join16_be16 [of "eventgroup_id e"]
  by (simp_all add: entry_bytes_def be16_def)

lemma entry_request_bytes:
  assumes "i < length (entries m)"
  shows "entry_request (someip_bytes (sd_someip m sess)) i =
     (if entry_type (entries m ! i) = 0x06 then [(entry_service (entries m ! i), eventgroup_id (entries m ! i))] else [])"
proof -
  let ?b = "someip_bytes (sd_someip m sess)"
  have "?b ! (24 + 16 * i + k) = entry_bytes (entries m ! i) ! k" if "k < 16" for k
  proof -
    have "?b ! (24 + 16 * i + k) = drop 24 ?b ! (16 * i + k)"
      by (simp add: length_sd_payload sd_someip_def add.assoc)
    then show ?thesis using sd_entries.enc_nth [OF assms that] by (simp add: drop_sd_bytes)
  qed
  from this [of 0] this [of 4] this [of 5] this [of 14] this [of 15] show ?thesis
    by (simp add: entry_request_def Let_def entry_bytes_nth)
qed

lemma announced_bytes:
  assumes "16 * length (entries m) < 2 ^ 32"
  shows "announced (someip_bytes (sd_someip m sess)) = 16 * length (entries m)"
proof -
  let ?b = "someip_bytes (sd_someip m sess)"
  let ?w = "be32 (of_nat (16 * length (entries m)))"
  have d: "drop 20 ?b = ?w @ drop 24 ?b"
    by (simp add: someip_bytes_def sd_someip_def sd_payload_def)
  have "?b ! (20 + k) = drop 20 ?b ! k" for k
    by (simp add: length_sd_payload sd_someip_def)
  then have "?b ! (20 + k) = ?w ! k" if "k < 4" for k using that by (simp add: nth_append d)
  from this [of 0] this [of 1] this [of 2] this [of 3]
  show ?thesis
    using join32_be32 [of "of_nat (16 * length (entries m))"] unat_of_nat_u32 [OF assms]
    by (simp add: announced_def be32_def del: of_nat_mult)
qed

lemma is_sd_bytes: "is_sd (someip_bytes (sd_someip m sess))"
proof -
  have "be16 0xFFFF = [0xFF, 0xFF]" "be16 0x8100 = [0x81, 0x00]" by (simp_all add: be16_def drop_bit_eq_div)
  then show ?thesis by (simp add: is_sd_def length_sd_payload someip_bytes_def someip_header_def sd_someip_def)
qed

definition requests_of :: "sd_message \<Rightarrow> (u16 \<times> u16) list" where
  "requests_of m = map (\<lambda>e. (entry_service e, eventgroup_id e)) (filter (\<lambda>e. entry_type e = SD_ENTRY_SUBSCRIBE_EVENTGRP) (entries m))"

lemma concat_map_filter: "concat (map (\<lambda>e. if P e then [f e] else []) es) = map f (filter P es)"
  by (induction es) simp_all

lemma sd_requests_bytes:
  assumes "24 + 16 * length (entries m) < 2 ^ 32" and "32 \<le> W"
  shows "sd_requests W (someip_bytes (sd_someip m sess)) = requests_of m"
proof -
  let ?b = "someip_bytes (sd_someip m sess)" and ?n = "length (entries m)"
  have a: "announced ?b = 16 * ?n" using assms(1) by (intro announced_bytes) simp
  have "(2 :: nat) ^ 32 \<le> 2 ^ W" using assms(2) by (intro power_increasing) simp_all
  then have "(24 + announced ?b) mod 2 ^ W = 24 + 16 * ?n" using assms(1) a by simp
  then have "entry_count W ?b = ?n"
    by (simp add: entry_count_def length_sd_payload sd_someip_def)
  then have "sd_requests W ?b = concat (map (entry_request ?b) [0..<?n])"
    by (simp add: sd_requests_def is_sd_bytes)
  also have "map (entry_request ?b) [0..<?n] = map (\<lambda>e. if entry_type e = 0x06 then [(entry_service e, eventgroup_id e)] else []) (entries m)"
    by (rule nth_equalityI) (simp_all add: entry_request_bytes)
  also have "concat \<dots> = requests_of m"
    unfolding requests_of_def SD_ENTRY_SUBSCRIBE_EVENTGRP_def by (rule concat_map_filter)
  finally show ?thesis .
qed

section \<open>Properties\<close>

text \<open>
  C6: The endpoint implements its specification: for every sequence of offers, offer rounds and
  received datagrams, whatever bytes they hold, no access is out of bounds and every loop ends,
  and the endpoint ends in the state and produces the outputs of the specification, which reads
  the subscription requests of a datagram by position and answers each one in turn. The
  messages sent carry consecutive session numbers modulo \<open>2 ^ 16\<close>, offers and
  acknowledgements alike.
\<close>

theorem sd_service_refines:
  "\<exists>sd' out. try_steps (sd_step inet W) sd evs = Some (sd', out)
     \<and> run_steps (sd_spec inet W) sd evs = (sd', out)
     \<and> sd_session sd' = sd_session sd + of_nat (length (filter is_sent out))
     \<and> (\<forall>k<length (filter is_sent out). sd_stamped (sd_session sd + of_nat k) (filter is_sent out ! k))"
proof -
  obtain sd' out where r: "run_steps (sd_spec inet W) sd evs = (sd', out)" by fastforce
  have "try_steps (sd_step inet W) sd evs = Some (sd', out)" using sd.run_sim [of evs inet W sd] r by simp
  with r sd_numbers.run_counter [of inet W sd evs] sd_numbers.run_stamp [of _ inet W sd evs] show ?thesis by auto
qed

theorem sd_service_refines_witness:
  "\<exists>sd' out. try_steps (sd_step (\<lambda>ip. 0x0100007F) 64) SomeIpSdService
       [Offer 0x0101 ''127.0.0.1'' 30501, SendOffers, Datagram (Some (replicate 60 0xFF, \<lparr>sin_port = 1, sin_addr = 2\<rparr>))]
         = Some (sd', out) \<and> sd_session sd' = 1 + of_nat (length (filter is_sent out))"
proof -
  obtain sd' out where "try_steps (sd_step (\<lambda>ip. 0x0100007F) 64) SomeIpSdService
       [Offer 0x0101 ''127.0.0.1'' 30501, SendOffers, Datagram (Some (replicate 60 0xFF, \<lparr>sin_port = 1, sin_addr = 2\<rparr>))]
         = Some (sd', out)" "sd_session sd' = sd_session SomeIpSdService + of_nat (length (filter is_sent out))"
    using sd_service_refines [of "\<lambda>ip. 0x0100007F" 64 SomeIpSdService
      "[Offer 0x0101 ''127.0.0.1'' 30501, SendOffers, Datagram (Some (replicate 60 0xFF, \<lparr>sin_port = 1, sin_addr = 2\<rparr>))]"]
    by blast
  then show ?thesis by (auto simp: SomeIpSdService_def)
qed

text \<open>
  C21: Any datagram is handled safely and answered fairly. Whatever bytes arrive, handling them
  is defined; it adds some subscribers with the sender's address at the end of the list, at
  most one for every 16 bytes behind the header, sends exactly one acknowledgement per new
  subscriber, to the sender, and leaves the offered services alone. A datagram that is too
  short or has another service or method identifier changes nothing.
\<close>

theorem sd_datagram_effect:
  "\<exists>sd' out reqs. sd_on_readable W sd (Some (buf, from_addr)) = Some (sd', out)
     \<and> subscribers sd' = subscribers sd @ map (\<lambda>(s, g). \<lparr>sub_addr = from_addr, sub_service_id = s, sub_eventgroup_id = g\<rparr>) reqs
     \<and> filter is_sent out = map (\<lambda>i. SendDatagram from_addr (ack_bytes (sd_session sd + of_nat i) (reqs ! i))) [0..<length reqs]
     \<and> length reqs \<le> (length buf - 24) div 16 \<and> offered sd' = offered sd
     \<and> (\<not> is_sd buf \<longrightarrow> sd' = sd \<and> out = [])"
proof -
  obtain sd' out where r: "run_steps (accept_request from_addr) sd (sd_requests W buf) = (sd', out)" by fastforce
  have "\<not> is_sd buf \<longrightarrow> sd' = sd \<and> out = []" using r by (auto simp: sd_requests_def)
  with accept_run [OF r] length_requests [of W buf] r show ?thesis
    by (auto simp: sd_on_readable_def handle_sd_spec)
qed

theorem sd_datagram_effect_witness:
  "\<not> is_sd (replicate 40 0) \<and>
   sd_on_readable 64 SomeIpSdService (Some (replicate 40 0, \<lparr>sin_port = 1, sin_addr = 2\<rparr>)) = Some (SomeIpSdService, [])"
proof -
  have n: "\<not> is_sd (replicate 40 0)" by (auto simp: is_sd_def dest: arg_cong [where f = hd])
  then show ?thesis
    using sd_datagram_effect [of 64 SomeIpSdService "replicate 40 0" "\<lparr>sin_port = 1, sin_addr = 2\<rparr>"] by auto
qed

text \<open>
  A well-formed subscription is understood. When a service discovery message arrives as
  the serialiser of the gateway writes it, the endpoint registers exactly its subscribe
  entries, with their service and event group identifiers, in their order, and skips all
  others, on 32-bit and on 64-bit hosts.
\<close>

theorem sd_subscribe_roundtrip:
  assumes "24 + 16 * length (entries m) < 2 ^ 32" and "32 \<le> W"
  shows "\<exists>bytes sd' out. sd_serialize m sess = Some bytes
     \<and> sd_on_readable W sd (Some (bytes, from_addr)) = Some (sd', out)
     \<and> subscribers sd' = subscribers sd @ map (\<lambda>(s, g). \<lparr>sub_addr = from_addr, sub_service_id = s, sub_eventgroup_id = g\<rparr>) (requests_of m)
     \<and> length (filter is_sent out) = length (requests_of m)"
proof -
  obtain sd' out where r: "run_steps (accept_request from_addr) sd (requests_of m) = (sd', out)" by fastforce
  with accept_run [OF r] show ?thesis
    by (simp add: sd_serialize_bytes sd_on_readable_def handle_sd_spec sd_requests_bytes [OF assms])
qed

definition subscribe_example :: sd_message where
  "subscribe_example = \<lparr>entries = [SdEntry\<lparr>entry_type := 0x06, entry_service := 0x0101, eventgroup_id := 7\<rparr>, SdEntry], options = []\<rparr>"

theorem sd_subscribe_roundtrip_witness:
  "\<exists>bytes sd' out. sd_serialize subscribe_example 1 = Some bytes
     \<and> sd_on_readable 32 SomeIpSdService (Some (bytes, \<lparr>sin_port = 1, sin_addr = 2\<rparr>)) = Some (sd', out)
     \<and> subscribers sd' = [\<lparr>sub_addr = \<lparr>sin_port = 1, sin_addr = 2\<rparr>, sub_service_id = 0x0101, sub_eventgroup_id = 7\<rparr>]"
proof -
  have "requests_of subscribe_example = [(0x0101, 7)]"
    by (simp add: requests_of_def subscribe_example_def sd_consts SdEntry_def)
  then show ?thesis
    using sd_subscribe_roundtrip [of subscribe_example 32 1 SomeIpSdService "\<lparr>sin_port = 1, sin_addr = 2\<rparr>"]
    by (auto simp: SomeIpSdService_def subscribe_example_def)
qed

text \<open>
  C32: Offers point at their endpoints. With between one and 256 services offered, an offer round
  sends one message to the discovery group from which a receiver reads, for the \<open>i\<close>-th offered
  service, an offer entry with its identifier whose option index selects the endpoint option
  with the address and the port of that service.
\<close>

theorem sd_offers_endpoints:
  assumes "offered sd \<noteq> []" and "length (offered sd) \<le> 256"
  shows "\<exists>bytes h m. send_offers inet sd = Some (sd\<lparr>sd_session := sd_session sd + 1\<rparr>,
           [SendDatagram \<lparr>sin_port = htons SOMEIP_SD_PORT, sin_addr = inet SOMEIP_SD_MULTICAST\<rparr> bytes])
     \<and> someip_next bytes = Some (h, length bytes) \<and> sd_parse (payload h) = Some m
     \<and> length (entries m) = length (offered sd)
     \<and> (\<forall>i<length (offered sd). entry_type (entries m ! i) = SD_ENTRY_OFFER_SERVICE
          \<and> entry_service (entries m ! i) = offered_service_id (offered sd ! i)
          \<and> unat (index_first (entries m ! i)) < length (options m)
          \<and> ipv4_addr (options m ! unat (index_first (entries m ! i))) = offered_addr (offered sd ! i)
          \<and> opt_port (options m ! unat (index_first (entries m ! i))) = offered_port (offered sd ! i))"
proof -
  let ?m = "offers_message (offered sd)" and ?n = "length (offered sd)"
  have len: "length (entries ?m) = ?n" "length (options ?m) = ?n" by (simp_all add: offers_message_def)
  have "\<forall>e\<in>set (entries ?m). entry_fits e"
    by (auto simp: offers_message_def entry_fits_def offer_entry_def set_zip)
  then have "sd_fits ?m" using assms(2) len by (simp add: sd_fits_def)
  note h = sd_message_read [OF this, of "sd_session sd"]
  have "unat (of_nat i :: byte) = i" if "i < ?n" for i
    using that assms(2) by (simp add: unat_of_nat take_bit_eq_mod)
  then have "\<forall>i<?n. entry_type (entries ?m ! i) = SD_ENTRY_OFFER_SERVICE
          \<and> entry_service (entries ?m ! i) = offered_service_id (offered sd ! i)
          \<and> unat (index_first (entries ?m ! i)) < length (options ?m)
          \<and> ipv4_addr (options ?m ! unat (index_first (entries ?m ! i))) = offered_addr (offered sd ! i)
          \<and> opt_port (options ?m ! unat (index_first (entries ?m ! i))) = offered_port (offered sd ! i)"
    by (simp add: offers_message_def offer_entry_def offer_option_def sd_consts)
  with h len assms(1) show ?thesis by (simp add: send_offers_spec [where W = 64])
qed

theorem sd_offers_endpoints_witness:
  "\<exists>bytes h m. send_offers (\<lambda>ip. 0x0100007F) (offer_service (\<lambda>ip. 0x0100007F) SomeIpSdService 0x0101 ''127.0.0.1'' 30501)
       = Some (offer_service (\<lambda>ip. 0x0100007F) SomeIpSdService 0x0101 ''127.0.0.1'' 30501\<lparr>sd_session := 2\<rparr>,
           [SendDatagram \<lparr>sin_port = htons SOMEIP_SD_PORT, sin_addr = 0x0100007F\<rparr> bytes])
     \<and> someip_next bytes = Some (h, length bytes) \<and> sd_parse (payload h) = Some m \<and> length (entries m) = 1"
  using sd_offers_endpoints [of "offer_service (\<lambda>ip. 0x0100007F) SomeIpSdService 0x0101 ''127.0.0.1'' 30501" "\<lambda>ip. 0x0100007F"]
  by (auto simp: offer_service_def SomeIpSdService_def)

end
