(* ===== verification/Benchmark.thy ===== *)
theory Benchmark
  imports Signal_Decoder
begin

text \<open>
  Latency statistics (\<^verbatim>\<open>src/bench/benchmark.hpp\<close>). \<open>W\<close> is the width of \<open>size_t\<close>; a clock
  reading is an argument of the operation that takes it. \<open>None\<close> is undefined behaviour: the
  conversion of a double that does not fit \<open>size_t\<close>.
\<close>

section \<open>Clock and timer\<close>

definition now_ns :: "int \<Rightarrow> int \<Rightarrow> u64" where
  "now_ns tv_sec tv_nsec = of_int tv_sec * 1000000000 + of_int tv_nsec"

record timer =
  start_ns :: u64

definition Timer :: timer where
  "Timer = \<lparr>start_ns = 0\<rparr>"

definition timer_start :: "timer \<Rightarrow> u64 \<Rightarrow> timer" where
  "timer_start t now = t\<lparr>start_ns := now\<rparr>"

definition elapsed_ns :: "timer \<Rightarrow> u64 \<Rightarrow> u64" where
  "elapsed_ns t now = now - start_ns t"

definition elapsed_us :: "timer \<Rightarrow> u64 \<Rightarrow> u64" where
  "elapsed_us t now = (now - start_ns t) div 1000"

section \<open>Histogram\<close>

record histogram =
  samples :: "u64 list"
  max_samples :: nat
  total_count :: nat

definition LatencyHistogram :: "nat \<Rightarrow> histogram" where
  "LatencyHistogram max_n = \<lparr>samples = [], max_samples = max_n, total_count = 0\<rparr>"

definition hist_record :: "nat \<Rightarrow> histogram \<Rightarrow> u64 \<Rightarrow> histogram" where
  "hist_record W h latency =
     (let h = (if length (samples h) < max_samples h then h\<lparr>samples := samples h @ [latency]\<rparr> else h)
      in h\<lparr>total_count := (total_count h + 1) mod 2 ^ W\<rparr>)"

definition min_element :: "u64 list \<Rightarrow> u64" where
  "min_element xs = foldl (\<lambda>m y. if y < m then y else m) (hd xs) (tl xs)"

definition max_element :: "u64 list \<Rightarrow> u64" where
  "max_element xs = foldl (\<lambda>m y. if m < y then y else m) (hd xs) (tl xs)"

definition hist_min :: "histogram \<Rightarrow> u64" where
  "hist_min h = (if samples h = [] then 0 else min_element (samples h))"

definition hist_max :: "histogram \<Rightarrow> u64" where
  "hist_max h = (if samples h = [] then 0 else max_element (samples h))"

definition hist_mean :: "histogram \<Rightarrow> fp" where
  "hist_mean h =
     (if samples h = [] then Fin False 0 (emin binary64)
      else let total_sum = foldl (+) 0 (samples h)
           in fp_div binary64 (fp_of_int binary64 (uint total_sum)) (fp_of_int binary64 (int (length (samples h)))))"

definition size_t_of_double :: "nat \<Rightarrow> fp \<Rightarrow> nat option" where
  "size_t_of_double W x =
     (case fp_trunc x of None \<Rightarrow> None | Some k \<Rightarrow> if 0 \<le> k \<and> k < 2 ^ W then Some (nat k) else None)"

definition percentile :: "nat \<Rightarrow> histogram \<Rightarrow> fp \<Rightarrow> u64 option" where
  "percentile W h p =
     (if samples h = [] then Some 0
      else do {
        let sorted_samples = sort (samples h);
        idx \<leftarrow> size_t_of_double W (fp_mul binary64 (fp_div binary64 p (fp_of_int binary64 100))
                                     (fp_of_int binary64 (int (length sorted_samples))));
        let idx = (if length sorted_samples \<le> idx then length sorted_samples - 1 else idx);
        Some (sorted_samples ! idx) })"

definition p50 :: "nat \<Rightarrow> histogram \<Rightarrow> u64 option" where "p50 W h = percentile W h (fp_of_int binary64 50)"
definition p95 :: "nat \<Rightarrow> histogram \<Rightarrow> u64 option" where "p95 W h = percentile W h (fp_of_int binary64 95)"
definition p99 :: "nat \<Rightarrow> histogram \<Rightarrow> u64 option" where "p99 W h = percentile W h (fp_of_int binary64 99)"

definition hist_count :: "histogram \<Rightarrow> nat" where "hist_count h = total_count h"
definition sample_count :: "histogram \<Rightarrow> nat" where "sample_count h = length (samples h)"

definition hist_reset :: "histogram \<Rightarrow> histogram" where
  "hist_reset h = h\<lparr>samples := [], total_count := 0\<rparr>"

section \<open>Collector\<close>

record collector =
  histograms :: "string \<rightharpoonup> histogram"
  total_messages :: nat

definition BenchmarkCollector :: collector where
  "BenchmarkCollector = \<lparr>histograms = Map.empty, total_messages = 0\<rparr>"

text \<open>\<open>histograms_[event]\<close> inserts a histogram of the default size if there is none.\<close>

definition bench_record :: "nat \<Rightarrow> collector \<Rightarrow> string \<Rightarrow> u64 \<Rightarrow> collector" where
  "bench_record W c event latency =
     (let h = (case histograms c event of None \<Rightarrow> LatencyHistogram 10000 | Some h \<Rightarrow> h)
      in c\<lparr>histograms := (histograms c)(event \<mapsto> hist_record W h latency),
           total_messages := (total_messages c + 1) mod 2 ^ W\<rparr>)"

definition bench_get :: "collector \<Rightarrow> string \<Rightarrow> histogram option" where
  "bench_get c event = histograms c event"

definition bench_reset :: "collector \<Rightarrow> collector" where
  "bench_reset c = c\<lparr>histograms := (\<lambda>event. map_option hist_reset (histograms c event)), total_messages := 0\<rparr>"

section \<open>Minimum, maximum and counting\<close>

lemma foldl_min: "foldl (\<lambda>m y. if y < m then y else m) a xs = Min (set (a # xs))" for a :: u64
proof (induction xs arbitrary: a)
  case (Cons x xs)
  have "Min (insert (if x < a then x else a) (set xs)) = Min (insert a (insert x (set xs)))"
    by (cases "set xs = {}") (auto simp: Min_insert min_def)
  with Cons show ?case by simp
qed simp

lemma foldl_max: "foldl (\<lambda>m y. if m < y then y else m) a xs = Max (set (a # xs))" for a :: u64
proof (induction xs arbitrary: a)
  case (Cons x xs)
  have "Max (insert (if a < x then x else a) (set xs)) = Max (insert a (insert x (set xs)))"
    by (cases "set xs = {}") (auto simp: Max_insert max_def)
  with Cons show ?case by simp
qed simp

lemma min_element_Min: "xs \<noteq> [] \<Longrightarrow> min_element xs = Min (set xs)"
  by (cases xs) (simp_all add: min_element_def foldl_min)

lemma max_element_Max: "xs \<noteq> [] \<Longrightarrow> max_element xs = Max (set xs)"
  by (cases xs) (simp_all add: max_element_def foldl_max)

lemma hist_record_run:
  "length (samples h) \<le> max_samples h \<Longrightarrow>
   foldl (hist_record W) h xs = h\<lparr>samples := take (max_samples h) (samples h @ xs),
     total_count := (if xs = [] then total_count h else (total_count h + length xs) mod 2 ^ W)\<rparr>"
proof (induction xs arbitrary: h)
  case Nil
  then show ?case by simp
next
  case (Cons x xs)
  let ?h = "hist_record W h x"
  have h: "samples ?h = take (max_samples h) (samples h @ [x])" "max_samples ?h = max_samples h"
    "total_count ?h = (total_count h + 1) mod 2 ^ W" "length (samples ?h) \<le> max_samples h"
    using Cons.prems by (auto simp: hist_record_def Let_def)
  have "take (max_samples h) (samples ?h @ xs) = take (max_samples h) (samples h @ x # xs)"
    unfolding h by (cases "length (samples h) = max_samples h") (use Cons.prems in auto)
  moreover have "?h\<lparr>samples := s, total_count := t\<rparr> = h\<lparr>samples := s, total_count := t\<rparr>" for s t
    by (simp add: hist_record_def Let_def)
  ultimately show ?case
    using Cons.IH [of ?h] h by (simp add: mod_simps)
qed

definition values_of :: "string \<Rightarrow> (string \<times> u64) list \<Rightarrow> u64 list" where
  "values_of event recs = map snd (filter (\<lambda>r. fst r = event) recs)"

definition record_all :: "nat \<Rightarrow> collector \<Rightarrow> (string \<times> u64) list \<Rightarrow> collector" where
  "record_all W c recs = foldl (\<lambda>c (event, v). bench_record W c event v) c recs"

lemma record_all_get:
  "histograms (record_all W c recs) event =
     (if values_of event recs = [] then histograms c event
      else Some (foldl (hist_record W) (case histograms c event of None \<Rightarrow> LatencyHistogram 10000 | Some h \<Rightarrow> h)
                   (values_of event recs)))"
proof (induction recs arbitrary: c)
  case Nil
  then show ?case by (simp add: record_all_def values_of_def)
next
  case (Cons r recs)
  have "record_all W c (r # recs) = record_all W (bench_record W c (fst r) (snd r)) recs"
    by (simp add: record_all_def case_prod_unfold)
  with Cons [of "bench_record W c (fst r) (snd r)"] show ?case
    by (auto simp: values_of_def bench_record_def Let_def)
qed

lemma record_all_total:
  "recs \<noteq> [] \<Longrightarrow> total_messages (record_all W c recs) = (total_messages c + length recs) mod 2 ^ W"
proof (induction recs arbitrary: c)
  case (Cons r recs)
  have "record_all W c (r # recs) = record_all W (bench_record W c (fst r) (snd r)) recs"
    by (simp add: record_all_def case_prod_unfold)
  with Cons.IH [of "bench_record W c (fst r) (snd r)"] show ?case
    by (cases "recs = []") (simp_all add: bench_record_def record_all_def Let_def mod_simps)
qed simp

section \<open>Floating-point indices and means\<close>

lemma percent_quotients:
  "fp_div binary64 (fp_of_int binary64 50) (fp_of_int binary64 100) = Fin False 4503599627370496 (-53)"
  "fp_div binary64 (fp_of_int binary64 95) (fp_of_int binary64 100) = Fin False 8556839292003942 (-53)"
  "fp_div binary64 (fp_of_int binary64 99) (fp_of_int binary64 100) = Fin False 8917127262193582 (-53)"
  by (simp_all add: fp_eval)

lemma count_exact:
  assumes "n < 2 ^ 53" obtains b f where "fp_of_int binary64 (int n) = Fin False b f" and "fval (Fin False b f) = real n"
proof -
  have "representable binary64 (of_int (int n))"
    unfolding representable_def using assms by (intro exI [of _ n] exI [of _ 0]) (simp add: binary64_def)
  then have "finite_as binary64 (fp_of_int binary64 (int n)) (of_int (int n))"
    by (rule fp_of_int_exact [OF fmt_ok_formats(1)])
  then obtain s b f where b: "fp_of_int binary64 (int n) = Fin s b f" "fval (Fin s b f) = real n"
    by (auto simp: finite_as_def)
  have "\<not> s" 
  proof
    assume s
    then show False using b(1) by (auto simp: fp_of_int_def round_ratio_def Let_def split: if_splits prod.splits)
  qed
  with that b show ?thesis by simp
qed

text \<open>The product of a positive double and a positive count, rounded.\<close>

lemma fp_mul_count:
  assumes q: "q = Fin False a e" "0 < fval q" "fval q \<le> 1" and n: "0 < n" "n < 2 ^ 53"
  shows "\<exists>m g n' d'. fp_mul binary64 q (fp_of_int binary64 (int n)) = Fin False m g
     \<and> fval (Fin False m g) = rval binary64 n' d' \<and> rval binary64 n' d' \<le> real n
     \<and> 0 < n' \<and> 0 < d' \<and> real n' / real d' = fval q * real n"
proof -
  obtain b f where b: "fp_of_int binary64 (int n) = Fin False b f" "fval (Fin False b f) = real n"
    using n(2) by (rule count_exact)
  obtain n' d' where r: "round_scaled binary64 False (a * b) 1 (e + f) = round_ratio binary64 False n' d'" "0 < d'"
    "real n' / real d' = real (a * b) / real 1 * 2 powi (e + f)" "0 < n' \<longleftrightarrow> 0 < a * b"
    by (rule round_scaled_ratio [of 1 binary64 False "a * b" "e + f"]) simp_all
  have prod: "real n' / real d' = fval q * real n"
    using r(3) b(2) unfolding q(1) by (simp add: fval_def power_int_add)
  have pos: "0 < n'" using prod q(2) n(1) r(2) by (metis divide_pos_pos mult_pos_pos of_nat_0_less_iff zero_less_divide_iff not_less of_nat_less_0_iff)
  have "rval binary64 n' d' \<le> rval binary64 n 1"
    using pos r(2) n(1) prod q(3) by (intro rval_mono) (auto simp: binary64_def mult_left_le_one_le)
  also have "rval binary64 n 1 = real n / real 1"
    using n by (intro rval_exact [where m = n and e = 0]) (auto simp: binary64_def)
  finally have le: "rval binary64 n' d' \<le> real n" by simp
  have "rval binary64 n' d' < 2 powi (emax binary64 + int (prec binary64))"
  proof -
    have "real n < 2 powi 53" using n(2) by (simp add: power_int_def)
    also have "(2::real) powi 53 \<le> 2 powi (emax binary64 + int (prec binary64))" by (simp add: binary64_def)
    finally show ?thesis using le by simp
  qed
  then obtain m g where m: "round_ratio binary64 False n' d' = Fin False m g" "real m * 2 powi g = rval binary64 n' d'"
    using round_ratio_value [OF fmt_ok_formats(1) pos r(2), of False] by auto
  have "fp_mul binary64 q (fp_of_int binary64 (int n)) = Fin False m g"
    unfolding q(1) b(1) fp_mul.simps using r(1) m(1) by simp
  moreover have "fval (Fin False m g) = rval binary64 n' d'" by (simp add: fval_def m(2))
  ultimately show ?thesis using le pos r(2) prod by blast
qed

text \<open>The index of a percentile stays within the samples.\<close>

definition pindex :: "fp \<Rightarrow> nat \<Rightarrow> nat" where
  "pindex q n = nat \<lfloor>fval (fp_mul binary64 q (fp_of_int binary64 (int n)))\<rfloor>"

lemma pindex:
  assumes q: "q = Fin False a e" "0 < fval q" "fval q \<le> 1" and n: "0 < n" "n < 2 ^ 53" "n < 2 ^ W"
  shows "size_t_of_double W (fp_mul binary64 q (fp_of_int binary64 (int n))) = Some (pindex q n)"
proof -
  obtain m g n' d' where m: "fp_mul binary64 q (fp_of_int binary64 (int n)) = Fin False m g"
    "fval (Fin False m g) \<le> real n"
    using fp_mul_count [OF q n(1,2)] by metis
  have "\<lfloor>fval (Fin False m g)\<rfloor> \<le> int n" using m(2) by linarith
  moreover have "0 \<le> \<lfloor>fval (Fin False m g)\<rfloor>" by (simp add: fval_def)
  moreover have "int n < 2 ^ W" using n(3) by (metis of_nat_less_iff of_nat_numeral of_nat_power)
  ultimately have "0 \<le> \<lfloor>fval (Fin False m g)\<rfloor> \<and> \<lfloor>fval (Fin False m g)\<rfloor> < 2 ^ W" by linarith
  then show ?thesis
    unfolding size_t_of_double_def pindex_def m(1) fp_trunc_nonneg by simp
qed

text \<open>The double product is off by less than a step of the index: the index is the quotient of integers.\<close>

lemma pindex_percent:
  assumes q: "q = Fin False a e" "0 < fval q" "fval q \<le> real p / 100" "(real p / 100 - fval q) * 2 ^ 54 \<le> fval q"
    and n: "0 < n" "n < 2 ^ 45" and p: "p \<le> 100"
  shows "pindex q n = p * n div 100"
proof -
  define k where "k = p * n div 100"
  have "fval q \<le> 1" using q(3) p by simp
  moreover have "n < 2 ^ 53" using n(2) by simp
  ultimately obtain m g n' d' where m: "fp_mul binary64 q (fp_of_int binary64 (int n)) = Fin False m g"
    "fval (Fin False m g) = rval binary64 n' d'" "0 < n'" "0 < d'" "real n' / real d' = fval q * real n"
    using fp_mul_count [OF q(1,2) _ n(1)] by blast
  let ?x = "real n' / real d'"
  have mod: "real p * real n = 100 * real k + real (p * n mod 100)"
    unfolding k_def by (metis of_nat_add of_nat_mult mult_div_mod_eq of_nat_numeral)
  have r: "p * n mod 100 < 100" by simp
  have "real (p * n mod 100) \<le> 99" using r by (simp flip: of_nat_le_iff)
  have close: "(real p * real n / 100 - ?x) * 2 ^ 54 \<le> ?x"
    using mult_right_mono [OF q(4), of "real n"] by (simp add: m(5) algebra_simps)
  have below: "?x \<le> real p * real n / 100" using mult_right_mono [OF q(3), of "real n"] by (simp add: m(5))
  have "real p * real n / 100 \<le> real n" using p mult_right_mono [of "real p" 100 "real n"] by simp
  with below have xn: "?x \<le> real n" by linarith
  have nr: "real n < 2 ^ 45" using n(2) by (metis of_nat_less_iff of_nat_numeral of_nat_power)
  have kn: "k \<le> n" unfolding k_def using p by (simp add: div_le_mono mult_le_mono1 less_mult_imp_div_less order_trans [OF div_le_mono [OF mult_le_mono1 [OF p]]])
  have "rval binary64 n' d' \<le> rval binary64 (128 * k + 127) 128"
  proof (intro rval_mono)
    have "?x \<le> real k + 99 / 100" using below mod \<open>real (p * n mod 100) \<le> 99\<close> by linarith
    then show "?x \<le> real (128 * k + 127) / real 128" by simp
  qed (use m in \<open>simp_all add: binary64_def\<close>)
  also have "\<dots> = real (128 * k + 127) / real 128"
    using kn n(2) by (intro rval_exact [where m = "128 * k + 127" and e = "-7"]) (simp_all add: binary64_def power_int_def power_divide)
  finally have up: "rval binary64 n' d' < real k + 1" by simp
  have lo: "real k \<le> rval binary64 n' d'"
  proof (cases "p * n mod 100 = 0")
    case True
    have "?x < 2 ^ 53" using xn nr by simp
    moreover have "\<bar>?x - real k\<bar> * 2 ^ 54 \<le> ?x" using True mod close below by simp
    ultimately show ?thesis using rval_near [OF m(3,4)] by simp
  next
    case False
    then have "1 \<le> real (p * n mod 100)" by (simp flip: of_nat_le_iff)
    then have "real k + 1 / 100 \<le> real p * real n / 100" using mod by simp
    moreover have "y < 1 / 100" if "y * 2 ^ 54 < 2 ^ 45" for y :: real using that by simp
    then have "real p * real n / 100 - ?x < 1 / 100" using close xn nr by (meson le_less_trans)
    ultimately have "real k \<le> ?x" by linarith
    show ?thesis
    proof (cases "k = 0")
      case True
      then show ?thesis using rsig_bounds(1) [OF m(3,4)] by (simp add: rval_def)
    next
      case False
      then have "rval binary64 k 1 \<le> rval binary64 n' d'"
        using \<open>real k \<le> ?x\<close> m by (intro rval_mono) (simp_all add: binary64_def)
      moreover have "rval binary64 k 1 = real k / real 1"
        using False kn n(2) by (intro rval_exact [where m = k and e = 0]) (simp_all add: binary64_def)
      ultimately show ?thesis by simp
    qed
  qed
  have "\<lfloor>rval binary64 n' d'\<rfloor> = int k" using lo up by (simp add: floor_eq_iff)
  then show ?thesis unfolding pindex_def m(1,2) by (simp add: k_def)
qed

lemma clamp_index: "0 < n \<Longrightarrow> (if n \<le> k then n - 1 else k) = min k (n - 1)" for n k :: nat
  by auto

lemma percentile_index:
  assumes "samples h \<noteq> []" and "length (samples h) < 2 ^ 53" and "length (samples h) < 2 ^ W"
    and q: "fp_div binary64 p (fp_of_int binary64 100) = Fin False a e" "0 < fval (Fin False a e)" "fval (Fin False a e) \<le> 1"
  shows "percentile W h p = Some (sort (samples h) ! min (pindex (Fin False a e) (length (samples h))) (length (samples h) - 1))"
proof -
  have "size_t_of_double W (fp_mul binary64 (Fin False a e) (fp_of_int binary64 (int (length (samples h)))))
      = Some (pindex (Fin False a e) (length (samples h)))"
    using assms by (intro pindex) simp_all
  moreover have "0 < length (samples h)" using assms(1) by simp
  ultimately show ?thesis using assms(1) by (simp add: percentile_def q(1) Let_def clamp_index del: One_nat_def)
qed

lemma percentile_nth:
  assumes "samples h \<noteq> []" and "length (samples h) < 2 ^ 45" and "length (samples h) < 2 ^ W" and "p < 100"
    and q: "fp_div binary64 x (fp_of_int binary64 100) = Fin False a e" "0 < fval (Fin False a e)"
      "fval (Fin False a e) \<le> real p / 100" "(real p / 100 - fval (Fin False a e)) * 2 ^ 54 \<le> fval (Fin False a e)"
  shows "percentile W h x = Some (sort (samples h) ! (p * length (samples h) div 100))"
proof -
  let ?n = "length (samples h)"
  have n: "0 < ?n" using assms(1) by simp
  have "p * ?n div 100 < ?n" using n assms(4) by (simp add: div_less_iff_less_mult)
  moreover have "pindex (Fin False a e) ?n = p * ?n div 100"
    using n assms(2,4) q by (intro pindex_percent) simp_all
  moreover have "fval (Fin False a e) \<le> 1" using q(3) assms(4) by simp
  ultimately show ?thesis using percentile_index [OF assms(1) _ assms(3) q(1,2)] assms(2) by (simp add: min_absorb1)
qed

lemma sorted_nth_bounds:
  assumes "xs \<noteq> []" and "i < length xs"
  shows "min_element xs \<le> sort xs ! i" and "sort xs ! i \<le> max_element xs" and "sort xs ! i \<in> set xs"
proof -
  have "sort xs ! i \<in> set (sort xs)" using assms(2) by (intro nth_mem) simp
  then show m: "sort xs ! i \<in> set xs" by simp
  show "min_element xs \<le> sort xs ! i" "sort xs ! i \<le> max_element xs"
    using m assms(1) by (simp_all add: min_element_Min max_element_Max)
qed

lemma sorted_ends:
  assumes "xs \<noteq> []"
  shows "min_element xs = sort xs ! 0" and "max_element xs = sort xs ! (length xs - 1)"
proof -
  have le: "sort xs ! i \<le> sort xs ! j" if "i \<le> j" "j < length xs" for i j using that by (simp add: sorted_nth_mono)
  have "min_element xs \<in> set (sort xs)" "max_element xs \<in> set (sort xs)"
    using assms by (simp_all add: min_element_Min max_element_Max)
  then obtain i j where "i < length xs" "sort xs ! i = min_element xs" "j < length xs" "sort xs ! j = max_element xs"
    by (metis in_set_conv_nth length_sort)
  then show "min_element xs = sort xs ! 0" "max_element xs = sort xs ! (length xs - 1)"
    using sorted_nth_bounds [OF assms] le [of 0 i] le [of j "length xs - 1"] assms by (auto intro!: antisym)
qed

lemma percent_fvals:
  "fval (Fin False 4503599627370496 (-53)) = 0.5"
  "fval (Fin False 8556839292003942 (-53)) = 8556839292003942 / 2 ^ 53"
  "fval (Fin False 8917127262193582 (-53)) = 8917127262193582 / 2 ^ 53"
  by (simp_all add: fval_def power_int_def power_divide)

lemma sum_no_wrap:
  fixes a :: u64
  assumes "unat a + sum_list (map unat xs) < 2 ^ 64"
  shows "unat (foldl (+) a xs) = unat a + sum_list (map unat xs)"
  using assms
proof (induction xs arbitrary: a)
  case (Cons x xs)
  have "unat (a + x) = unat a + unat x"
    using Cons.prems by (simp add: unat_word_ariths take_bit_eq_mod)
  with Cons show ?case by simp
qed simp

lemma sum_list_bounds:
  fixes xs :: "u64 list"
  shows "unat (min_element xs) * length xs \<le> sum_list (map unat xs)"
    and "sum_list (map unat xs) \<le> unat (max_element xs) * length xs"
proof -
  have "unat (min_element xs) \<le> unat x \<and> unat x \<le> unat (max_element xs)" if "x \<in> set xs" for x
  proof -
    have "xs \<noteq> []" using that by auto
    with that show ?thesis by (simp add: min_element_Min max_element_Max flip: word_le_nat_alt)
  qed
  then have "\<forall>x\<in>set xs. unat (min_element xs) \<le> unat x" "\<forall>x\<in>set xs. unat x \<le> unat (max_element xs)" by auto
  then have "sum_list (map (\<lambda>_. unat (min_element xs)) xs) \<le> sum_list (map unat xs)"
    "sum_list (map unat xs) \<le> sum_list (map (\<lambda>_. unat (max_element xs)) xs)"
    by (auto intro: sum_list_mono)
  then show "unat (min_element xs) * length xs \<le> sum_list (map unat xs)"
    "sum_list (map unat xs) \<le> unat (max_element xs) * length xs"
    by (simp_all add: sum_list_triv mult.commute)
qed

text \<open>The quotient of two counts, rounded, lies between two counts that bound it.\<close>

lemma fp_div_counts:
  assumes "S < 2 ^ 53" and "0 < n" and "n < 2 ^ 53" and "lo * n \<le> S" and "S \<le> hi * n" and "hi < 2 ^ 53"
  defines "q \<equiv> fp_div binary64 (fp_of_int binary64 (int S)) (fp_of_int binary64 (int n))"
  shows "fp_finite q \<and> real lo \<le> fval q \<and> fval q \<le> real hi"
proof -
  obtain a e where a: "fp_of_int binary64 (int S) = Fin False a e" "fval (Fin False a e) = real S"
    using assms(1) by (rule count_exact)
  obtain b f where b: "fp_of_int binary64 (int n) = Fin False b f" "fval (Fin False b f) = real n"
    using assms(3) by (rule count_exact)
  have b0: "0 < b" using b(2) assms(2) by (cases b) (simp_all add: fval_def)
  obtain n' d' where r: "round_scaled binary64 False a b (e - f) = round_ratio binary64 False n' d'" "0 < d'"
    "real n' / real d' = real a / real b * 2 powi (e - f)" "0 < n' \<longleftrightarrow> 0 < a"
    using b0 by (rule round_scaled_ratio [of b binary64 False a "e - f"])
  have q: "q = round_ratio binary64 False n' d'" using b0 by (simp add: q_def a b r(1))
  have ratio: "real n' / real d' = real S / real n"
    unfolding r(3) a(2) [symmetric] b(2) [symmetric] by (simp add: fval_def power_int_diff)
  show ?thesis
  proof (cases "S = 0")
    case True
    then have "n' = 0" using ratio r(2) assms(2) by simp
    moreover have "lo = 0" using True assms(2,4) by simp
    ultimately show ?thesis by (simp add: q round_ratio_def fp_finite_def fval_def)
  next
    case False
    then have pos: "0 < n'" using ratio r(2) assms(2) by (cases "n' = 0") simp_all
    have exact: "rval binary64 k 1 = real k" if "0 < k" "k < 2 ^ 53" for k
      using that rval_exact [of k 1 k 0 binary64] by (simp add: binary64_def)
    have hi: "0 < hi" using False assms(5) by (cases hi) simp_all
    have le_hi: "rval binary64 n' d' \<le> rval binary64 hi 1"
      using pos r(2) hi ratio assms(2,5)
      by (intro rval_mono) (simp_all add: binary64_def divide_le_eq flip: of_nat_mult)
    have ge_lo: "real lo \<le> rval binary64 n' d'"
    proof (cases "lo = 0")
      case True
      then show ?thesis using rsig_bounds(1) [OF pos r(2)] by (simp add: rval_def)
    next
      case False
      then have "lo < 2 ^ 53" using assms(1,2,4) by (metis le_less_trans mult_le_mono2 nat_mult_1_right Suc_leI One_nat_def)
      moreover have "rval binary64 lo 1 \<le> rval binary64 n' d'"
        using pos r(2) False ratio assms(2,4)
        by (intro rval_mono) (simp_all add: binary64_def le_divide_eq flip: of_nat_mult)
      ultimately show ?thesis using exact [of lo] False by simp
    qed
    have "rval binary64 n' d' < 2 powi (emax binary64 + int (prec binary64))"
    proof -
      have "real hi < 2 powi 53" using assms(6) by (simp add: power_int_def)
      also have "(2::real) powi 53 \<le> 2 powi (emax binary64 + int (prec binary64))" by (simp add: binary64_def)
      finally show ?thesis using le_hi exact [OF hi assms(6)] by simp
    qed
    then obtain m g where "q = Fin False m g" "real m * 2 powi g = rval binary64 n' d'"
      using round_ratio_value [OF fmt_ok_formats(1) pos r(2), of False] q by auto
    then show ?thesis using ge_lo le_hi exact [OF hi assms(6)] by (simp add: fp_finite_def fval_def)
  qed
qed

section \<open>Properties\<close>

text \<open>
  C17: The percentiles are order statistics. For a histogram with \<open>n\<close> samples (fewer than
  \<open>2 ^ 45\<close>; a histogram of the gateway keeps 10000) the double-precision index is defined and
  exact: the median, the 95th and the 99th percentile are the elements of the sorted samples at
  the indices \<open>n div 2\<close>, \<open>95 * n div 100\<close> and \<open>99 * n div 100\<close>, the rounding of \<open>p / 100.0 * n\<close>
  never moving an index; minimum and maximum are the first and the last, and the five values
  come out in ascending order.
\<close>

theorem hist_percentiles:
  assumes "s = sort (samples h)" and "n = length (samples h)" and "0 < n" and "n < 2 ^ 45" and "n < 2 ^ W"
  shows "p50 W h = Some (s ! (n div 2)) \<and> p95 W h = Some (s ! (95 * n div 100)) \<and> p99 W h = Some (s ! (99 * n div 100))
     \<and> hist_min h = s ! 0 \<and> hist_max h = s ! (n - 1)
     \<and> hist_min h \<le> s ! (n div 2) \<and> s ! (n div 2) \<le> s ! (95 * n div 100)
     \<and> s ! (95 * n div 100) \<le> s ! (99 * n div 100) \<and> s ! (99 * n div 100) \<le> hist_max h"
proof -
  have ne: "samples h \<noteq> []" using assms(2,3) by auto
  note pc = percentile_nth [OF ne assms(4,5) [unfolded assms(2)], folded assms(1,2)]
  have "p50 W h = Some (s ! (50 * n div 100))" unfolding p50_def
    by (rule pc [OF _ percent_quotients(1)]) (simp_all add: percent_fvals)
  moreover have "p95 W h = Some (s ! (95 * n div 100))" unfolding p95_def
    by (rule pc [OF _ percent_quotients(2)]) (simp_all add: percent_fvals)
  moreover have "p99 W h = Some (s ! (99 * n div 100))" unfolding p99_def
    by (rule pc [OF _ percent_quotients(3)]) (simp_all add: percent_fvals)
  moreover have "50 * n div 100 = n div 2" using div_mult_mult1 [of 50 n 2] by simp
  moreover have "hist_min h = s ! 0" "hist_max h = s ! (n - 1)"
    using ne sorted_ends [OF ne] assms(1,2) by (simp_all add: hist_min_def hist_max_def)
  moreover have "s ! i \<le> s ! j" if "i \<le> j" "j < n" for i j using that assms(1,2) by (simp add: sorted_nth_mono)
  moreover have "n div 2 \<le> 95 * n div 100" "95 * n div 100 \<le> 99 * n div 100" "99 * n div 100 \<le> n - 1"
    using assms(3) by linarith+
  ultimately show ?thesis using assms(3) by simp
qed

definition hist_example :: histogram where
  "hist_example = \<lparr>samples = [12, 7, 40], max_samples = 10000, total_count = 3\<rparr>"

theorem hist_percentiles_witness:
  "p50 64 hist_example = Some 12 \<and> p95 64 hist_example = Some 40 \<and> hist_min hist_example = 7"
  using hist_percentiles [of _ hist_example 3 64, OF refl] by (simp add: hist_example_def)

text \<open>
  The mean lies between the extremes: when the samples add up to less than \<open>2 ^ 53\<close>
  microseconds, so that the sum neither wraps nor loses bits as a double, the reported mean is
  a finite number no smaller than the minimum and no larger than the maximum, rounding of the
  division included.
\<close>

theorem hist_mean_bounds:
  assumes "samples h \<noteq> []" and "sum_list (map unat (samples h)) < 2 ^ 53" and "length (samples h) < 2 ^ 53"
  shows "fp_finite (hist_mean h) \<and> real (unat (hist_min h)) \<le> fval (hist_mean h)
     \<and> fval (hist_mean h) \<le> real (unat (hist_max h))"
proof -
  let ?S = "sum_list (map unat (samples h))"
  have "unat (0 :: u64) + ?S < 2 ^ 64" using assms(2) by simp
  from sum_no_wrap [OF this] have sum: "uint (foldl (+) 0 (samples h)) = int ?S"
    by (simp add: uint_nat)
  have "max_element (samples h) \<in> set (samples h)" using assms(1) by (simp add: max_element_Max)
  then have "unat (max_element (samples h)) \<le> ?S" by (simp add: member_le_sum_list)
  then have hi: "unat (max_element (samples h)) < 2 ^ 53" using assms(2) by simp
  show ?thesis
    using fp_div_counts [OF assms(2) _ assms(3) sum_list_bounds(1) sum_list_bounds(2) hi] assms(1)
    by (simp add: hist_mean_def sum hist_min_def hist_max_def Let_def)
qed

theorem hist_mean_bounds_witness:
  "7 \<le> fval (hist_mean hist_example) \<and> fval (hist_mean hist_example) \<le> 40"
  using hist_mean_bounds [of hist_example]
  by (simp add: hist_example_def hist_min_def hist_max_def min_element_def max_element_def)

text \<open>
  The collector keeps one histogram per event. After any sequence of records, the
  histogram of an event exists exactly when the event occurred; it holds the first 10000 values
  recorded for that event, in order, counts all of them, and the collector counts all records,
  the counters modulo \<open>2 ^ W\<close>.
\<close>

theorem bench_collects:
  assumes "recs \<noteq> []"
  shows "bench_get (record_all W BenchmarkCollector recs) event =
       (if values_of event recs = [] then None
        else Some \<lparr>samples = take 10000 (values_of event recs), max_samples = 10000,
                   total_count = length (values_of event recs) mod 2 ^ W\<rparr>)
     \<and> total_messages (record_all W BenchmarkCollector recs) = length recs mod 2 ^ W"
  using assms
  by (simp add: bench_get_def record_all_get record_all_total BenchmarkCollector_def hist_record_run LatencyHistogram_def)

theorem bench_collects_witness:
  "bench_get (record_all 64 BenchmarkCollector [(''dbc_lookup'', 3), (''end_to_end'', 9), (''dbc_lookup'', 4)]) ''dbc_lookup''
     = Some \<lparr>samples = [3, 4], max_samples = 10000, total_count = 2\<rparr>"
  using bench_collects [of "[(''dbc_lookup'', 3), (''end_to_end'', 9), (''dbc_lookup'', 4)]" 64 "''dbc_lookup''"]
  by (simp add: values_of_def)

end
