(* ===== verification/Watchdog.thy ===== *)
theory Watchdog
  imports Gw_Prelude
begin

text \<open>
  The bus watchdog (\<^verbatim>\<open>src/utils/watchdog.hpp\<close>). The clock reading that \<open>feed\<close> and
  \<open>check\<close> take is an argument; the warning on the console is the result \<open>True\<close> of
  \<open>check\<close>. Differences of clock readings are taken modulo \<open>2 ^ 64\<close>, as in the code.
\<close>

section \<open>State and operations\<close>

record watchdog =
  timeout_us :: u64
  last_feed_ns :: u64
  fired :: bool

definition new_watchdog :: "u64 \<Rightarrow> watchdog" where
  "new_watchdog timeout = \<lparr>timeout_us = timeout, last_feed_ns = 0, fired = False\<rparr>"

definition feed :: "watchdog \<Rightarrow> u64 \<Rightarrow> watchdog" where
  "feed w now = w\<lparr>last_feed_ns := now, fired := False\<rparr>"

definition check :: "watchdog \<Rightarrow> u64 \<Rightarrow> bool \<times> watchdog" where
  "check w now =
     (if last_feed_ns w = 0 then (False, w)
      else let elapsed = (now - last_feed_ns w) div 1000 in
        if timeout_us w < elapsed \<and> \<not> fired w then (True, w\<lparr>fired := True\<rparr>) else (False, w))"

definition watchdog_reset :: "watchdog \<Rightarrow> watchdog" where
  "watchdog_reset w = w\<lparr>last_feed_ns := 0, fired := False\<rparr>"

section \<open>Specification: idle, armed, alarmed\<close>

datatype wd_event = Feed u64 | Check u64 | Reset

definition wd_step :: "watchdog \<Rightarrow> wd_event \<Rightarrow> (watchdog \<times> bool list) option" where
  "wd_step w ev =
     (case ev of
        Feed now \<Rightarrow> Some (feed w now, [])
      | Check now \<Rightarrow> Some (snd (check w now), [fst (check w now)])
      | Reset \<Rightarrow> Some (watchdog_reset w, []))"

datatype wd_state = Idle | Armed u64 | Alarmed

definition late :: "u64 \<Rightarrow> u64 \<Rightarrow> u64 \<Rightarrow> bool" where
  "late timeout fed now \<longleftrightarrow> timeout < (now - fed) div 1000"

fun wd_spec :: "u64 \<Rightarrow> wd_state \<Rightarrow> wd_event \<Rightarrow> wd_state \<times> bool list" where
  "wd_spec T s (Feed now) = ((if now = 0 then Idle else Armed now), [])"
| "wd_spec T s Reset = (Idle, [])"
| "wd_spec T (Armed fed) (Check now) = (if late T fed now then (Alarmed, [True]) else (Armed fed, [False]))"
| "wd_spec T s (Check now) = (s, [False])"

definition wd_abs :: "watchdog \<Rightarrow> wd_state" where
  "wd_abs w = (if last_feed_ns w = 0 then Idle else if fired w then Alarmed else Armed (last_feed_ns w))"

definition wd_inv :: "u64 \<Rightarrow> watchdog \<Rightarrow> bool" where
  "wd_inv T w \<longleftrightarrow> timeout_us w = T \<and> (last_feed_ns w = 0 \<longrightarrow> \<not> fired w)"

lemma wd_step_sim:
  assumes "wd_inv T w"
  shows "\<exists>w'. wd_step w ev = Some (w', snd (wd_spec T (wd_abs w) ev)) \<and> wd_abs w' = fst (wd_spec T (wd_abs w) ev) \<and> wd_inv T w'"
proof (cases ev)
  case (Feed now)
  then show ?thesis using assms by (simp add: wd_step_def wd_inv_def wd_abs_def feed_def)
next
  case (Check now)
  show ?thesis
  proof (cases "wd_abs w")
    case (Armed fed)
    then have "last_feed_ns w = fed" "fed \<noteq> 0" "\<not> fired w" by (auto simp: wd_abs_def split: if_splits)
    with Check Armed assms show ?thesis
      by (cases "late T fed now") (simp_all add: wd_step_def check_def late_def Let_def wd_inv_def wd_abs_def)
  next
    case Idle
    then have "last_feed_ns w = 0" by (simp add: wd_abs_def split: if_splits)
    with Check Idle assms show ?thesis by (simp add: wd_step_def check_def)
  next
    case Alarmed
    then have "fired w" by (simp add: wd_abs_def split: if_splits)
    with Check Alarmed assms show ?thesis by (simp add: wd_step_def check_def)
  qed
next
  case Reset
  then show ?thesis using assms by (simp add: wd_step_def wd_inv_def wd_abs_def watchdog_reset_def)
qed

interpretation wd: machine_refinement wd_step "wd_inv T" "\<lambda>_. True" wd_abs "wd_spec T" for T
  by unfold_locales (rule wd_step_sim)

lemma wd_run_alarmed: "run_steps (wd_spec T) Alarmed (map Check ts) = (Alarmed, map (\<lambda>_. False) ts)"
  by (induction ts) simp_all

lemma wd_run_armed:
  "snd (run_steps (wd_spec T) (Armed fed) (map Check ts))
     = map (\<lambda>k. k = length (takeWhile (\<lambda>t. \<not> late T fed t) ts)) [0..<length ts]"
proof (induction ts)
  case (Cons t ts)
  show ?case
  proof (cases "late T fed t")
    case True
    then have "snd (run_steps (wd_spec T) (Armed fed) (map Check (t # ts))) = True # map (\<lambda>_. False) ts"
      by (simp add: wd_run_alarmed)
    also have "\<dots> = map (\<lambda>k. k = length (takeWhile (\<lambda>t. \<not> late T fed t) (t # ts))) [0..<length (t # ts)]"
      using True by (intro nth_equalityI) (auto simp: nth_Cons split: nat.splits simp del: upt_Suc)
    finally show ?thesis .
  next
    case False
    then have "snd (run_steps (wd_spec T) (Armed fed) (map Check (t # ts)))
        = False # snd (run_steps (wd_spec T) (Armed fed) (map Check ts))"
      by (simp split: prod.split)
    also have "\<dots> = map (\<lambda>k. k = length (takeWhile (\<lambda>t. \<not> late T fed t) (t # ts))) [0..<length (t # ts)]"
      unfolding Cons.IH using False by (intro nth_equalityI) (auto simp: nth_Cons split: nat.splits simp del: upt_Suc)
    finally show ?thesis .
  qed
qed simp

section \<open>Properties\<close>

text \<open>
  The watchdog raises exactly one alarm per silence. After a frame fed it at a non-zero
  time, a sequence of checks answers true at the first check that comes more than the timeout
  after that frame, and false at every other check, before it and after it, until the next
  frame.
\<close>

theorem watchdog_fires_once:
  assumes "fed \<noteq> 0"
  shows "\<exists>w'. try_steps wd_step (feed w fed) (map Check ts)
     = Some (w', map (\<lambda>k. k = length (takeWhile (\<lambda>t. \<not> late (timeout_us w) fed t) ts)) [0..<length ts])"
proof -
  have "wd_inv (timeout_us w) (feed w fed)" "wd_abs (feed w fed) = Armed fed"
    using assms by (simp_all add: wd_inv_def wd_abs_def feed_def)
  from wd.run_sim [OF this(1), of "map Check ts"] this(2) wd_run_armed [of "timeout_us w" fed ts]
  show ?thesis by auto
qed

theorem watchdog_fires_once_witness:
  "\<exists>w'. try_steps wd_step (feed (new_watchdog 2000000) 5) (map Check [1000000005, 2000001005, 2000001006, 9000000000])
     = Some (w', [False, True, False, False])"
  using watchdog_fires_once [of 5 "new_watchdog 2000000" "[1000000005, 2000001005, 2000001006, 9000000000]"]
  by (simp add: late_def new_watchdog_def upt_rec del: try_steps.simps)

text \<open>
  C28: The watchdog implements its state machine: for every sequence of frames, checks and
  resets it behaves as one that is idle before the first frame (and after a reset), armed by a
  frame, and alarmed after an alarm until the next frame.
\<close>

theorem watchdog_refines:
  assumes "wd_inv T w"
  shows "\<exists>w'. try_steps wd_step w evs = Some (w', snd (run_steps (wd_spec T) (wd_abs w) evs))
     \<and> wd_abs w' = fst (run_steps (wd_spec T) (wd_abs w) evs) \<and> wd_inv T w'"
  using wd.run_sim [OF assms] by simp

theorem watchdog_refines_witness:
  "\<exists>w'. try_steps wd_step (new_watchdog 10) [Check 7, Feed 1000, Check 12001, Check 20000, Reset, Check 90000]
      = Some (w', [False, True, False, False]) \<and> wd_abs w' = Idle"
proof -
  have "wd_inv 10 (new_watchdog 10)" "wd_abs (new_watchdog 10) = Idle"
    by (simp_all add: wd_inv_def wd_abs_def new_watchdog_def)
  from watchdog_refines [OF this(1), of "[Check 7, Feed 1000, Check 12001, Check 20000, Reset, Check 90000]"] this(2)
  show ?thesis by (auto simp: late_def simp del: try_steps.simps)
qed

end
