(* ===== verification/Event_Loop.thy ===== *)
theory Event_Loop
  imports Gw_Prelude
begin

text \<open>
  The epoll event loop (\<^verbatim>\<open>src/event/event_loop.hpp\<close>).

  \<^item> The table of readers maps descriptors to callbacks; what a callback does is the argument
    \<open>call\<close>: it may change the table and the rest of the program's state, and it may throw (the
    flag beside the new state); \<open>None\<close> is undefined behaviour. An event carries, beside descriptor and readiness, the result of the
    system call the callback is going to make.
  \<^item> The result of every \<open>epoll_wait\<close> is part of the input. A run that has used up its input
    is still waiting.
  \<^item> A signal handler that calls \<open>stop\<close> interrupts \<open>epoll_wait\<close>.
\<close>

section \<open>State and operations\<close>

record 'cb event_loop =
  readers :: "int \<rightharpoonup> 'cb"
  running :: bool

definition EventLoop :: "'cb event_loop" where
  "EventLoop = \<lparr>readers = Map.empty, running = False\<rparr>"

text \<open>\<open>ok\<close> is whether \<open>epoll_ctl\<close> succeeded; the exception comes after the table changed.\<close>

definition add_reader :: "bool \<Rightarrow> 'cb event_loop \<Rightarrow> int \<Rightarrow> 'cb \<Rightarrow> bool \<times> 'cb event_loop" where
  "add_reader ok l fd cb = (ok, l\<lparr>readers := (readers l)(fd \<mapsto> cb)\<rparr>)"

definition loop_remove :: "'cb event_loop \<Rightarrow> int \<Rightarrow> 'cb event_loop" where
  "loop_remove l fd = l\<lparr>readers := (readers l)(fd := None)\<rparr>"

definition stop :: "'cb event_loop \<Rightarrow> 'cb event_loop" where
  "stop l = l\<lparr>running := False\<rparr>"

type_synonym 'x event = "int \<times> bool \<times> 'x"
type_synonym ('cb, 'x, 'w) caller = "'cb \<Rightarrow> 'x \<Rightarrow> 'cb event_loop \<times> 'w \<Rightarrow> (bool \<times> 'cb event_loop \<times> 'w) option"

definition dispatch :: "('cb, 'x, 'w) caller \<Rightarrow> 'x event \<Rightarrow> 'cb event_loop \<times> 'w \<Rightarrow> (bool \<times> 'cb event_loop \<times> 'w) option" where
  "dispatch call ev st =
     (case ev of (fd, epollin, x) \<Rightarrow>
        if epollin then (case readers (fst st) fd of None \<Rightarrow> Some (False, st) | Some cb \<Rightarrow> call cb x st)
        else Some (False, st))"

fun dispatch_batch :: "('cb, 'x, 'w) caller \<Rightarrow> 'x event list \<Rightarrow> 'cb event_loop \<times> 'w \<Rightarrow> (bool \<times> 'cb event_loop \<times> 'w) option" where
  "dispatch_batch call [] st = Some (False, st)"
| "dispatch_batch call (ev # evs) st = do {
     (thrown, st) \<leftarrow> dispatch call ev st;
     if thrown then Some (True, st) else dispatch_batch call evs st }"

datatype 'x wait_result = Ready "'x event list" | Interrupted bool | WaitError

datatype 's loop_result = Stopped 's | Waiting 's | Thrown 's

fun loop_body :: "('cb, 'x, 'w) caller \<Rightarrow> 'x wait_result list \<Rightarrow> 'cb event_loop \<times> 'w \<Rightarrow> ('cb event_loop \<times> 'w) loop_result option" where
  "loop_body call [] st = Some (if running (fst st) then Waiting st else Stopped st)"
| "loop_body call (r # rs) st =
     (if \<not> running (fst st) then Some (Stopped st)
      else (case r of
          Interrupted sigint \<Rightarrow> loop_body call rs (if sigint then (stop (fst st), snd st) else st)
        | WaitError \<Rightarrow> Some (Thrown st)
        | Ready evs \<Rightarrow> do {
            (thrown, st) \<leftarrow> dispatch_batch call evs st;
            if thrown then Some (Thrown st) else loop_body call rs st }))"

definition loop_run :: "('cb, 'x, 'w) caller \<Rightarrow> 'x wait_result list \<Rightarrow> 'cb event_loop \<times> 'w \<Rightarrow> ('cb event_loop \<times> 'w) loop_result option" where
  "loop_run call rs st = loop_body call rs ((fst st)\<lparr>running := True\<rparr>, snd st)"

section \<open>Interface: callbacks with an invariant\<close>

fun result_state :: "'s loop_result \<Rightarrow> 's" where
  "result_state (Stopped s) = s"
| "result_state (Waiting s) = s"
| "result_state (Thrown s) = s"

fun wait_ok :: "('x \<Rightarrow> bool) \<Rightarrow> 'x wait_result \<Rightarrow> bool" where
  "wait_ok ok_in (Ready evs) = (\<forall>ev\<in>set evs. ok_in (snd (snd ev)))"
| "wait_ok ok_in _ = True"

text \<open>
  What every callback keeps, the loop keeps: an invariant of the loop and the program's state
  that holds whatever the running flag is.
\<close>

locale callbacks =
  fixes call :: "('cb, 'x, 'w) caller" and inv :: "'cb event_loop \<times> 'w \<Rightarrow> bool" and ok_in :: "'x \<Rightarrow> bool"
  assumes call_inv: "inv st \<Longrightarrow> readers (fst st) fd = Some cb \<Longrightarrow> ok_in x \<Longrightarrow>
      \<exists>thrown st'. call cb x st = Some (thrown, st') \<and> inv st'"
    and inv_running: "inv (l, w) \<Longrightarrow> inv (l\<lparr>running := b\<rparr>, w)"
begin

lemma dispatch_inv:
  assumes "inv st" and "ok_in (snd (snd ev))" 
  obtains thrown st' where "dispatch call ev st = Some (thrown, st')" and "inv st'"
proof -
  obtain fd b x where ev: "ev = (fd, b, x)" by (cases ev)
  show ?thesis
  proof (cases "b \<and> readers (fst st) fd \<noteq> None")
    case True
    then obtain cb where cb: "readers (fst st) fd = Some cb" by blast
    have "ok_in x" using assms(2) ev by simp
    from call_inv [OF assms(1) cb this] obtain thrown st' where "call cb x st = Some (thrown, st')" "inv st'" by blast
    with that True cb show ?thesis by (simp add: dispatch_def ev)
  next
    case False
    then have "dispatch call ev st = Some (False, st)" by (auto simp: dispatch_def ev)
    with that assms(1) show ?thesis by blast
  qed
qed

lemma batch_inv:
  "inv st \<Longrightarrow> \<forall>ev\<in>set evs. ok_in (snd (snd ev)) \<Longrightarrow>
   \<exists>thrown st'. dispatch_batch call evs st = Some (thrown, st') \<and> inv st'"
proof (induction evs arbitrary: st)
  case Nil
  then show ?case by auto
next
  case (Cons ev evs)
  have "ok_in (snd (snd ev))" using Cons.prems(2) by simp
  from dispatch_inv [OF Cons.prems(1) this] obtain thrown st1 where
    1: "dispatch call ev st = Some (thrown, st1)" "inv st1" by blast
  show ?case
  proof (cases thrown)
    case True
    with 1 have "dispatch_batch call (ev # evs) st = Some (True, st1)" by simp
    with 1(2) show ?thesis by blast
  next
    case False
    with Cons.IH [OF 1(2)] Cons.prems(2) 1(1) show ?thesis by simp
  qed
qed

lemma loop_inv:
  "inv st \<Longrightarrow> \<forall>r\<in>set rs. wait_ok ok_in r \<Longrightarrow> \<exists>res. loop_body call rs st = Some res \<and> inv (result_state res)"
proof (induction rs arbitrary: st)
  case (Cons r rs)
  have rs: "\<forall>r\<in>set rs. wait_ok ok_in r" using Cons.prems(2) by simp
  show ?case
  proof (cases "running (fst st)")
    case False
    with Cons.prems show ?thesis by simp
  next
    case True
    show ?thesis
    proof (cases r)
      case (Ready evs)
      then have "\<forall>ev\<in>set evs. ok_in (snd (snd ev))" using Cons.prems(2) by simp
      from batch_inv [OF Cons.prems(1) this] obtain thrown st1 where
        1: "dispatch_batch call evs st = Some (thrown, st1)" "inv st1" by blast
      from Cons.IH [OF 1(2) rs] True Ready 1 show ?thesis by (cases thrown) simp_all
    next
      case (Interrupted sigint)
      have "inv (if sigint then (stop (fst st), snd st) else st)"
        using inv_running [of "fst st" "snd st" False] Cons.prems by (simp add: stop_def)
      from Cons.IH [OF this rs] True Interrupted show ?thesis by simp
    next
      case WaitError
      with Cons.prems True show ?thesis by simp
    qed
  qed
qed simp

end

text \<open>
  A further invariant on top: callbacks that keep one property, and keep another while the first
  holds, keep both.
\<close>

locale callbacks_also = callbacks call inv ok_in
  for call :: "('cb, 'x, 'w) caller" and inv :: "'cb event_loop \<times> 'w \<Rightarrow> bool" and ok_in :: "'x \<Rightarrow> bool" +
  fixes also_inv :: "'cb event_loop \<times> 'w \<Rightarrow> bool" and also_in :: "'x \<Rightarrow> bool"
  assumes also_call: "also_inv st \<Longrightarrow> ok_in x \<Longrightarrow> also_in x \<Longrightarrow> call cb x st = Some (thrown, st') \<Longrightarrow> also_inv st'"
    and also_running: "also_inv (l, w) \<Longrightarrow> also_inv (l\<lparr>running := b\<rparr>, w)"

sublocale callbacks_also < both: callbacks call "\<lambda>st. inv st \<and> also_inv st" "\<lambda>x. ok_in x \<and> also_in x"
proof
  fix st fd cb x
  assume a: "inv st \<and> also_inv st" "readers (fst st) fd = Some cb" "ok_in x \<and> also_in x"
  then obtain thrown st' where "call cb x st = Some (thrown, st')" "inv st'" using call_inv by blast
  with a also_call show "\<exists>thrown st'. call cb x st = Some (thrown, st') \<and> inv st' \<and> also_inv st'" by blast
next
  fix l w b
  assume "inv (l, w) \<and> also_inv (l, w)"
  then show "inv (l\<lparr>running := b\<rparr>, w) \<and> also_inv (l\<lparr>running := b\<rparr>, w)" using inv_running also_running by blast
qed

section \<open>Reference: rounds of complete batches\<close>

text \<open>
  The loop event by event: \<open>serves\<close> is a batch of which every event is dispatched in order and no
  callback throws, whatever happens to the running flag meanwhile; \<open>rounds\<close> is a sequence of
  waits, each started while the loop is running and each ready one followed by its whole batch.
\<close>

inductive serves :: "('cb, 'x, 'w) caller \<Rightarrow> 'x event list \<Rightarrow> 'cb event_loop \<times> 'w \<Rightarrow> 'cb event_loop \<times> 'w \<Rightarrow> bool"
  for call where
  serves_Nil: "serves call [] st st"
| serves_Cons: "dispatch call ev st = Some (False, st1) \<Longrightarrow> serves call evs st1 st2 \<Longrightarrow> serves call (ev # evs) st st2"

inductive rounds :: "('cb, 'x, 'w) caller \<Rightarrow> 'x wait_result list \<Rightarrow> 'cb event_loop \<times> 'w \<Rightarrow> 'cb event_loop \<times> 'w \<Rightarrow> bool"
  for call where
  rounds_Nil: "rounds call [] st st"
| rounds_Ready: "running (fst st) \<Longrightarrow> serves call evs st st1 \<Longrightarrow> rounds call rs st1 st2 \<Longrightarrow> rounds call (Ready evs # rs) st st2"
| rounds_Retry: "running (fst st) \<Longrightarrow> rounds call rs st st2 \<Longrightarrow> rounds call (Interrupted False # rs) st st2"
| rounds_Stop: "running (fst st) \<Longrightarrow> rounds call rs (stop (fst st), snd st) st2 \<Longrightarrow> rounds call (Interrupted True # rs) st st2"

lemmas [intro] = serves.intros rounds.intros

inductive_simps serves_simps [simp]: "serves call [] st st'" "serves call (ev # evs) st st'"
inductive_simps rounds_simps [simp]: "rounds call [] st st'" "rounds call (Ready evs # rs) st st'"
  "rounds call (Interrupted False # rs) st st'" "rounds call (Interrupted True # rs) st st'" "rounds call (WaitError # rs) st st'"

text \<open>The first throw in a batch: the events before it were served, those behind it were not.\<close>

definition throws_in :: "('cb, 'x, 'w) caller \<Rightarrow> 'x event list \<Rightarrow> 'cb event_loop \<times> 'w \<Rightarrow> 'cb event_loop \<times> 'w \<Rightarrow> bool" where
  "throws_in call evs st st' \<longleftrightarrow>
     (\<exists>before ev behind st1. evs = before @ ev # behind \<and> serves call before st st1 \<and> dispatch call ev st1 = Some (True, st'))"

text \<open>The functions by their first step.\<close>

lemma batch_first:
  "dispatch_batch call (ev # evs) st = Some (b, st') \<longleftrightarrow> (b \<and> dispatch call ev st = Some (True, st'))
     \<or> (\<exists>st1. dispatch call ev st = Some (False, st1) \<and> dispatch_batch call evs st1 = Some (b, st'))"
  by (cases "dispatch call ev st") (auto simp del: split_paired_Ex split: if_splits)

lemma loop_first:
  "loop_body call (Ready evs # rs) st = Some res \<longleftrightarrow> (\<not> running (fst st) \<and> res = Stopped st) \<or> (running (fst st) \<and>
     ((\<exists>st1. dispatch_batch call evs st = Some (True, st1) \<and> res = Thrown st1)
      \<or> (\<exists>st1. dispatch_batch call evs st = Some (False, st1) \<and> loop_body call rs st1 = Some res)))"
  by (cases "dispatch_batch call evs st") (auto simp del: split_paired_Ex split: if_splits)

lemma batch_served: "dispatch_batch call evs st = Some (False, st') \<longleftrightarrow> serves call evs st st'"
  by (induction evs arbitrary: st) (auto simp: batch_first simp del: dispatch_batch.simps(2) split_paired_Ex)

lemma throws_in_Cons:
  "throws_in call (ev # evs) st st' \<longleftrightarrow> dispatch call ev st = Some (True, st')
     \<or> (\<exists>st1. dispatch call ev st = Some (False, st1) \<and> throws_in call evs st1 st')" (is "?l \<longleftrightarrow> ?r")
proof
  assume ?l
  then obtain before e behind st1 where h: "ev # evs = before @ e # behind" "serves call before st st1" "dispatch call e st1 = Some (True, st')"
    unfolding throws_in_def by blast
  then show ?r unfolding throws_in_def by (cases before) (auto simp del: split_paired_Ex)
next
  assume ?r
  then show ?l unfolding throws_in_def
  proof (elim disjE exE conjE)
    assume "dispatch call ev st = Some (True, st')"
    then show "\<exists>before e behind st1. ev # evs = before @ e # behind \<and> serves call before st st1 \<and> dispatch call e st1 = Some (True, st')"
      by (metis append_Nil serves_Nil)
  next
    fix st1 before e behind st2
    assume "dispatch call ev st = Some (False, st1)" "evs = before @ e # behind" "serves call before st1 st2" "dispatch call e st2 = Some (True, st')"
    then show "\<exists>before e behind st1. ev # evs = before @ e # behind \<and> serves call before st st1 \<and> dispatch call e st1 = Some (True, st')"
      by (metis append_Cons serves_Cons)
  qed
qed

lemma batch_throws: "dispatch_batch call evs st = Some (True, st') \<longleftrightarrow> throws_in call evs st st'"
proof (induction evs arbitrary: st)
  case Nil
  then show ?case by (simp add: throws_in_def)
next
  case (Cons ev evs)
  then show ?case by (simp only: batch_first throws_in_Cons)  simp
qed

definition throws_at :: "('cb, 'x, 'w) caller \<Rightarrow> 'x wait_result \<Rightarrow> 'cb event_loop \<times> 'w \<Rightarrow> 'cb event_loop \<times> 'w \<Rightarrow> bool" where
  "throws_at call r st st' \<longleftrightarrow> running (fst st) \<and>
     (case r of WaitError \<Rightarrow> st' = st | Ready evs \<Rightarrow> throws_in call evs st st' | Interrupted _ \<Rightarrow> False)"

text \<open>A run that ends: some rounds, and then what ended it.\<close>

lemma ends_Cons:
  "(\<exists>pre post st1. r # rs = pre @ post \<and> rounds call pre st st1 \<and> Q post st1) \<longleftrightarrow>
   Q (r # rs) st \<or> (\<exists>pre post st1. rs = pre @ post \<and> rounds call (r # pre) st st1 \<and> Q post st1)" (is "?l \<longleftrightarrow> ?r")
proof
  assume ?l
  then obtain pre post st1 where h: "r # rs = pre @ post" "rounds call pre st st1" "Q post st1" by blast
  then show ?r by (cases pre) (auto simp del: split_paired_Ex split_paired_All)
next
  assume ?r
  then show ?l
  proof (elim disjE exE conjE)
    assume "Q (r # rs) st"
    then show ?l by (metis append_Nil rounds_Nil)
  next
    fix pre post st1 assume "rs = pre @ post" "rounds call (r # pre) st st1" "Q post st1"
    then show ?l by (metis append_Cons)
  qed
qed

lemma ends_Ready:
  "(\<exists>pre post st1. rs = pre @ post \<and> rounds call (Ready evs # pre) st st1 \<and> Q post st1) \<longleftrightarrow>
   running (fst st) \<and> (\<exists>st2. serves call evs st st2 \<and> (\<exists>pre post st1. rs = pre @ post \<and> rounds call pre st2 st1 \<and> Q post st1))"
proof -
  have "rounds call (Ready evs # pre) st st1 \<longleftrightarrow> running (fst st) \<and> (\<exists>st2. serves call evs st st2 \<and> rounds call pre st2 st1)" for pre st1
    by (auto elim: rounds.cases)
  then show ?thesis by blast
qed

text \<open>How a run ends at the beginning of the remaining waits.\<close>

definition ends_here :: "('cb, 'x, 'w) caller \<Rightarrow> ('cb event_loop \<times> 'w) loop_result \<Rightarrow> 'x wait_result list \<Rightarrow> 'cb event_loop \<times> 'w \<Rightarrow> bool" where
  "ends_here call res post st \<longleftrightarrow> (case res of
      Stopped st' \<Rightarrow> \<not> running (fst st) \<and> st' = st
    | Waiting st' \<Rightarrow> running (fst st) \<and> st' = st \<and> post = []
    | Thrown st' \<Rightarrow> (\<exists>r rest. post = r # rest \<and> throws_at call r st st'))"

lemma loop_ends: "loop_body call rs st = Some res \<longleftrightarrow> (\<exists>pre post st1. rs = pre @ post \<and> rounds call pre st st1 \<and> ends_here call res post st1)"
proof (induction rs arbitrary: st)
  case Nil
  then show ?case by (cases res) (auto simp: ends_here_def)
next
  case (Cons r rs)
  show ?case unfolding ends_Cons
  proof (cases r)
    case (Ready evs)
    have "loop_body call (r # rs) st = Some res \<longleftrightarrow> ends_here call res (r # rs) st
        \<or> (running (fst st) \<and> (\<exists>st1. serves call evs st st1 \<and> loop_body call rs st1 = Some res))"
      unfolding Ready loop_first batch_throws batch_served by (cases res) (simp_all add: ends_here_def throws_at_def del: split_paired_Ex, blast+)
    then show "loop_body call (r # rs) st = Some res \<longleftrightarrow> ends_here call res (r # rs) st
        \<or> (\<exists>pre post st1. rs = pre @ post \<and> rounds call (r # pre) st st1 \<and> ends_here call res post st1)"
      unfolding Cons.IH Ready ends_Ready .
  next
    case (Interrupted sigint)
    have "loop_body call (r # rs) st = Some res \<longleftrightarrow> ends_here call res (r # rs) st
        \<or> (running (fst st) \<and> loop_body call rs (if sigint then (stop (fst st), snd st) else st) = Some res)"
      unfolding Interrupted by (cases res) (auto simp: ends_here_def throws_at_def)
    then show "loop_body call (r # rs) st = Some res \<longleftrightarrow> ends_here call res (r # rs) st
        \<or> (\<exists>pre post st1. rs = pre @ post \<and> rounds call (r # pre) st st1 \<and> ends_here call res post st1)"
      unfolding Cons.IH Interrupted by (cases sigint) (simp_all only: rounds_simps if_True if_False, blast+)
  next
    case WaitError
    then show "loop_body call (r # rs) st = Some res \<longleftrightarrow> ends_here call res (r # rs) st
        \<or> (\<exists>pre post st1. rs = pre @ post \<and> rounds call (r # pre) st st1 \<and> ends_here call res post st1)"
      by (cases res) (auto simp: ends_here_def throws_at_def)
  qed
qed

lemma loop_waiting: "loop_body call rs st = Some (Waiting st') \<longleftrightarrow> rounds call rs st st' \<and> running (fst st')"
  unfolding loop_ends by (simp add: ends_here_def del: split_paired_Ex)

lemma loop_stopped:
  "loop_body call rs st = Some (Stopped st') \<longleftrightarrow> (\<exists>pre post. rs = pre @ post \<and> rounds call pre st st' \<and> \<not> running (fst st'))"
  unfolding loop_ends by (simp add: ends_here_def del: split_paired_Ex)

lemma loop_thrown:
  "loop_body call rs st = Some (Thrown st') \<longleftrightarrow> (\<exists>pre r post st1. rs = pre @ r # post \<and> rounds call pre st st1 \<and> throws_at call r st1 st')"
  unfolding loop_ends by (simp add: ends_here_def del: split_paired_Ex) blast

lemma rounds_stop_last: "rounds call rs st st' \<Longrightarrow> Interrupted True \<in> set rs \<Longrightarrow> \<not> running (fst st')"
proof (induction rule: rounds.induct)
  case (rounds_Stop st rs st2)
  then show ?case by (cases rs) (auto simp: stop_def elim: rounds.cases)
qed auto

section \<open>Properties\<close>

lemma dispatch_unregistered: "readers (fst st) fd = None \<Longrightarrow> dispatch call (fd, b, x) st = Some (False, st)"
  by (simp add: dispatch_def)

text \<open>
  A descriptor without a reader is never served. If no callback registers the descriptor
  again, then from the moment it has no reader its events have no effect, also those that were
  already fetched in the same batch: the batch does what it would do without them.
\<close>

theorem loop_skips_removed:
  assumes "readers (fst st) fd = None"
    and "\<forall>cb x st b st'. call cb x st = Some (b, st') \<longrightarrow> readers (fst st) fd = None \<longrightarrow> readers (fst st') fd = None"
  shows "dispatch_batch call evs st = dispatch_batch call (filter (\<lambda>ev. fst ev \<noteq> fd) evs) st"
  using assms(1)
proof (induction evs arbitrary: st)
  case (Cons ev evs)
  show ?case
  proof (cases "fst ev = fd")
    case True
    with Cons show ?thesis by (cases ev) (simp add: dispatch_unregistered)
  next
    case False
    have keep: "readers (fst st1) fd = None" if "dispatch call ev st = Some (thrown, st1)" for thrown st1
    proof -
      obtain fd' b x where ev: "ev = (fd', b, x)" by (cases ev)
      show ?thesis
        using that Cons.prems assms(2) [rule_format, of _ x st thrown st1]
        by (auto simp: dispatch_def ev simp del: split_paired_All split: if_splits option.splits)
    qed
    show ?thesis
    proof (cases "dispatch call ev st")
      case None
      with False show ?thesis by simp
    next
      case (Some r)
      obtain thrown st1 where r: "r = (thrown, st1)" by (cases r)
      from Cons.IH [OF keep [OF Some [unfolded r]]] Some r False show ?thesis by simp
    qed
  qed
qed simp

theorem loop_skips_removed_witness:
  "dispatch_batch (\<lambda>cb x st. Some (False, loop_remove (fst st) cb, snd st + x)) [(8, True, 1), (7, True, 10)]
     (loop_remove \<lparr>readers = [7 \<mapsto> 8, 8 \<mapsto> 8], running = True\<rparr> 7, 0 :: nat)
   = dispatch_batch (\<lambda>cb x st. Some (False, loop_remove (fst st) cb, snd st + x)) [(8, True, 1)]
     (loop_remove \<lparr>readers = [7 \<mapsto> 8, 8 \<mapsto> 8], running = True\<rparr> 7, 0)"
  using loop_skips_removed [of "(loop_remove \<lparr>readers = [7 \<mapsto> 8, 8 \<mapsto> 8], running = True\<rparr> 7, 0 :: nat)" 7
      "\<lambda>cb x st. Some (False, loop_remove (fst st) cb, snd st + x)" "[(8, True, 1), (7, True, 10)]"]
  by (simp add: loop_remove_def)

text \<open>
  C29: How the loop ends, event by event. It is stopped exactly when some first waits were
  served in complete batches (every event of a ready batch dispatched in order, also those behind
  an event whose callback stopped the loop; an interrupted wait retried) and the running flag is
  then off; nothing of the later waits is served. It still waits exactly when all the waits were
  served in this way and the flag is still on. It throws exactly when, after such rounds, the
  next wait fails or a callback of its batch throws; the events before that one were served, and
  neither those behind it nor any later wait. After a stop request by a signal the loop never
  waits again.
\<close>

theorem loop_termination:
  "(loop_body call rs st = Some (Stopped st') \<longleftrightarrow> (\<exists>pre post. rs = pre @ post \<and> rounds call pre st st' \<and> \<not> running (fst st')))
   \<and> (loop_body call rs st = Some (Waiting st') \<longleftrightarrow> rounds call rs st st' \<and> running (fst st'))
   \<and> (loop_body call rs st = Some (Thrown st') \<longleftrightarrow>
        (\<exists>pre r post st1. rs = pre @ r # post \<and> rounds call pre st st1 \<and> throws_at call r st1 st'))
   \<and> (Interrupted True \<in> set rs \<longrightarrow> loop_body call rs st \<noteq> Some (Waiting st'))"
  using loop_stopped [of call rs st st'] loop_waiting [of call rs st st'] loop_thrown [of call rs st st']
    rounds_stop_last [of call rs st st'] by metis

text \<open>The first callback of a batch stops the loop: the second is served all the same, the next batch is not.\<close>

theorem loop_termination_witness:
  "loop_body (\<lambda>cb x st. Some (False, stop (fst st), snd st + x)) [Ready [(3, True, 1), (3, True, 2)], Ready [(3, True, 4)], Interrupted True]
     (\<lparr>readers = [3 \<mapsto> ()], running = True\<rparr>, 0 :: nat)
   = Some (Stopped (\<lparr>readers = [3 \<mapsto> ()], running = False\<rparr>, 3))"
proof -
  let ?call = "\<lambda>cb x st. Some (False, stop (fst st), snd st + x)" and ?st' = "(\<lparr>readers = [3 \<mapsto> ()], running = False\<rparr>, 3 :: nat)"
  have "rounds ?call [Ready [(3, True, 1), (3, True, 2)]] (\<lparr>readers = [3 \<mapsto> ()], running = True\<rparr>, 0) ?st' \<and> \<not> running (fst ?st')"
    by (simp add: dispatch_def stop_def)
  then have "\<exists>pre post. [Ready [(3, True, 1), (3, True, 2)], Ready [(3, True, 4)], Interrupted True] = pre @ post
      \<and> rounds ?call pre (\<lparr>readers = [3 \<mapsto> ()], running = True\<rparr>, 0) ?st' \<and> \<not> running (fst ?st')"
    by (intro exI [where x = "[Ready [(3, True, 1), (3, True, 2)]]"] exI [where x = "[Ready [(3, True, 4)], Interrupted True]"] conjI)
      (simp, blast, blast)
  with conjunct1 [OF loop_termination] show ?thesis by (rule iffD2)
qed

end
