(* ===== verification/Can_Socket.thy ===== *)
theory Can_Socket
  imports Signal_Decoder
begin

text \<open>
  The CAN socket (\<^verbatim>\<open>src/can/can_socket.hpp\<close>, \<^verbatim>\<open>can_socket.cpp\<close>) and the frame printer
  (\<^verbatim>\<open>src/utils/can_printer.hpp\<close>). A frame crosses the socket as the 16 bytes of the kernel's
  \<open>struct can_frame\<close>: identifier in host byte order, length, three bytes of padding and
  reserved fields, eight data bytes.
\<close>

section \<open>Operations\<close>

definition CAN_EFF_MASK :: u32 where "CAN_EFF_MASK = 0x1FFFFFFF"

definition frame_bytes :: "can_frame \<Rightarrow> byte list" where
  "frame_bytes f = mem32 (can_id f) @ [can_dlc f, 0, 0, 0] @ data f"

text \<open>The frame object after \<open>read\<close> stored the bytes at its beginning; it was zeroed before.\<close>

definition frame_object :: "byte list \<Rightarrow> can_frame option" where
  "frame_object bytes = do {
     obj \<leftarrow> put 0 bytes (replicate 16 0);
     a \<leftarrow> rd obj 0; b \<leftarrow> rd obj 1; c \<leftarrow> rd obj 2; d \<leftarrow> rd obj 3; dlc \<leftarrow> rd obj 4;
     Some \<lparr>can_id = of_mem32 a b c d, can_dlc = dlc, data = drop 8 obj\<rparr> }"

text \<open>
  The reader callback: \<open>read\<close> failed (\<open>None\<close>) or returned bytes, at most the size of the
  frame. The result is the frame the registered callback is called with, if it is called.
\<close>

definition can_on_readable :: "bool \<Rightarrow> byte list option \<Rightarrow> can_frame option option" where
  "can_on_readable on_frame_set received =
     (case received of
        None \<Rightarrow> Some None
      | Some bytes \<Rightarrow>
          if length bytes < 16 then Some None
          else do { frame \<leftarrow> frame_object bytes; Some (if on_frame_set then Some frame else None) })"

definition can_send :: "can_frame \<Rightarrow> byte list" where
  "can_send f = frame_bytes f"

definition CAN_SFF_MASK :: u32 where "CAN_SFF_MASK = 0x7FF"

text \<open>
  The kernel's filter list of a socket is set by \<open>setsockopt\<close>, an argument; \<open>add_filter\<close> passes
  it the bytes of one \<open>struct can_filter\<close>, identifier and mask in host byte order.
\<close>

definition filter_bytes :: "u32 \<Rightarrow> u32 \<Rightarrow> byte list" where
  "filter_bytes i m = mem32 i @ mem32 m"

definition add_filter :: "('k \<Rightarrow> int \<Rightarrow> byte list \<Rightarrow> 'k) \<Rightarrow> 'k \<Rightarrow> int \<Rightarrow> u32 \<Rightarrow> u32 option \<Rightarrow> 'k" where
  "add_filter setsockopt k fd i m =
     setsockopt k fd (filter_bytes i (case m of None \<Rightarrow> CAN_SFF_MASK | Some v \<Rightarrow> v))"

text \<open>The descriptors the destructor closes.\<close>

definition CanSocket_destroy :: "int \<Rightarrow> int list" where
  "CanSocket_destroy fd = (if fd \<ge> 0 then [fd] else [])"

section \<open>Printing\<close>

definition upper :: "char \<Rightarrow> char" where
  "upper c = (let n = of_char c :: nat in if 97 \<le> n \<and> n \<le> 122 then char_of (n - 32) else c)"

definition show_hex :: "nat \<Rightarrow> nat \<Rightarrow> string" where
  "show_hex width n = (let s = map upper (show_base 16 n) in replicate (width - length s) CHR ''0'' @ s)"

fun print_bytes :: "can_frame \<Rightarrow> nat \<Rightarrow> nat \<Rightarrow> string option" where
  "print_bytes f i 0 = Some []"
| "print_bytes f i (Suc n) = do {
     b \<leftarrow> rd (data f) i;
     rest \<leftarrow> print_bytes f (Suc i) n;
     Some (show_hex 2 (unat b) @ (if i + 1 < unat (can_dlc f) then '' '' else []) @ rest) }"

definition print_can_frame :: "string \<Rightarrow> can_frame \<Rightarrow> string option" where
  "print_can_frame iface f = do {
     bytes \<leftarrow> print_bytes f 0 (unat (can_dlc f));
     Some (iface @ ''  '' @ show_hex 3 (unat (can_id f AND CAN_EFF_MASK)) @ ''   ['' @ show_base 10 (unat (can_dlc f))
           @ '']  '' @ bytes) }"

section \<open>Filters of the kernel\<close>

text \<open>
  What the kernel documents for \<open>CAN_RAW_FILTER\<close>: the option value is an array of filters that
  becomes the list of the socket, and a frame is received if it matches a filter of the list.
  Bit 29 of an identifier inverts the filter and in a mask selects error frames; filters that
  use it are left out of the law.
\<close>

fun filters_of :: "byte list \<Rightarrow> (u32 \<times> u32) list" where
  "filters_of (a # b # c # d # e # f # g # h # rest) = (of_mem32 a b c d, of_mem32 e f g h) # filters_of rest"
| "filters_of _ = []"

definition matches_filter :: "u32 \<Rightarrow> u32 \<times> u32 \<Rightarrow> bool" where
  "matches_filter x flt \<longleftrightarrow> x AND snd flt = fst flt AND snd flt"

definition kernel_filters :: "('k \<Rightarrow> int \<Rightarrow> byte list \<Rightarrow> 'k) \<Rightarrow> ('k \<Rightarrow> int \<Rightarrow> u32 \<Rightarrow> bool) \<Rightarrow> bool" where
  "kernel_filters setsockopt receives \<longleftrightarrow>
     (\<forall>k fd opt x. (\<forall>flt\<in>set (filters_of opt). \<not> bit (fst flt) 29 \<and> \<not> bit (snd flt) 29) \<longrightarrow>
        (receives (setsockopt k fd opt) fd x \<longleftrightarrow> (\<exists>flt\<in>set (filters_of opt). matches_filter x flt)))"

section \<open>Properties\<close>

lemma of_mem32_bytes: "of_mem32 (mem32 w ! 0) (mem32 w ! 1) (mem32 w ! 2) (mem32 w ! 3) = w"
  by (rule word32_byte_eqI) (simp_all add: wire_defs bit_simps bit_high)

lemma frame_object_bytes: "frame_ok f \<Longrightarrow> frame_object (frame_bytes f) = Some f"
proof -
  assume ok: "frame_ok f"
  have "length (frame_bytes f) = 16" using ok by (simp add: frame_bytes_def frame_ok_def mem32_def)
  then have "put 0 (frame_bytes f) (replicate 16 0) = Some (frame_bytes f)" by (simp add: put_def)
  then show ?thesis
    using of_mem32_bytes [of "can_id f"] by (simp add: frame_object_def) (simp add: frame_bytes_def mem32_def rd_def)
qed

text \<open>
  A frame arrives as it was sent: what \<open>send\<close> writes to the socket is delivered by the
  reader as the same frame, identifier, length and data, and reads that fail or return less
  than a whole frame call nothing. No input that \<open>read\<close> can return leaves the frame object.
\<close>

theorem can_transport:
  assumes "frame_ok f" and "length bytes \<le> 16"
  shows "can_on_readable True (Some (can_send f)) = Some (Some f)
     \<and> can_on_readable True None = Some None
     \<and> (length bytes < 16 \<longrightarrow> can_on_readable True (Some bytes) = Some None)
     \<and> (\<exists>r. can_on_readable True (Some bytes) = Some r \<and> (\<forall>g. r = Some g \<longrightarrow> frame_ok g))"
proof -
  have "length (frame_bytes f) = 16" using assms(1) by (simp add: frame_bytes_def frame_ok_def mem32_def)
  then have "can_on_readable True (Some (can_send f)) = Some (Some f)"
    using frame_object_bytes [OF assms(1)] by (simp add: can_on_readable_def can_send_def)
  moreover have "\<exists>r. can_on_readable True (Some bytes) = Some r \<and> (\<forall>g. r = Some g \<longrightarrow> frame_ok g)"
    using assms(2) by (simp add: can_on_readable_def frame_object_def put_def frame_ok_def)
  ultimately show ?thesis by (simp add: can_on_readable_def)
qed

theorem can_transport_witness:
  "can_on_readable True (Some (can_send demo_frame)) = Some (Some demo_frame)
   \<and> can_on_readable True (Some [1, 2, 3]) = Some None"
  using can_transport [OF fits_examples(3), of "[1, 2, 3]"] by simp

lemma filters_of_bytes: "filters_of (filter_bytes i m) = [(i, m)]"
  using of_mem32_bytes [of i] of_mem32_bytes [of m] by (simp add: filter_bytes_def mem32_def)

text \<open>
  \<open>add_filter\<close> does not add: with the documented kernel, a second call replaces the first, and only
  the frames of the last filter are received.
\<close>

theorem add_filter_replaces:
  assumes "kernel_filters setsockopt receives" and "\<not> bit b 29" and "\<not> bit m 29"
  shows "receives (add_filter setsockopt (add_filter setsockopt k fd a ma) fd b (Some m)) fd x \<longleftrightarrow> x AND m = b AND m"
  using assms by (simp add: add_filter_def kernel_filters_def filters_of_bytes matches_filter_def)

text \<open>A kernel that keeps the filter list per descriptor; the engine's frames are lost.\<close>

theorem add_filter_replaces_witness:
  "\<not> (\<exists>flt\<in>set (filters_of (add_filter (\<lambda>k fd opt. k(fd := opt)) (add_filter (\<lambda>k fd opt. k(fd := opt)) (\<lambda>_. []) 5 0x123 None) 5 0x124 (Some CAN_SFF_MASK) 5)).
       matches_filter 0x123 flt)"
  using add_filter_replaces [of "\<lambda>k fd opt. k(fd := opt)" "\<lambda>k fd x. \<exists>flt\<in>set (filters_of (k fd)). matches_filter x flt" "0x124" CAN_SFF_MASK "\<lambda>_. []" 5 "0x123" None "0x123"]
  by (simp add: kernel_filters_def CAN_SFF_MASK_def)

lemma print_bytes_defined: "print_bytes f i n \<noteq> None \<longleftrightarrow> n = 0 \<or> i + n \<le> length (data f)"
  by (induction n arbitrary: i) (auto simp: rd_def bind_eq_None_conv bind_eq_Some_conv)

text \<open>
  Printing a frame is safe exactly for the lengths CAN allows: with eight data bytes, the
  printer is defined if and only if the length field is at most eight; a larger value makes it
  read past the frame.
\<close>

theorem print_can_frame_safe:
  assumes "frame_ok f"
  shows "print_can_frame iface f \<noteq> None \<longleftrightarrow> can_dlc f \<le> 8"
proof -
  have "print_can_frame iface f \<noteq> None \<longleftrightarrow> print_bytes f 0 (unat (can_dlc f)) \<noteq> None"
    by (auto simp: print_can_frame_def bind_eq_None_conv)
  also have "\<dots> \<longleftrightarrow> unat (can_dlc f) \<le> 8"
    using assms print_bytes_defined [of f 0 "unat (can_dlc f)"] by (auto simp: frame_ok_def)
  finally show ?thesis by (simp add: word_le_nat_alt)
qed

theorem print_can_frame_safe_witness:
  "print_can_frame ''vcan0'' demo_frame \<noteq> None \<and> print_can_frame ''vcan0'' (demo_frame\<lparr>can_dlc := 9\<rparr>) = None"
  using print_can_frame_safe [of demo_frame "''vcan0''"] print_can_frame_safe [of "demo_frame\<lparr>can_dlc := 9\<rparr>" "''vcan0''"]
  by (simp add: demo_frame_def frame_ok_def)

end
