(* ===== verification/Gateway.thy ===== *)
theory Gateway
  imports Doip_Stream Config_Loader Someip_Publisher Someip_Sd_Service Benchmark Watchdog Event_Loop Can_Socket
begin

text \<open>
  The program that wires the components together (\<^verbatim>\<open>src/main.cpp\<close>) and the constructors of
  the components that open sockets.

  \<^item> What the gateway does to the outside is a list of outputs in program order: notifications
    to the data multicast group, what the service discovery and the DoIP server put out, the
    warning of the watchdog and the statistics table.
  \<^item> Results of system calls are inputs: at start-up a record of them, at run time one record
    per readiness event, of which the callback uses its part. \<open>inet\<close> is \<open>inet_addr\<close>.
  \<^item> \<open>W\<close> is the width of \<open>size_t\<close>; \<open>fuel\<close> bounds the DoIP receive loop.
\<close>

section \<open>State\<close>

definition SOMEIP_MULTICAST :: string where "SOMEIP_MULTICAST = ''239.0.0.1''"
definition SOMEIP_PORT :: u16 where "SOMEIP_PORT = 30490"
definition SOMEIP_DATA_PORT :: u16 where "SOMEIP_DATA_PORT = 30501"
definition STATS_EVERY_N :: nat where "STATS_EVERY_N = 10"
definition SD_OFFER_EVERY_N :: nat where "SD_OFFER_EVERY_N = 100"

lemmas gw_consts = SOMEIP_PORT_def SOMEIP_DATA_PORT_def STATS_EVERY_N_def SD_OFFER_EVERY_N_def

record gateway =
  gw_dbc :: dbc
  gw_pub :: publisher
  gw_bench :: collector
  gw_wd :: watchdog
  gw_sd :: sd_service
  gw_doip :: doip_server
  frame_count :: nat
  last_offer_frame :: nat

datatype gw_out = Notify "byte list" | SdOut sd_out | DoipOut doip_out | BusSilent | StatsTable nat

text \<open>The clock readings of one run of the frame callback, in the order they are taken.\<close>

record clocks =
  clk_feed :: u64
  clk_t0 :: u64
  clk_t1 :: u64
  clk_t2 :: u64
  clk_t3 :: u64
  clk_check :: u64

section \<open>The frame callback\<close>

fun publish_all :: "byte list \<Rightarrow> publisher \<Rightarrow> decoded_signal list \<Rightarrow> (publisher \<times> byte list list) option" where
  "publish_all buf p [] = Some (p, [])"
| "publish_all buf p (sig # sigs) = do {
     (p, d) \<leftarrow> publish buf p sig;
     (p, ds) \<leftarrow> publish_all buf p sigs;
     Some (p, d @ ds) }"

text \<open>Everything behind the publication: the counter, the watchdog check, the offers, the table.\<close>

definition watchdog_check :: "u64 \<Rightarrow> gateway \<Rightarrow> gateway \<times> gw_out list" where
  "watchdog_check now gw =
     (if frame_count gw mod 50 = 0
      then (gw\<lparr>gw_wd := snd (check (gw_wd gw) now)\<rparr>, if fst (check (gw_wd gw) now) then [BusSilent] else [])
      else (gw, []))"

definition periodic_offer :: "nat \<Rightarrow> (string \<Rightarrow> u32) \<Rightarrow> gateway \<Rightarrow> (gateway \<times> gw_out list) option" where
  "periodic_offer W inet gw =
     (if SD_OFFER_EVERY_N \<le> (frame_count gw + 2 ^ W - last_offer_frame gw) mod 2 ^ W
      then do {
        (sd, out) \<leftarrow> send_offers inet (gw_sd gw);
        Some (gw\<lparr>gw_sd := sd, last_offer_frame := frame_count gw\<rparr>, map SdOut out) }
      else Some (gw, []))"

definition after_publish :: "nat \<Rightarrow> (string \<Rightarrow> u32) \<Rightarrow> u64 \<Rightarrow> gateway \<Rightarrow> (gateway \<times> gw_out list) option" where
  "after_publish W inet now gw = do {
     let gw = gw\<lparr>frame_count := (frame_count gw + 1) mod 2 ^ W\<rparr>;
     let (gw, alarm) = watchdog_check now gw;
     (gw, offers) \<leftarrow> periodic_offer W inet gw;
     Some (gw, alarm @ offers @
       (if frame_count gw mod STATS_EVERY_N = 0 then [StatsTable (frame_count gw)] else [])) }"

definition on_frame ::
  "nat \<Rightarrow> (string \<Rightarrow> u32) \<Rightarrow> byte list \<Rightarrow> clocks \<Rightarrow> can_frame \<Rightarrow> gateway \<Rightarrow> (gateway \<times> gw_out list) option" where
  "on_frame W inet buf clk frame gw = do {
     let gw = gw\<lparr>gw_wd := feed (gw_wd gw) (clk_feed clk)\<rparr>;
     let id = can_id frame AND CAN_EFF_MASK;
     case find_message (gw_dbc gw) id of
       None \<Rightarrow> Some (gw, [])
     | Some msg \<Rightarrow> do {
         let bench = bench_record W (gw_bench gw) ''dbc_lookup'' ((clk_t1 clk - clk_t0 clk) div 1000);
         signals \<leftarrow> decode frame msg;
         let bench = bench_record W bench ''signal_decode'' ((clk_t2 clk - clk_t1 clk) div 1000);
         (pub, sent) \<leftarrow> publish_all buf (gw_pub gw) signals;
         let bench = bench_record W bench ''someip_publish'' ((clk_t3 clk - clk_t2 clk) div 1000);
         let bench = bench_record W bench ''end_to_end'' ((clk_t3 clk - clk_t0 clk) div 1000);
         (gw, out) \<leftarrow> after_publish W inet (clk_check clk) (gw\<lparr>gw_bench := bench, gw_pub := pub\<rparr>);
         Some (gw, map Notify sent @ out) } }"

section \<open>Callbacks of the event loop\<close>

datatype gw_cb = SdReader | CanReader | DoipListener | DoipClient int

text \<open>
  The results of the system calls a callback makes: \<open>recvfrom\<close> of the discovery socket,
  \<open>read\<close> of the CAN socket with the clock readings and the stack buffers of the frame
  callback, \<open>accept\<close> and the \<open>epoll_ctl\<close> for the new descriptor, and the bytes that wait in
  a client's stream, of which \<open>recv\<close> takes as many as the buffer has room for.
\<close>

record gw_input =
  in_sd :: "(byte list \<times> sockaddr_in) option"
  in_can :: "byte list option"
  in_clocks :: clocks
  in_stack :: "byte list"
  in_accept :: "int option"
  in_ctl :: bool
  in_stream :: "byte list option"

definition room :: "doip_server \<Rightarrow> int \<Rightarrow> nat" where
  "room srv fd = (case connections srv fd of None \<Rightarrow> 0 | Some conn \<Rightarrow> 4096 - recv_len conn)"

type_synonym gw_state = "gw_cb event_loop \<times> (gateway \<times> gw_out list)"

definition gw_call :: "nat \<Rightarrow> nat \<Rightarrow> (string \<Rightarrow> u32) \<Rightarrow> (gw_cb, gw_input, gateway \<times> gw_out list) caller" where
  "gw_call W fuel inet cb x st =
     (case st of (l, gw, out) \<Rightarrow>
        (case cb of
           SdReader \<Rightarrow> do {
             (sd, out') \<leftarrow> sd_on_readable W (gw_sd gw) (in_sd x);
             Some (False, l, gw\<lparr>gw_sd := sd\<rparr>, out @ map SdOut out') }
         | CanReader \<Rightarrow> do {
             received \<leftarrow> can_on_readable True (in_can x);
             (case received of
                None \<Rightarrow> Some (False, st)
              | Some frame \<Rightarrow> do {
                  (gw, out') \<leftarrow> on_frame W inet (in_stack x) (in_clocks x) frame gw;
                  Some (False, l, gw, out @ out') }) }
         | DoipListener \<Rightarrow>
             (case on_new_connection (gw_doip gw) (in_accept x) of
                (srv, None) \<Rightarrow> Some (False, l, gw\<lparr>gw_doip := srv\<rparr>, out)
              | (srv, Some client_fd) \<Rightarrow>
                  (let (ok, l) = add_reader (in_ctl x) l client_fd (DoipClient client_fd)
                   in Some (\<not> ok, l, gw\<lparr>gw_doip := srv\<rparr>, out)))
         | DoipClient fd \<Rightarrow>
             (case on_client_data W fuel (gw_doip gw) fd (map_option (take (room (gw_doip gw) fd)) (in_stream x)) of
                Inl _ \<Rightarrow> None
              | Inr (srv, out') \<Rightarrow> Some (False, l, gw\<lparr>gw_doip := srv\<rparr>, out @ map DoipOut out'))))"

section \<open>Start-up\<close>

datatype gw_error = NoConfig | NoDbc | SystemError string | Undefined

definition bindE :: "'e + 'a \<Rightarrow> ('a \<Rightarrow> 'e + 'b) \<Rightarrow> 'e + 'b" where
  "bindE m f = (case m of Inl e \<Rightarrow> Inl e | Inr x \<Rightarrow> f x)"

text \<open>A failure carries what was put out before it happened.\<close>

type_synonym 'a start = "(gw_error \<times> gw_out list) + 'a"

definition require :: "bool \<Rightarrow> string \<Rightarrow> Product_Type.unit start" where
  "require ok msg = (if ok then Inr () else Inl (SystemError msg, []))"

definition emit :: "gw_out list \<Rightarrow> 'a start \<Rightarrow> 'a start" where
  "emit out m = (case m of Inl (e, out') \<Rightarrow> Inl (e, out @ out') | Inr x \<Rightarrow> Inr x)"

record startup =
  pub_fd :: int
  epoll_fd :: int
  can_fd :: int
  can_ioctl :: bool
  can_bind :: bool
  sd_fd :: int
  sd_bind :: bool
  sd_ctl :: bool
  can_ctl :: bool
  doip_fd :: int
  doip_bind :: bool
  doip_listen :: bool
  doip_ctl :: bool

definition open_publisher :: "startup \<Rightarrow> publisher start" where
  "open_publisher s = bindE (require (0 \<le> pub_fd s) ''socket(UDP) failed: '') (\<lambda>_. Inr SomeIpPublisher)"

definition open_loop :: "startup \<Rightarrow> gw_cb event_loop start" where
  "open_loop s = bindE (require (0 \<le> epoll_fd s) ''epoll_create1: '') (\<lambda>_. Inr EventLoop)"

definition open_can :: "startup \<Rightarrow> int start" where
  "open_can s =
     bindE (require (0 \<le> can_fd s) ''socket(AF_CAN) failed: '') (\<lambda>_.
     bindE (require (can_ioctl s) ''ioctl SIOCGIFINDEX failed for '') (\<lambda>_.
     bindE (require (can_bind s) ''bind(AF_CAN) failed: '') (\<lambda>_. Inr (can_fd s))))"

definition open_sd :: "startup \<Rightarrow> sd_service start" where
  "open_sd s =
     bindE (require (0 \<le> sd_fd s) ''SD socket failed: '') (\<lambda>_.
     bindE (require (sd_bind s) ''SD bind failed: '') (\<lambda>_. Inr SomeIpSdService))"

definition open_doip :: "startup \<Rightarrow> u16 \<Rightarrow> doip_server start" where
  "open_doip s port =
     bindE (require (0 \<le> doip_fd s) ''DoIP socket failed: '') (\<lambda>_.
     bindE (require (doip_bind s) ''DoIP bind failed: '') (\<lambda>_.
     bindE (require (doip_listen s) ''DoIP listen failed: '') (\<lambda>_.
     Inr \<lparr>listen_fd = doip_fd s, doip_port = port, doip_uds = UdsHandler, connections = Map.empty\<rparr>)))"

definition register_reader :: "bool \<Rightarrow> gw_cb event_loop \<Rightarrow> int \<Rightarrow> gw_cb \<Rightarrow> gw_cb event_loop start" where
  "register_reader ok l fd cb =
     bindE (require (fst (add_reader ok l fd cb)) ''epoll_ctl ADD: '') (\<lambda>_. Inr (snd (add_reader ok l fd cb)))"

definition register_routes :: "publisher \<Rightarrow> signal_route list \<Rightarrow> publisher" where
  "register_routes p routes =
     foldl (\<lambda>p r. register_signal p (route_signal_name r) (route_service_id r) (route_method_id r)) p routes"

definition offer_all :: "(string \<Rightarrow> u32) \<Rightarrow> string \<Rightarrow> sd_service \<Rightarrow> sd_service" where
  "offer_all inet local_ip sd =
     (let sd = offer_service inet sd 0x0101 local_ip SOMEIP_DATA_PORT;
          sd = offer_service inet sd 0x0102 local_ip SOMEIP_DATA_PORT
      in offer_service inet sd 0x0103 local_ip SOMEIP_DATA_PORT)"

definition first_offers :: "(string \<Rightarrow> u32) \<Rightarrow> sd_service \<Rightarrow> (sd_service \<times> sd_out list) start" where
  "first_offers inet sd = (case send_offers inet sd of None \<Rightarrow> Inl (Undefined, []) | Some r \<Rightarrow> Inr r)"

text \<open>
  The statements of \<open>main\<close> up to \<open>loop.run()\<close>, in their order: \<open>args\<close> are the command line
  arguments behind the program name, \<open>conf\<close> and \<open>vehicle\<close> the contents of the two files.
\<close>

definition gw_start ::
  "nat \<Rightarrow> (string \<Rightarrow> u32) \<Rightarrow> startup \<Rightarrow> string list \<Rightarrow> string option \<Rightarrow> string option \<Rightarrow> gw_state start" where
  "gw_start W inet s args conf vehicle =
     (let local_ip = (case args of [] \<Rightarrow> ''127.0.0.1'' | a # _ \<Rightarrow> a);
          (conf_ok, routes) = config_load W [] conf;
          (dbc_ok, ms) = dbc_parse Map.empty vehicle in
      if \<not> conf_ok then Inl (NoConfig, [])
      else if \<not> dbc_ok then Inl (NoDbc, [])
      else
        bindE (open_publisher s) (\<lambda>pub.
        bindE (open_loop s) (\<lambda>l.
        bindE (open_can s) (\<lambda>cfd.
        bindE (open_sd s) (\<lambda>sd.
        bindE (register_reader (sd_ctl s) l (sd_fd s) SdReader) (\<lambda>l.
        bindE (first_offers inet (offer_all inet local_ip sd)) (\<lambda>(sd, offers). emit (map SdOut offers) (
        bindE (register_reader (can_ctl s) l cfd CanReader) (\<lambda>l.
        bindE (open_doip s 13400) (\<lambda>doip.
        bindE (register_reader (doip_ctl s) l (listen_fd doip) DoipListener) (\<lambda>l.
        Inr (l, \<lparr>gw_dbc = ms, gw_pub = register_routes pub routes, gw_bench = BenchmarkCollector,
                 gw_wd = new_watchdog 2000000, gw_sd = sd\<lparr>on_subscribe_set := True\<rparr>, gw_doip = doip,
                 frame_count = 0, last_offer_frame = 0\<rparr>, map SdOut offers))))))))))))"

text \<open>The whole program: the exit status, or that it is still waiting, with the outputs so far.\<close>

datatype gw_result = Exit int "gw_out list" | StillRunning gw_state

definition gw_main ::
  "nat \<Rightarrow> nat \<Rightarrow> (string \<Rightarrow> u32) \<Rightarrow> startup \<Rightarrow> string list \<Rightarrow> string option \<Rightarrow> string option
     \<Rightarrow> gw_input wait_result list \<Rightarrow> gw_result option" where
  "gw_main W fuel inet s args conf vehicle rs =
     (case gw_start W inet s args conf vehicle of
        Inl (_, out) \<Rightarrow> Some (Exit 1 out)
      | Inr st \<Rightarrow>
          (case loop_run (gw_call W fuel inet) rs st of
             None \<Rightarrow> None
           | Some (Stopped st) \<Rightarrow> Some (Exit 0 (snd (snd st)))
           | Some (Thrown st) \<Rightarrow> Some (Exit 1 (snd (snd st)))
           | Some (Waiting st) \<Rightarrow> Some (StillRunning st)))"

section \<open>The frame callback is defined\<close>

lemma publish_all_spec:
  "length buf = SOMEIP_MAX_SIZE \<Longrightarrow>
   publish_all buf p sigs = Some (run_steps pub_spec p (map (\<lambda>s. (buf, Publish s)) sigs))"
  by (induction sigs arbitrary: p) (simp_all add: publish_spec case_prod_unfold split: prod.split)

definition dbc_defined :: "dbc \<Rightarrow> bool" where
  "dbc_defined ms \<longleftrightarrow> (\<forall>id m. ms id = Some m \<longrightarrow> (\<forall>s\<in>set (signals m). \<not> (is_signed s \<and> sig_length s = 0)))"

lemma decode_total:
  assumes "frame_ok f" and "dbc_defined ms" and "ms k = Some m" obtains ds where "decode f m = Some ds"
proof -
  have "\<forall>s\<in>set (signals m). \<not> (is_signed s \<and> sig_length s = 0)" using assms(2,3) by (auto simp: dbc_defined_def)
  then have "decode f m \<noteq> None" by (auto simp: decode_def decode_all_None decode_signal_defined [OF assms(1)])
  with that show ?thesis by blast
qed

text \<open>What the tail of the callback leaves alone, and when it warns.\<close>

lemma watchdog_check_frame:
  "gw_dbc (fst (watchdog_check now gw)) = gw_dbc gw" "gw_doip (fst (watchdog_check now gw)) = gw_doip gw"
  "gw_pub (fst (watchdog_check now gw)) = gw_pub gw" "gw_sd (fst (watchdog_check now gw)) = gw_sd gw"
  "gw_bench (fst (watchdog_check now gw)) = gw_bench gw"
  "frame_count (fst (watchdog_check now gw)) = frame_count gw"
  "last_offer_frame (fst (watchdog_check now gw)) = last_offer_frame gw"
  "timeout_us (gw_wd (fst (watchdog_check now gw))) = timeout_us (gw_wd gw)"
  by (simp_all add: watchdog_check_def check_def Let_def)

lemma periodic_offer_total:
  "\<exists>gw' out. periodic_offer W inet gw = Some (gw', out) \<and> gw_dbc gw' = gw_dbc gw \<and> gw_doip gw' = gw_doip gw
     \<and> gw_pub gw' = gw_pub gw \<and> gw_wd gw' = gw_wd gw \<and> gw_bench gw' = gw_bench gw \<and> frame_count gw' = frame_count gw
     \<and> (\<forall>x\<in>set out. \<exists>y. x = SdOut y)"
  by (auto simp: periodic_offer_def send_offers_spec [where W = W] case_prod_unfold simp del: sd_spec.simps)

lemma after_publish_total:
  "\<exists>gw' out. after_publish W inet now gw = Some (gw', out) \<and> gw_dbc gw' = gw_dbc gw \<and> gw_doip gw' = gw_doip gw
     \<and> gw_pub gw' = gw_pub gw \<and> gw_bench gw' = gw_bench gw \<and> timeout_us (gw_wd gw') = timeout_us (gw_wd gw)
     \<and> (\<forall>x\<in>set out. \<forall>d. x \<noteq> Notify d)
     \<and> (BusSilent \<in> set out \<longrightarrow> fst (check (gw_wd gw) now))"
proof -
  let ?gw1 = "gw\<lparr>frame_count := (frame_count gw + 1) mod 2 ^ W\<rparr>"
  let ?gw2 = "fst (watchdog_check now ?gw1)"
  obtain gw3 out3 where 3: "periodic_offer W inet ?gw2 = Some (gw3, out3)"
    "gw_dbc gw3 = gw_dbc ?gw2" "gw_doip gw3 = gw_doip ?gw2" "gw_pub gw3 = gw_pub ?gw2" "gw_bench gw3 = gw_bench ?gw2"
    "gw_wd gw3 = gw_wd ?gw2" "\<forall>x\<in>set out3. \<exists>y. x = SdOut y"
    using periodic_offer_total [of W inet ?gw2] by blast
  have alarm: "BusSilent \<in> set (snd (watchdog_check now ?gw1)) \<longrightarrow> fst (check (gw_wd gw) now)"
    "\<forall>x\<in>set (snd (watchdog_check now ?gw1)). x = BusSilent"
    by (auto simp: watchdog_check_def)
  have eq: "after_publish W inet now gw = Some (gw3, snd (watchdog_check now ?gw1) @ out3 @
      (if frame_count gw3 mod STATS_EVERY_N = 0 then [StatsTable (frame_count gw3)] else []))"
    using 3(1) by (simp add: after_publish_def case_prod_unfold)
  show ?thesis unfolding eq using 3(2-7) alarm by (fastforce simp: watchdog_check_frame)
qed

definition masked_id :: "can_frame \<Rightarrow> u32" where
  "masked_id f = can_id f AND CAN_EFF_MASK"

lemma on_frame_unknown:
  "find_message (gw_dbc gw) (masked_id f) = None \<Longrightarrow>
   on_frame W inet buf clk f gw = Some (gw\<lparr>gw_wd := feed (gw_wd gw) (clk_feed clk)\<rparr>, [])"
  by (simp add: on_frame_def masked_id_def)

text \<open>The four latency samples of a frame.\<close>

definition frame_samples :: "clocks \<Rightarrow> (string \<times> u64) list" where
  "frame_samples clk =
     [(''dbc_lookup'', (clk_t1 clk - clk_t0 clk) div 1000), (''signal_decode'', (clk_t2 clk - clk_t1 clk) div 1000),
      (''someip_publish'', (clk_t3 clk - clk_t2 clk) div 1000), (''end_to_end'', (clk_t3 clk - clk_t0 clk) div 1000)]"

definition published :: "byte list \<Rightarrow> publisher \<Rightarrow> decoded_signal list \<Rightarrow> publisher \<times> byte list list" where
  "published buf p ds = run_steps pub_spec p (map (\<lambda>s. (buf, Publish s)) ds)"

lemma on_frame_known:
  assumes "find_message (gw_dbc gw) (masked_id f) = Some msg" and "decode f msg = Some ds"
    and "length buf = SOMEIP_MAX_SIZE"
  shows "on_frame W inet buf clk f gw = do {
     (gw', out) \<leftarrow> after_publish W inet (clk_check clk)
        (gw\<lparr>gw_wd := feed (gw_wd gw) (clk_feed clk), gw_bench := record_all W (gw_bench gw) (frame_samples clk),
            gw_pub := fst (published buf (gw_pub gw) ds)\<rparr>);
     Some (gw', map Notify (snd (published buf (gw_pub gw) ds)) @ out) }"
  using assms
  by (simp add: on_frame_def masked_id_def publish_all_spec published_def frame_samples_def record_all_def
      case_prod_unfold)

lemma on_frame_total:
  assumes "frame_ok f" and "dbc_defined (gw_dbc gw)" and "length buf = SOMEIP_MAX_SIZE"
  shows "\<exists>gw' out. on_frame W inet buf clk f gw = Some (gw', out) \<and> gw_dbc gw' = gw_dbc gw \<and> gw_doip gw' = gw_doip gw"
proof (cases "find_message (gw_dbc gw) (masked_id f)")
  case None
  then show ?thesis by (simp add: on_frame_unknown)
next
  case (Some msg)
  then have "gw_dbc gw (masked_id f) = Some msg" by (simp add: find_message_def)
  from decode_total [OF assms(1,2) this] obtain ds where "decode f msg = Some ds" .
  note known = on_frame_known [OF Some this assms(3)]
  let ?gw = "gw\<lparr>gw_wd := feed (gw_wd gw) (clk_feed clk), gw_bench := record_all W (gw_bench gw) (frame_samples clk),
      gw_pub := fst (published buf (gw_pub gw) ds)\<rparr>"
  obtain gw' out where "after_publish W inet (clk_check clk) ?gw = Some (gw', out)" "gw_dbc gw' = gw_dbc ?gw" "gw_doip gw' = gw_doip ?gw"
    using after_publish_total [of W inet "clk_check clk" ?gw] by blast
  then show ?thesis unfolding known by simp
qed

section \<open>What a frame puts out\<close>

text \<open>The signals of a frame that have a route, with the value in single precision.\<close>

definition routed :: "publisher \<Rightarrow> decoded_signal list \<Rightarrow> (u16 \<times> u16 \<times> fp) list" where
  "routed p ds = concat (map (\<lambda>d. case signal_map p (dec_name d) of
      None \<Rightarrow> [] | Some (service, method) \<Rightarrow> [(service, method, fp_cast binary32 (dec_value d))]) ds)"

fun notifications :: "u16 \<Rightarrow> (u16 \<times> u16 \<times> fp) list \<Rightarrow> byte list list" where
  "notifications sess [] = []"
| "notifications sess ((service, method, v) # rs) =
     someip_bytes (float_message service method sess v) # notifications (sess + 1) rs"

lemma published_routed:
  "published buf p ds = (p\<lparr>pub_session := pub_session p + of_nat (length (routed p ds))\<rparr>, notifications (pub_session p) (routed p ds))"
proof (induction ds arbitrary: p)
  case Nil
  then show ?case by (simp add: published_def routed_def)
next
  case (Cons d ds)
  show ?case
  proof (cases "signal_map p (dec_name d)")
    case None
    with Cons [of p] show ?thesis by (simp add: published_def pub_spec_def routed_def)
  next
    case (Some r)
    obtain sv mt where r: "r = (sv, mt)" by (cases r)
    let ?p = "p\<lparr>pub_session := pub_session p + 1\<rparr>"
    have "routed ?p ds = routed p ds" by (simp add: routed_def)
    with Cons [of ?p] Some r show ?thesis
      by (simp add: published_def pub_spec_def notify_def) (simp add: routed_def add.assoc)
  qed
qed

definition is_sd_out :: "gw_out \<Rightarrow> bool" where
  "is_sd_out x \<longleftrightarrow> (\<exists>y. x = SdOut y)"

definition is_notify :: "gw_out \<Rightarrow> bool" where
  "is_notify x \<longleftrightarrow> (\<exists>d. x = Notify d)"

definition known :: "gateway \<Rightarrow> can_frame \<Rightarrow> bool" where
  "known gw f \<longleftrightarrow> masked_id f \<in> dom (gw_dbc gw)"

definition frame_step :: "nat \<Rightarrow> (string \<Rightarrow> u32) \<Rightarrow> gateway \<Rightarrow> byte list \<times> clocks \<times> can_frame \<Rightarrow> (gateway \<times> gw_out list) option" where
  "frame_step W inet gw x = (case x of (buf, clk, f) \<Rightarrow> on_frame W inet buf clk f gw)"

definition frame_in_ok :: "byte list \<times> clocks \<times> can_frame \<Rightarrow> bool" where
  "frame_in_ok x \<longleftrightarrow> (case x of (buf, clk, f) \<Rightarrow> length buf = SOMEIP_MAX_SIZE \<and> frame_ok f)"

lemma on_frame_forwards:
  assumes "length buf = SOMEIP_MAX_SIZE" and "gw_dbc gw (can_id f AND CAN_EFF_MASK) = Some msg" and "decode f msg = Some ds"
  shows "\<exists>gw' rest. on_frame W inet buf clk f gw = Some (gw', map Notify (notifications (pub_session (gw_pub gw)) (routed (gw_pub gw) ds)) @ rest)
     \<and> filter is_notify rest = []
     \<and> gw_pub gw' = gw_pub gw\<lparr>pub_session := pub_session (gw_pub gw) + of_nat (length (routed (gw_pub gw) ds))\<rparr>
     \<and> gw_bench gw' = record_all W (gw_bench gw) (frame_samples clk)"
proof -
  have "find_message (gw_dbc gw) (masked_id f) = Some msg" using assms(2) by (simp add: find_message_def masked_id_def)
  note known = on_frame_known [OF this assms(3,1)]
  let ?gw = "gw\<lparr>gw_wd := feed (gw_wd gw) (clk_feed clk), gw_bench := record_all W (gw_bench gw) (frame_samples clk),
    gw_pub := fst (published buf (gw_pub gw) ds)\<rparr>"
  obtain gw' out where out: "after_publish W inet (clk_check clk) ?gw = Some (gw', out)" "gw_pub gw' = gw_pub ?gw"
    "gw_bench gw' = gw_bench ?gw" "\<forall>x\<in>set out. \<forall>d. x \<noteq> Notify d"
    using after_publish_total [of W inet "clk_check clk" ?gw] by blast
  then have "filter is_notify out = []" by (auto simp: filter_empty_conv is_notify_def)
  with out show ?thesis unfolding known by (simp add: published_routed)
qed

section \<open>Counting frames\<close>

text \<open>The counters between two frames: an offer round every hundred frames, counted from zero.\<close>

definition counters_ok :: "gateway \<Rightarrow> bool" where
  "counters_ok gw \<longleftrightarrow> last_offer_frame gw = 100 * (frame_count gw div 100)"

lemma offer_due:
  fixes m :: nat
  assumes "m + 1 < 2 ^ W"
  shows "100 \<le> (m + 1 + 2 ^ W - 100 * (m div 100)) mod 2 ^ W \<longleftrightarrow> (m + 1) mod 100 = 0"
proof -
  have split: "m = 100 * (m div 100) + m mod 100" by simp
  then have eq: "m + 1 + 2 ^ W - 100 * (m div 100) = (m mod 100 + 1) + 2 ^ W" by linarith
  have "m mod 100 + 1 \<le> m + 1" by simp
  then have "m mod 100 + 1 < 2 ^ W" using assms by linarith
  then have "(m + 1 + 2 ^ W - 100 * (m div 100)) mod 2 ^ W = m mod 100 + 1" unfolding eq by (simp only: mod_add_self2 mod_less)
  moreover have "m mod 100 < 100" by simp
  ultimately show ?thesis by (auto simp: mod_Suc)
qed

lemma after_publish_counters:
  assumes "counters_ok gw" and "frame_count gw + 1 < 2 ^ W" and "after_publish W inet now gw = Some (gw', out)"
  shows "frame_count gw' = frame_count gw + 1 \<and> counters_ok gw' \<and> offered (gw_sd gw') = offered (gw_sd gw)
     \<and> length (filter is_sd_out out)
         = (if (frame_count gw + 1) mod 100 = 0 \<and> offered (gw_sd gw) \<noteq> [] then 1 else 0)"
proof -
  let ?n = "frame_count gw + 1"
  let ?gw1 = "gw\<lparr>frame_count := ?n mod 2 ^ W\<rparr>"
  let ?gw2 = "fst (watchdog_check now ?gw1)" and ?al = "snd (watchdog_check now ?gw1)"
  have n: "frame_count ?gw2 = ?n" "last_offer_frame ?gw2 = 100 * (frame_count gw div 100)" "gw_sd ?gw2 = gw_sd gw"
    using assms(1,2) by (simp_all add: watchdog_check_frame counters_ok_def)
  have due: "100 \<le> (frame_count ?gw2 + 2 ^ W - last_offer_frame ?gw2) mod 2 ^ W \<longleftrightarrow> ?n mod 100 = 0"
    unfolding n by (rule offer_due [OF assms(2)])
  have al: "filter is_sd_out ?al = []" by (simp add: watchdog_check_def is_sd_out_def)
  obtain gw3 o3 where 3: "periodic_offer W inet ?gw2 = Some (gw3, o3)" using periodic_offer_total by blast
  then have "after_publish W inet now gw
      = Some (gw3, ?al @ o3 @ (if frame_count gw3 mod STATS_EVERY_N = 0 then [StatsTable (frame_count gw3)] else []))"
    by (simp add: after_publish_def case_prod_unfold)
  then have eq: "gw' = gw3" "out = ?al @ o3 @ (if frame_count gw3 mod STATS_EVERY_N = 0 then [StatsTable (frame_count gw3)] else [])"
    using assms(3) by simp_all
  show ?thesis
  proof (cases "?n mod 100 = 0")
    case True
    then have "gw3 = ?gw2\<lparr>gw_sd := fst (sd_spec inet W (gw_sd gw) SendOffers), last_offer_frame := ?n\<rparr>"
      "o3 = map SdOut (snd (sd_spec inet W (gw_sd gw) SendOffers))"
      using 3 due n by (simp_all add: periodic_offer_def SD_OFFER_EVERY_N_def send_offers_spec [where W = W] case_prod_unfold del: sd_spec.simps)
    moreover have "?n = 100 * (?n div 100)" using True mult_div_mod_eq [of 100 ?n] by linarith
    ultimately show ?thesis using n al True by (simp add: eq counters_ok_def is_sd_out_def)
  next
    case False
    then have "gw3 = ?gw2" "o3 = []" using 3 due by (simp_all add: periodic_offer_def SD_OFFER_EVERY_N_def)
    moreover have "frame_count gw div 100 = ?n div 100" using False by (simp add: div_Suc)
    ultimately show ?thesis using False n al by (simp add: eq counters_ok_def is_sd_out_def)
  qed
qed

lemma frame_step_counters:
  assumes "counters_ok gw" and "offered (gw_sd gw) \<noteq> []" and "dbc_defined (gw_dbc gw)" and "frame_in_ok x"
    and "frame_count gw + 1 < 2 ^ W"
  shows "\<exists>gw' out. frame_step W inet gw x = Some (gw', out) \<and> counters_ok gw' \<and> offered (gw_sd gw') = offered (gw_sd gw)
     \<and> gw_dbc gw' = gw_dbc gw \<and> frame_count gw' = frame_count gw + (if known gw (snd (snd x)) then 1 else 0)
     \<and> length (filter is_sd_out out) + frame_count gw div 100 = frame_count gw' div 100"
proof -
  obtain buf clk f where x: "x = (buf, clk, f)" by (cases x)
  have ok: "length buf = SOMEIP_MAX_SIZE" "frame_ok f" using assms(4) by (simp_all add: frame_in_ok_def x)
  show ?thesis
  proof (cases "find_message (gw_dbc gw) (masked_id f)")
    case None
    then show ?thesis using assms(1)
      by (simp add: frame_step_def x on_frame_unknown counters_ok_def known_def find_message_def domIff)
  next
    case (Some msg)
    then have m: "gw_dbc gw (masked_id f) = Some msg" by (simp add: find_message_def)
    from decode_total [OF ok(2) assms(3) m] obtain ds where "decode f msg = Some ds" .
    note known = on_frame_known [OF Some this ok(1)]
    let ?gw = "gw\<lparr>gw_wd := feed (gw_wd gw) (clk_feed clk), gw_bench := record_all W (gw_bench gw) (frame_samples clk),
      gw_pub := fst (published buf (gw_pub gw) ds)\<rparr>"
    obtain gw' out where out: "after_publish W inet (clk_check clk) ?gw = Some (gw', out)" "gw_dbc gw' = gw_dbc ?gw"
      using after_publish_total [of W inet "clk_check clk" ?gw] by blast
    have "counters_ok ?gw" using assms(1) by (simp add: counters_ok_def)
    from after_publish_counters [OF this _ out(1)] assms(2,5)
    have c: "frame_count gw' = frame_count gw + 1" "counters_ok gw'" "offered (gw_sd gw') = offered (gw_sd gw)"
      "length (filter is_sd_out out) = (if (frame_count gw + 1) mod 100 = 0 then 1 else 0)" by simp_all
    have "filter is_sd_out (map Notify ns) = []" for ns by (simp add: is_sd_out_def)
    then show ?thesis using c out m
      by (simp add: frame_step_def x known known_def domIff div_Suc)
  qed
qed

section \<open>Properties\<close>

text \<open>
  C11: Services are offered every hundred frames. From the start of the counters, any sequence of
  CAN frames of eight bytes is handled without undefined behaviour; the frame counter counts the
  frames whose identifier the database knows, and the number of offer messages sent on the way is
  the number of multiples of one hundred the counter passed: none is missed, none is sent twice.
\<close>

theorem gw_offers_periodic:
  assumes "counters_ok gw" and "offered (gw_sd gw) \<noteq> []" and "dbc_defined (gw_dbc gw)" and "\<forall>x\<in>set xs. frame_in_ok x"
    and "frame_count gw + length xs < 2 ^ W"
  shows "\<exists>gw' out. try_steps (frame_step W inet) gw xs = Some (gw', out)
     \<and> frame_count gw' = frame_count gw + length (filter (\<lambda>x. known gw (snd (snd x))) xs)
     \<and> length (filter is_sd_out out) + frame_count gw div 100 = frame_count gw' div 100"
  using assms
proof (induction xs arbitrary: gw)
  case Nil
  then show ?case by simp
next
  case (Cons x xs)
  obtain gw1 out1 where 1: "frame_step W inet gw x = Some (gw1, out1)" "counters_ok gw1" "offered (gw_sd gw1) = offered (gw_sd gw)"
    "gw_dbc gw1 = gw_dbc gw" "frame_count gw1 = frame_count gw + (if known gw (snd (snd x)) then 1 else 0)"
    "length (filter is_sd_out out1) + frame_count gw div 100 = frame_count gw1 div 100"
    using frame_step_counters [OF Cons.prems(1-3), of x W inet] Cons.prems(4,5) by auto
  have "frame_count gw1 + length xs < 2 ^ W" using Cons.prems(5) 1(5) by (simp split: if_splits)
  with Cons.IH [of gw1] 1(2-4) Cons.prems(2-4)
  obtain gw2 out2 where 2: "try_steps (frame_step W inet) gw1 xs = Some (gw2, out2)"
    "frame_count gw2 = frame_count gw1 + length (filter (\<lambda>x. known gw1 (snd (snd x))) xs)"
    "length (filter is_sd_out out2) + frame_count gw1 div 100 = frame_count gw2 div 100" by auto
  moreover have "known gw1 f = known gw f" for f using 1(4) by (simp add: known_def)
  ultimately show ?case using 1(1,5,6) by (simp split: if_splits)
qed

text \<open>A small gateway for the examples: the brake message, one route, one offered service.\<close>

definition demo_gw :: gateway where
  "demo_gw = \<lparr>gw_dbc = [293 \<mapsto> brake_msg\<lparr>signals := [brake_active]\<rparr>],
     gw_pub = register_signal SomeIpPublisher ''BrakeActive'' 0x0103 0x8002, gw_bench = BenchmarkCollector,
     gw_wd = new_watchdog 2000000, gw_sd = offer_service (\<lambda>_. 0x0100007F) SomeIpSdService 0x0103 ''127.0.0.1'' 30501,
     gw_doip = \<lparr>listen_fd = 9, doip_port = 13400, doip_uds = UdsHandler, connections = Map.empty\<rparr>,
     frame_count = 99, last_offer_frame = 0\<rparr>"

definition brake_frame :: can_frame where
  "brake_frame = \<lparr>can_id = 293, can_dlc = 8, data = [0x20, 0x01, 0, 0, 0, 0, 0, 0]\<rparr>"

definition demo_clocks :: clocks where
  "demo_clocks = \<lparr>clk_feed = 1000, clk_t0 = 2000, clk_t1 = 3000, clk_t2 = 5000, clk_t3 = 9000, clk_check = 10000\<rparr>"

lemma demo_dbc_defined: "dbc_defined (gw_dbc demo_gw)"
  by (simp add: dbc_defined_def demo_gw_def brake_active_def)

lemma demo_counters: "counters_ok demo_gw" "frame_count demo_gw = 99" "offered (gw_sd demo_gw) \<noteq> []"
  by (simp_all add: demo_gw_def counters_ok_def offer_service_def)

lemma demo_known: "known demo_gw brake_frame" "\<not> known demo_gw (brake_frame\<lparr>can_id := 5\<rparr>)"
  by (simp_all add: known_def demo_gw_def masked_id_def brake_frame_def CAN_EFF_MASK_def)

lemma demo_frames: "frame_ok brake_frame" "frame_ok (brake_frame\<lparr>can_id := k\<rparr>)"
  by (simp_all add: frame_ok_def brake_frame_def)

lemmas demo_facts = demo_dbc_defined demo_counters demo_known demo_frames

theorem gw_offers_periodic_witness:
  "\<exists>gw' out. try_steps (frame_step 64 (\<lambda>_. 0x0100007F)) demo_gw
       [(stack_bytes, demo_clocks, brake_frame\<lparr>can_id := 5\<rparr>), (stack_bytes, demo_clocks, brake_frame)] = Some (gw', out)
     \<and> frame_count gw' = 100 \<and> length (filter is_sd_out out) = 1"
  using gw_offers_periodic [of demo_gw "[(stack_bytes, demo_clocks, brake_frame\<lparr>can_id := 5\<rparr>), (stack_bytes, demo_clocks, brake_frame)]"
      64 "\<lambda>_. 0x0100007F"] demo_dbc_defined
  by (simp add: demo_facts frame_in_ok_def del: try_steps.simps) (auto simp del: try_steps.simps)

text \<open>
  C4: A CAN frame is forwarded signal by signal. For a frame whose identifier, masked to 29
  bits, is in the database, the notifications sent are exactly the decoded signals that have a
  route, in the order of the database, each with its service and method, its value in single
  precision and consecutive session numbers; they come before everything else the frame causes,
  and the four latency samples are recorded. A frame with an unknown identifier feeds the
  watchdog and does nothing else.
\<close>

theorem gw_forwards_frame:
  assumes "length buf = SOMEIP_MAX_SIZE"
  shows "(\<forall>msg ds. gw_dbc gw (can_id f AND CAN_EFF_MASK) = Some msg \<longrightarrow> decode f msg = Some ds \<longrightarrow>
       (\<exists>gw' rest. on_frame W inet buf clk f gw = Some (gw', map Notify (notifications (pub_session (gw_pub gw)) (routed (gw_pub gw) ds)) @ rest)
          \<and> filter is_notify rest = []
          \<and> gw_pub gw' = gw_pub gw\<lparr>pub_session := pub_session (gw_pub gw) + of_nat (length (routed (gw_pub gw) ds))\<rparr>
          \<and> gw_bench gw' = record_all W (gw_bench gw) (frame_samples clk)))
   \<and> (gw_dbc gw (can_id f AND CAN_EFF_MASK) = None \<longrightarrow>
       on_frame W inet buf clk f gw = Some (gw\<lparr>gw_wd := feed (gw_wd gw) (clk_feed clk)\<rparr>, []))"
  using on_frame_forwards [OF assms] on_frame_unknown [of gw f] by (simp add: masked_id_def find_message_def)

theorem gw_forwards_frame_witness:
  "(\<exists>ds gw' rest. decode brake_frame (brake_msg\<lparr>signals := [brake_active]\<rparr>) = Some ds
      \<and> on_frame 64 (\<lambda>_. 0) stack_bytes demo_clocks brake_frame demo_gw
          = Some (gw', map Notify (notifications 1 (routed (gw_pub demo_gw) ds)) @ rest) \<and> filter is_notify rest = [])
   \<and> on_frame 64 (\<lambda>_. 0) stack_bytes demo_clocks (brake_frame\<lparr>can_id := 5\<rparr>) demo_gw
       = Some (demo_gw\<lparr>gw_wd := feed (gw_wd demo_gw) 1000\<rparr>, [])"
proof -
  have m: "gw_dbc demo_gw (can_id brake_frame AND CAN_EFF_MASK) = Some (brake_msg\<lparr>signals := [brake_active]\<rparr>)"
    "gw_dbc demo_gw (can_id (brake_frame\<lparr>can_id := 5\<rparr>) AND CAN_EFF_MASK) = None" "pub_session (gw_pub demo_gw) = 1"
    "clk_feed demo_clocks = 1000"
    by (simp_all add: demo_gw_def brake_frame_def CAN_EFF_MASK_def register_signal_def SomeIpPublisher_def demo_clocks_def)
  from decode_total [OF demo_frames(1) demo_dbc_defined m(1)] obtain ds
    where ds: "decode brake_frame (brake_msg\<lparr>signals := [brake_active]\<rparr>) = Some ds" .
  from gw_forwards_frame [OF length_stack_bytes, of demo_gw brake_frame 64 "\<lambda>_. 0" demo_clocks] m(1,3) ds
  have "\<exists>gw' rest. on_frame 64 (\<lambda>_. 0) stack_bytes demo_clocks brake_frame demo_gw
      = Some (gw', map Notify (notifications 1 (routed (gw_pub demo_gw) ds)) @ rest) \<and> filter is_notify rest = []"
    by auto
  with ds gw_forwards_frame [OF length_stack_bytes, of demo_gw "brake_frame\<lparr>can_id := 5\<rparr>" 64 "\<lambda>_. 0" demo_clocks] m(2,4)
  show ?thesis by simp
qed

end
