(* ===== verification/Gateway_Run.thy ===== *)
theory Gateway_Run
  imports Gateway
begin

text \<open>
  The running program: the invariant its callbacks keep, which makes them callbacks in the sense
  of the event loop, what start-up leaves, and what holds of every run of \<open>main\<close>.
\<close>

section \<open>The invariant of the running gateway\<close>

definition gw_inv :: "gw_state \<Rightarrow> bool" where
  "gw_inv st \<longleftrightarrow> (case st of (l, gw, out) \<Rightarrow>
     srv_wf (gw_doip gw) \<and> dbc_defined (gw_dbc gw)
     \<and> (\<forall>fd fd'. readers l fd = Some (DoipClient fd') \<longrightarrow> fd' = fd))"

definition input_ok :: "gw_input \<Rightarrow> bool" where
  "input_ok x \<longleftrightarrow> length (in_stack x) = SOMEIP_MAX_SIZE \<and> (\<forall>bs. in_can x = Some bs \<longrightarrow> length bs \<le> 16)"

lemma client_step:
  assumes "33 \<le> W" and "4096 < fuel" and "srv_wf srv"
  shows "\<exists>srv' out. on_client_data W fuel srv fd (map_option (take (room srv fd)) r) = Inr (srv', out) \<and> srv_wf srv'"
proof -
  have "recv_ok srv (Readable fd (map_option (take (room srv fd)) r))"
    by (cases r) (auto simp: recv_ok_def room_def split: option.splits)
  from doip_step_wf [OF assms this] show ?thesis by (simp add: doip_step_def)
qed

lemma accept_wf: "srv_wf srv \<Longrightarrow> srv_wf (fst (on_new_connection srv a))"
  using doip_step_wf [of 33 4097 srv "Accepted a"] by (simp add: doip_step_def recv_ok_def)

lemma can_received_ok:
  assumes "\<forall>bs. r = Some bs \<longrightarrow> length bs \<le> 16"
  obtains g where "can_on_readable True r = Some g" and "\<And>f. g = Some f \<Longrightarrow> frame_ok f"
proof (cases r)
  case None
  with that show ?thesis by (simp add: can_on_readable_def)
next
  case (Some bs)
  with assms that show ?thesis
    by (cases "length bs < 16") (auto simp: can_on_readable_def frame_object_def put_def frame_ok_def)
qed

lemma sd_readable_total: obtains sd' out where "sd_on_readable W sd r = Some (sd', out)"
proof -
  have "\<exists>p. sd_on_readable W sd r = Some p" by (cases r) (auto simp: sd_on_readable_def handle_sd_spec)
  with that show ?thesis by fast
qed

lemma not_thrown [simp]: "\<exists>thrown. \<not> thrown"
  by blast

lemma gw_call_inv:
  assumes W: "33 \<le> W" "4096 < fuel" and inv: "gw_inv st" and cb: "readers (fst st) fd = Some cb" and x: "input_ok x"
  shows "\<exists>thrown st'. gw_call W fuel inet cb x st = Some (thrown, st') \<and> gw_inv st'"
proof -
  obtain l gw out where st: "st = (l, gw, out)" by (cases st) auto
  note i = inv [unfolded gw_inv_def st prod.case]
  show ?thesis
  proof (cases cb)
    case SdReader
    obtain sd' out' where "sd_on_readable W (gw_sd gw) (in_sd x) = Some (sd', out')" by (rule sd_readable_total)
    with SdReader i show ?thesis by (simp add: gw_call_def st gw_inv_def)
  next
    case CanReader
    have "\<forall>bs. in_can x = Some bs \<longrightarrow> length bs \<le> 16" using x by (simp add: input_ok_def)
    from can_received_ok [OF this] obtain g where g: "can_on_readable True (in_can x) = Some g" "\<And>f. g = Some f \<Longrightarrow> frame_ok f" by blast
    show ?thesis
    proof (cases g)
      case None
      with CanReader g(1) inv show ?thesis by (simp add: gw_call_def st)
    next
      case (Some f)
      obtain gw' out' where "on_frame W inet (in_stack x) (in_clocks x) f gw = Some (gw', out')"
        "gw_dbc gw' = gw_dbc gw" "gw_doip gw' = gw_doip gw"
        using on_frame_total [OF g(2) [OF Some] conjunct1 [OF conjunct2 [OF i]]] x unfolding input_ok_def by blast
      with Some CanReader g(1) i show ?thesis by (simp add: gw_call_def st gw_inv_def)
    qed
  next
    case DoipListener
    have wf: "srv_wf (fst (on_new_connection (gw_doip gw) (in_accept x)))" using i by (intro accept_wf) simp
    show ?thesis
    proof (cases "in_accept x")
      case None
      with DoipListener i show ?thesis by (simp add: gw_call_def st gw_inv_def on_new_connection_def)
    next
      case (Some a)
      with wf DoipListener i show ?thesis
        by (simp add: gw_call_def st gw_inv_def on_new_connection_def add_reader_def Let_def)
    qed
  next
    case (DoipClient fd')
    obtain srv' out' where "on_client_data W fuel (gw_doip gw) fd' (map_option (take (room (gw_doip gw) fd')) (in_stream x)) = Inr (srv', out')"
      "srv_wf srv'"
      using client_step [OF W] i by blast
    with DoipClient i show ?thesis by (simp add: gw_call_def st gw_inv_def)
  qed
qed

text \<open>On a 64-bit host the callbacks of the gateway meet the contract of the event loop.\<close>

interpretation gw: callbacks "gw_call 64 4097 inet" gw_inv input_ok for inet
proof
  fix st :: gw_state and fd cb x
  assume "gw_inv st" "readers (fst st) fd = Some cb" "input_ok x"
  then show "\<exists>thrown st'. gw_call 64 4097 inet cb x st = Some (thrown, st') \<and> gw_inv st'"
    by (rule gw_call_inv [rotated 2]) simp_all
next
  fix l :: "gw_cb event_loop" and w b
  assume "gw_inv (l, w)"
  then show "gw_inv (l\<lparr>running := b\<rparr>, w)" by (simp add: gw_inv_def split: prod.splits)
qed

section \<open>Start-up\<close>

definition sys_ok :: "startup \<Rightarrow> bool" where
  "sys_ok s \<longleftrightarrow> 0 \<le> pub_fd s \<and> 0 \<le> epoll_fd s \<and> 0 \<le> can_fd s \<and> can_ioctl s \<and> can_bind s \<and> 0 \<le> sd_fd s \<and> sd_bind s
     \<and> sd_ctl s \<and> can_ctl s \<and> 0 \<le> doip_fd s \<and> doip_bind s \<and> doip_listen s \<and> doip_ctl s"

definition own_address :: "string list \<Rightarrow> string" where
  "own_address args = (if args = [] then ''127.0.0.1'' else hd args)"

definition own_services :: "u32 \<Rightarrow> offered_service list" where
  "own_services ip = map (\<lambda>k. \<lparr>offered_service_id = k, offered_addr = ip, offered_port = 30501\<rparr>) [0x0101, 0x0102, 0x0103]"

definition first_offer :: "(string \<Rightarrow> u32) \<Rightarrow> string list \<Rightarrow> gw_out" where
  "first_offer inet args = SdOut (SendDatagram \<lparr>sin_port = htons 30490, sin_addr = inet SOMEIP_SD_MULTICAST\<rparr>
     (someip_bytes (sd_someip (offers_message (own_services (inet (own_address args)))) 1)))"

definition route_map :: "signal_route list \<Rightarrow> (string \<rightharpoonup> u16 \<times> u16)" where
  "route_map rs = map_of (rev (map (\<lambda>r. (route_signal_name r, route_service_id r, route_method_id r)) rs))"

definition initial_gateway :: "startup \<Rightarrow> u32 \<Rightarrow> signal_route list \<Rightarrow> dbc \<Rightarrow> gateway" where
  "initial_gateway s ip routes ms =
     \<lparr>gw_dbc = ms, gw_pub = \<lparr>pub_session = 1, signal_map = route_map routes\<rparr>, gw_bench = BenchmarkCollector,
      gw_wd = new_watchdog 2000000,
      gw_sd = \<lparr>sd_session = 2, offered = own_services ip, subscribers = [], on_subscribe_set = True\<rparr>,
      gw_doip = \<lparr>listen_fd = doip_fd s, doip_port = 13400, doip_uds = UdsHandler, connections = Map.empty\<rparr>,
      frame_count = 0, last_offer_frame = 0\<rparr>"

definition initial_loop :: "startup \<Rightarrow> gw_cb event_loop" where
  "initial_loop s = \<lparr>readers = [sd_fd s \<mapsto> SdReader, can_fd s \<mapsto> CanReader, doip_fd s \<mapsto> DoipListener], running = False\<rparr>"

lemma route_map_append:
  "route_map (rs @ [r]) = (route_map rs)(route_signal_name r \<mapsto> (route_service_id r, route_method_id r))"
  by (auto simp: route_map_def)

lemma route_map_Nil [simp]: "route_map [] = Map.empty"
  by (simp add: route_map_def)

lemma register_routes_map:
  "register_routes p rs = p\<lparr>signal_map := signal_map p ++ route_map rs\<rparr>"
proof (induction rs rule: rev_induct)
  case Nil
  then show ?case by (simp add: register_routes_def)
next
  case (snoc r rs)
  have eq: "signal_map p ++ route_map (rs @ [r])
      = (signal_map p ++ route_map rs)(route_signal_name r \<mapsto> (route_service_id r, route_method_id r))"
    unfolding route_map_append by (rule map_add_upd)
  show ?case unfolding eq using snoc by (simp add: register_routes_def register_signal_def del: fun_upd_apply)
qed

lemma first_offers_sent:
  "first_offers inet (offer_all inet (own_address args) SomeIpSdService)
     = Inr (\<lparr>sd_session = 2, offered = own_services (inet (own_address args)), subscribers = [], on_subscribe_set = False\<rparr>,
            [SendDatagram \<lparr>sin_port = htons 30490, sin_addr = inet SOMEIP_SD_MULTICAST\<rparr>
               (someip_bytes (sd_someip (offers_message (own_services (inet (own_address args)))) 1))])"
  by (simp add: first_offers_def offer_all_def offer_service_def SomeIpSdService_def send_offers_spec [where W = 64]
      own_services_def SOMEIP_DATA_PORT_def SOMEIP_SD_PORT_def Let_def)

lemmas open_defs = open_publisher_def open_loop_def open_can_def open_sd_def open_doip_def register_reader_def
  require_def bindE_def emit_def add_reader_def EventLoop_def

lemma gw_start_succeeds:
  assumes "fst (config_load W [] conf)" and "fst (dbc_parse Map.empty vehicle)" and "sys_ok s"
  shows "gw_start W inet s args conf vehicle
     = Inr (initial_loop s, initial_gateway s (inet (own_address args)) (snd (config_load W [] conf)) (snd (dbc_parse Map.empty vehicle)),
            [first_offer inet args])"
proof -
  have ip: "(case args of [] \<Rightarrow> ''127.0.0.1'' | a # _ \<Rightarrow> a) = own_address args" by (cases args) (simp_all add: own_address_def)
  show ?thesis using assms first_offers_sent [of inet args]
    unfolding gw_start_def ip
    by (simp add: case_prod_unfold open_defs sys_ok_def register_routes_map initial_gateway_def initial_loop_def
        SomeIpPublisher_def first_offer_def)
qed

lemma gw_start_fails:
  assumes "\<not> (fst (config_load W [] conf) \<and> fst (dbc_parse Map.empty vehicle) \<and> sys_ok s)"
  shows "\<exists>e out. gw_start W inet s args conf vehicle = Inl (e, out) \<and> (out = [] \<or> out = [first_offer inet args])"
proof -
  have ip: "(case args of [] \<Rightarrow> ''127.0.0.1'' | a # _ \<Rightarrow> a) = own_address args" by (cases args) (simp_all add: own_address_def)
  show ?thesis using assms first_offers_sent [of inet args]
    unfolding gw_start_def ip
    by (simp add: case_prod_unfold Let_def open_defs sys_ok_def first_offer_def)
qed

section \<open>The whole program\<close>

text \<open>
  C7: Start-up is all or nothing. If the configuration has a route, the database file can be
  read and every system call succeeds, the program enters its loop with the readers of service
  discovery, CAN and DoIP registered, the routes of the configuration (the last one of a signal
  wins), the parsed database, the three services offered for the given address on port 30501, and
  one offer message sent. If anything fails, the exit status is 1, whatever events were to come,
  and at most that offer message was sent.
\<close>

theorem gw_start_correct:
  "(fst (config_load W [] conf) \<and> fst (dbc_parse Map.empty vehicle) \<and> sys_ok s \<longrightarrow>
      gw_start W inet s args conf vehicle
        = Inr (initial_loop s,
               initial_gateway s (inet (own_address args)) (snd (config_load W [] conf)) (snd (dbc_parse Map.empty vehicle)),
               [first_offer inet args]))
   \<and> (\<not> (fst (config_load W [] conf) \<and> fst (dbc_parse Map.empty vehicle) \<and> sys_ok s) \<longrightarrow>
      (\<exists>out. gw_main W fuel inet s args conf vehicle rs = Some (Exit 1 out) \<and> (out = [] \<or> out = [first_offer inet args])))"
proof -
  have "\<exists>out. gw_main W fuel inet s args conf vehicle rs = Some (Exit 1 out) \<and> (out = [] \<or> out = [first_offer inet args])"
    if "\<not> (fst (config_load W [] conf) \<and> fst (dbc_parse Map.empty vehicle) \<and> sys_ok s)"
    using gw_start_fails [OF that, of inet args] by (auto simp: gw_main_def)
  with gw_start_succeeds show ?thesis by blast
qed

definition demo_startup :: startup where
  "demo_startup = \<lparr>pub_fd = 3, epoll_fd = 4, can_fd = 5, can_ioctl = True, can_bind = True, sd_fd = 6, sd_bind = True, sd_ctl = True,
     can_ctl = True, doip_fd = 7, doip_bind = True, doip_listen = True, doip_ctl = True\<rparr>"

definition demo_conf :: string where
  "demo_conf = lf_file (map conf_text [Route ''BrakeActive'' 0x0103 0x8002])"

lemma demo_sys_ok: "sys_ok demo_startup"
  by (simp add: sys_ok_def demo_startup_def)

lemma demo_config: "config_load 64 [] (Some demo_conf)
    = (True, [\<lparr>route_signal_name = ''BrakeActive'', route_service_id = 0x0103, route_method_id = 0x8002\<rparr>])"
  using config_lines_loaded [of "[Route ''BrakeActive'' 0x0103 0x8002]" 64 "[]"]
  by (simp add: demo_conf_def isspace_def)

lemma demo_dbc: "dbc_parse Map.empty (Some (lf_file [brake_header, brake_line]))
    = (True, [293 \<mapsto> brake_msg\<lparr>signals := [brake_active]\<rparr>])"
  using dbc_lines_parsed [of brake_header "[brake_line]" brake_msg "[brake_active]" Map.empty]
  by (simp add: brake_lines) (simp add: brake_header_def brake_line_def brake_msg_def)

theorem gw_start_correct_witness:
  "gw_start 64 (\<lambda>_. 0) demo_startup [] (Some demo_conf) (Some (lf_file [brake_header, brake_line]))
     = Inr (initial_loop demo_startup,
            initial_gateway demo_startup 0 [\<lparr>route_signal_name = ''BrakeActive'', route_service_id = 0x0103, route_method_id = 0x8002\<rparr>]
              [293 \<mapsto> brake_msg\<lparr>signals := [brake_active]\<rparr>],
            [first_offer (\<lambda>_. 0) []])
   \<and> (\<exists>out. gw_main 64 4097 (\<lambda>_. 0) (demo_startup\<lparr>can_ioctl := False\<rparr>) [] (Some demo_conf)
         (Some (lf_file [brake_header, brake_line])) [] = Some (Exit 1 out))"
  using gw_start_correct [of 64 "Some demo_conf" "Some (lf_file [brake_header, brake_line])" demo_startup "\<lambda>_. 0" "[]" 4097 "[]"]
    gw_start_correct [of 64 "Some demo_conf" "Some (lf_file [brake_header, brake_line])" "demo_startup\<lparr>can_ioctl := False\<rparr>" "\<lambda>_. 0" "[]" 4097 "[]"]
    demo_sys_ok
  by (auto simp: demo_config demo_dbc sys_ok_def [of "demo_startup\<lparr>can_ioctl := False\<rparr>"])

lemma initial_inv:
  "dbc_defined ms \<Longrightarrow> gw_inv (initial_loop s, initial_gateway s ip routes ms, out)"
  by (simp add: gw_inv_def initial_gateway_def initial_loop_def srv_wf_def)

lemma gw_inv_conn:
  "gw_inv st \<Longrightarrow> connections (gw_doip (fst (snd st))) fd = Some conn \<Longrightarrow> recv_len conn \<le> 4096 \<and> doip_next (contents conn) = None"
  by (cases st) (simp add: gw_inv_def srv_wf_def conn_wf_def)

fun outputs :: "gw_result \<Rightarrow> gw_out list" where
  "outputs (Exit _ out) = out"
| "outputs (StillRunning st) = snd (snd st)"

text \<open>Whatever the callbacks keep from the initial state on, holds of the result of the program.\<close>

lemma gw_main_result:
  assumes "\<And>st. gw_start W inet s args conf vehicle = Inr st \<Longrightarrow>
      \<exists>res. loop_run (gw_call W fuel inet) rs st = Some res \<and> I (result_state res)"
    and "\<And>e out. gw_start W inet s args conf vehicle = Inl (e, out) \<Longrightarrow> P out" and "\<And>st. I st \<Longrightarrow> P (snd (snd st))"
  shows "\<exists>res. gw_main W fuel inet s args conf vehicle rs = Some res \<and> P (outputs res)
     \<and> (\<forall>st. res = StillRunning st \<longrightarrow> I st)"
proof (cases "gw_start W inet s args conf vehicle")
  case (Inl x)
  then show ?thesis using assms(2) by (cases x) (simp add: gw_main_def)
next
  case (Inr st)
  from assms(1) [OF this] obtain res where "loop_run (gw_call W fuel inet) rs st = Some res" "I (result_state res)" by blast
  then show ?thesis using Inr assms(3) by (cases res) (auto simp: gw_main_def)
qed

lemma start_state:
  assumes "gw_start W inet s args conf vehicle = Inr st"
  shows "st = (initial_loop s,
      initial_gateway s (inet (own_address args)) (snd (config_load W [] conf)) (snd (dbc_parse Map.empty vehicle)), [first_offer inet args])"
proof -
  have "fst (config_load W [] conf) \<and> fst (dbc_parse Map.empty vehicle) \<and> sys_ok s"
    using gw_start_fails [of W conf vehicle s inet args] assms by auto
  with gw_start_succeeds [of W conf vehicle s inet args] assms show ?thesis by simp
qed

lemma start_failed:
  assumes "gw_start W inet s args conf vehicle = Inl (e, out)"
  shows "out = [] \<or> out = [first_offer inet args]"
proof (cases "fst (config_load W [] conf) \<and> fst (dbc_parse Map.empty vehicle) \<and> sys_ok s")
  case True
  with gw_start_succeeds [of W conf vehicle s inet args] assms show ?thesis by simp
next
  case False
  from gw_start_fails [OF this, of inet args] assms show ?thesis by auto
qed

lemma start_inv:
  assumes "gw_start W inet s args conf vehicle = Inr st" and "dbc_defined (snd (dbc_parse Map.empty vehicle))"
  shows "gw_inv ((fst st)\<lparr>running := True\<rparr>, snd st)"
  using initial_inv [OF assms(2)] start_state [OF assms(1)] by (simp add: gw_inv_def)

text \<open>
  C2: The program has no undefined behaviour and does not hang. On a 64-bit host, for every
  configuration, every database without a signed signal of length zero, every outcome of the
  system calls at start-up, and every sequence of readiness events, datagrams, CAN reads and
  stream contents, the program ends with an exit status or waits for the next event, and then
  every DoIP connection buffer holds at most 4096 bytes and no complete message.
\<close>

theorem gw_main_safe:
  assumes "dbc_defined (snd (dbc_parse Map.empty vehicle))" and "\<forall>r\<in>set rs. wait_ok input_ok r"
  shows "\<exists>res. gw_main 64 4097 inet s args conf vehicle rs = Some res
     \<and> (\<forall>st fd conn. res = StillRunning st \<longrightarrow> connections (gw_doip (fst (snd st))) fd = Some conn \<longrightarrow> 
          recv_len conn \<le> 4096 \<and> doip_next (contents conn) = None)"
proof -
  have "\<exists>res. gw_main 64 4097 inet s args conf vehicle rs = Some res \<and> True \<and> (\<forall>st. res = StillRunning st \<longrightarrow> gw_inv st)"
  proof (rule gw_main_result)
    fix st assume "gw_start 64 inet s args conf vehicle = Inr st"
    from start_inv [OF this assms(1)]
    show "\<exists>res. loop_run (gw_call 64 4097 inet) rs st = Some res \<and> gw_inv (result_state res)"
      unfolding loop_run_def by (rule gw.loop_inv) (rule assms(2))
  qed simp_all
  then show ?thesis using gw_inv_conn by blast
qed

text \<open>A datagram, a CAN frame, a client that connects and the first bytes it sends.\<close>

definition demo_input :: gw_input where
  "demo_input = \<lparr>in_sd = None, in_can = Some (replicate 16 0), in_clocks = demo_clocks, in_stack = stack_bytes,
     in_accept = Some 11, in_ctl = True, in_stream = Some [0x02, 0xFD]\<rparr>"

definition demo_events :: "gw_input wait_result list" where
  "demo_events = [Ready [(5, True, demo_input), (7, True, demo_input)], Interrupted False, Ready [(11, True, demo_input)]]"

lemma demo_events_ok: "\<forall>r\<in>set demo_events. wait_ok input_ok r"
  by (simp add: demo_events_def demo_input_def input_ok_def)

lemma demo_vehicle_defined: "dbc_defined (snd (dbc_parse Map.empty (Some (lf_file [brake_header, brake_line]))))"
  using demo_dbc_defined by (simp add: demo_dbc demo_gw_def)

theorem gw_main_safe_witness:
  "\<exists>res. gw_main 64 4097 (\<lambda>_. 0) demo_startup [] (Some demo_conf) (Some (lf_file [brake_header, brake_line])) demo_events = Some res"
  using gw_main_safe [OF demo_vehicle_defined demo_events_ok, of "\<lambda>_. 0" demo_startup "[]" "Some demo_conf"] by blast

section \<open>What the callbacks leave alone\<close>

lemma on_frame_keeps:
  assumes "on_frame W inet buf clk f gw = Some (gw', out)" and "length buf = SOMEIP_MAX_SIZE"
  shows "gw_dbc gw' = gw_dbc gw \<and> signal_map (gw_pub gw') = signal_map (gw_pub gw) \<and> timeout_us (gw_wd gw') = timeout_us (gw_wd gw)
     \<and> (BusSilent \<in> set out \<longrightarrow> late (timeout_us (gw_wd gw)) (clk_feed clk) (clk_check clk))"
proof (cases "find_message (gw_dbc gw) (masked_id f)")
  case None
  with assms(1) show ?thesis by (auto simp: on_frame_unknown feed_def)
next
  case (Some msg)
  obtain ds where "decode f msg = Some ds"
    using assms(1) Some by (cases "decode f msg") (simp_all add: on_frame_def masked_id_def)
  note known = on_frame_known [OF Some this assms(2)]
  let ?gw = "gw\<lparr>gw_wd := feed (gw_wd gw) (clk_feed clk), gw_bench := record_all W (gw_bench gw) (frame_samples clk),
    gw_pub := fst (published buf (gw_pub gw) ds)\<rparr>"
  obtain gw1 out1 where 1: "after_publish W inet (clk_check clk) ?gw = Some (gw1, out1)" "gw_dbc gw1 = gw_dbc ?gw" "gw_pub gw1 = gw_pub ?gw"
    "timeout_us (gw_wd gw1) = timeout_us (gw_wd ?gw)"
    "BusSilent \<in> set out1 \<longrightarrow> fst (check (gw_wd ?gw) (clk_check clk))"
    using after_publish_total [of W inet "clk_check clk" ?gw] by blast
  have "fst (check (gw_wd ?gw) (clk_check clk)) \<longrightarrow> late (timeout_us (gw_wd gw)) (clk_feed clk) (clk_check clk)"
    by (simp add: check_def feed_def late_def Let_def)
  moreover have "timeout_us (gw_wd ?gw) = timeout_us (gw_wd gw)" by (simp add: feed_def)
  moreover have "signal_map (gw_pub ?gw) = signal_map (gw_pub gw)" by (simp add: published_routed)
  ultimately show ?thesis using 1 assms(1) unfolding known by auto
qed

lemma gw_call_keeps:
  assumes "gw_call W fuel inet cb x (l, gw, out) = Some (b, l', gw', out')" and "input_ok x"
  shows "gw_dbc gw' = gw_dbc gw \<and> signal_map (gw_pub gw') = signal_map (gw_pub gw) \<and> timeout_us (gw_wd gw') = timeout_us (gw_wd gw)
     \<and> (BusSilent \<in> set out' \<longrightarrow> BusSilent \<in> set out \<or> late (timeout_us (gw_wd gw)) (clk_feed (in_clocks x)) (clk_check (in_clocks x)))"
proof (cases cb)
  case CanReader
  obtain r where r: "can_on_readable True (in_can x) = Some r" using assms(1) CanReader by (auto simp: gw_call_def split: Option.bind_splits)
  show ?thesis
  proof (cases r)
    case None
    with assms(1) r CanReader show ?thesis by (auto simp: gw_call_def)
  next
    case (Some f)
    then obtain out1 where "on_frame W inet (in_stack x) (in_clocks x) f gw = Some (gw', out1)" "out' = out @ out1"
      using assms(1) r CanReader by (auto simp: gw_call_def split: Option.bind_splits)
    with on_frame_keeps [OF this(1)] assms(2) show ?thesis by (auto simp: input_ok_def)
  qed
qed (use assms(1) in \<open>auto simp: gw_call_def Let_def split: Option.bind_splits sum.splits prod.splits option.splits\<close>)

definition fixed_config :: "dbc \<Rightarrow> (string \<rightharpoonup> u16 \<times> u16) \<Rightarrow> gw_state \<Rightarrow> bool" where
  "fixed_config ms routes st \<longleftrightarrow> gw_dbc (fst (snd st)) = ms \<and> signal_map (gw_pub (fst (snd st))) = routes"

text \<open>The database and the routes stay what start-up made them.\<close>

interpretation gw_config: callbacks_also "gw_call 64 4097 inet" gw_inv input_ok "fixed_config ms routes" "\<lambda>_. True" for inet ms routes
proof
  fix st st' :: gw_state and cb x thrown
  assume a: "fixed_config ms routes st" "input_ok x" "gw_call 64 4097 inet cb x st = Some (thrown, st')"
  obtain l gw out l' gw' out' where st: "st = (l, gw, out)" "st' = (l', gw', out')" by (cases st, cases st') auto
  from gw_call_keeps [OF a(3) [unfolded st] a(2)] a(1) show "fixed_config ms routes st'" by (simp add: fixed_config_def st)
qed (simp add: fixed_config_def)

lemma run_keeps_config:
  assumes "dbc_defined (snd (dbc_parse Map.empty vehicle))" and "\<forall>r\<in>set rs. wait_ok input_ok r"
    and "gw_main 64 4097 inet s args conf vehicle rs = Some (StillRunning st)"
  shows "fixed_config (snd (dbc_parse Map.empty vehicle)) (route_map (snd (config_load 64 [] conf))) st"
proof -
  let ?I = "\<lambda>st. gw_inv st \<and> fixed_config (snd (dbc_parse Map.empty vehicle)) (route_map (snd (config_load 64 [] conf))) st"
  have "\<exists>res. gw_main 64 4097 inet s args conf vehicle rs = Some res \<and> True \<and> (\<forall>st. res = StillRunning st \<longrightarrow> ?I st)"
  proof (rule gw_main_result)
    fix st assume st: "gw_start 64 inet s args conf vehicle = Inr st"
    have "?I ((fst st)\<lparr>running := True\<rparr>, snd st)"
      using start_inv [OF st assms(1)] start_state [OF st] by (simp add: fixed_config_def initial_gateway_def)
    then show "\<exists>res. loop_run (gw_call 64 4097 inet) rs st = Some res \<and> ?I (result_state res)"
      unfolding loop_run_def by (rule gw_config.both.loop_inv) (use assms(2) in simp)
  qed simp_all
  with assms(3) show ?thesis by (simp del: split_paired_All)
qed

text \<open>
  The bus counts as served promptly when no frame callback takes more than the two seconds of
  the watchdog from its first to its last clock reading. How long the bus was silent between two
  frames plays no part in it.
\<close>

definition prompt :: "gw_input \<Rightarrow> bool" where
  "prompt x \<longleftrightarrow> \<not> late 2000000 (clk_feed (in_clocks x)) (clk_check (in_clocks x))"

definition quiet :: "gw_state \<Rightarrow> bool" where
  "quiet st \<longleftrightarrow> timeout_us (gw_wd (fst (snd st))) = 2000000 \<and> BusSilent \<notin> set (snd (snd st))"

interpretation gw_quiet: callbacks_also "gw_call 64 4097 inet" gw_inv input_ok quiet prompt for inet
proof
  fix st st' :: gw_state and cb x thrown
  assume a: "quiet st" "input_ok x" "prompt x" "gw_call 64 4097 inet cb x st = Some (thrown, st')"
  obtain l gw out l' gw' out' where st: "st = (l, gw, out)" "st' = (l', gw', out')" by (cases st, cases st') auto
  from gw_call_keeps [OF a(4) [unfolded st] a(2)] a(1,3) show "quiet st'" by (auto simp: quiet_def prompt_def st)
qed (simp add: quiet_def)

text \<open>
  C22: The gateway never reports a silent bus. The watchdog is checked only in the callback of a
  frame, which has fed it just before: as long as no callback itself takes more than two seconds,
  no sequence of events, whatever the time between two frames, makes the program print the
  warning that no CAN frame arrived.
\<close>

theorem gw_never_alarms:
  assumes "dbc_defined (snd (dbc_parse Map.empty vehicle))" and "\<forall>r\<in>set rs. wait_ok (\<lambda>x. input_ok x \<and> prompt x) r"
  shows "\<exists>res. gw_main 64 4097 inet s args conf vehicle rs = Some res \<and> BusSilent \<notin> set (outputs res)"
proof -
  have "\<exists>res. gw_main 64 4097 inet s args conf vehicle rs = Some res \<and> BusSilent \<notin> set (outputs res)
      \<and> (\<forall>st. res = StillRunning st \<longrightarrow> gw_inv st \<and> quiet st)"
  proof (rule gw_main_result)
    fix st assume st: "gw_start 64 inet s args conf vehicle = Inr st"
    have "gw_inv ((fst st)\<lparr>running := True\<rparr>, snd st) \<and> quiet ((fst st)\<lparr>running := True\<rparr>, snd st)"
      using start_inv [OF st assms(1)] start_state [OF st]
      by (simp add: quiet_def initial_gateway_def new_watchdog_def first_offer_def)
    then show "\<exists>res. loop_run (gw_call 64 4097 inet) rs st = Some res \<and> gw_inv (result_state res) \<and> quiet (result_state res)"
      unfolding loop_run_def by (rule gw_quiet.both.loop_inv) (rule assms(2))
  next
    fix e out assume "gw_start 64 inet s args conf vehicle = Inl (e, out)"
    then show "BusSilent \<notin> set out"
      using start_failed by (fastforce simp: first_offer_def)
  qed (simp add: quiet_def)
  then show ?thesis by blast
qed

text \<open>Two frames an hour apart.\<close>

definition late_input :: gw_input where
  "late_input = demo_input\<lparr>in_clocks := demo_clocks\<lparr>clk_feed := 3600000001000, clk_check := 3600000010000\<rparr>\<rparr>"

theorem gw_never_alarms_witness:
  "\<exists>res. gw_main 64 4097 (\<lambda>_. 0) demo_startup [] (Some demo_conf) (Some (lf_file [brake_header, brake_line]))
       [Ready [(5, True, demo_input)], Ready [(5, True, late_input)]] = Some res \<and> BusSilent \<notin> set (outputs res)"
proof (rule gw_never_alarms [OF demo_vehicle_defined])
  have "input_ok demo_input \<and> prompt demo_input" "input_ok late_input \<and> prompt late_input"
    by (simp_all add: prompt_def input_ok_def late_def demo_input_def late_input_def demo_clocks_def)
  then show "\<forall>r\<in>set [Ready [(5, True, demo_input)], Ready [(5, True, late_input)]]. wait_ok (\<lambda>x. input_ok x \<and> prompt x) r" by simp
qed

end
