(* ===== verification/Shipped_Config.thy ===== *)
theory Shipped_Config
  imports Gateway_Run
begin

text \<open>
  The two files the gateway is delivered with (\<^verbatim>\<open>config/vehicle.dbc\<close> and
  \<^verbatim>\<open>config/gateway.conf\<close>), line by line, and what the program does with them.
\<close>

section \<open>The files\<close>

definition vehicle_dbc :: "string list" where
  "vehicle_dbc =
     [''VERSION '' @ [CHR 0x22, CHR 0x22],
      [],
      ''NS_ :'',
      [],
      ''BS_:'',
      [],
      ''BU_:'',
      [],
      ''BO_ 291 EngineData: 8 Vector__XXX'',
      '' SG_ EngineRPM : 0|16@1+ (0.25,0) [0|16383.75] '' @ [CHR 0x22] @ ''rpm'' @ [CHR 0x22] @ '' Vector__XXX'',
      '' SG_ EngineTemp : 16|8@1+ (0.75,-40) [-40|148.75] '' @ [CHR 0x22] @ ''degC'' @ [CHR 0x22] @ '' Vector__XXX'',
      '' SG_ ThrottlePos : 24|8@1+ (0.392157,0) [0|100] '' @ [CHR 0x22] @ ''%'' @ [CHR 0x22] @ '' Vector__XXX'',
      [],
      ''BO_ 292 VehicleSpeed: 8 Vector__XXX'',
      '' SG_ VehicleSpeed : 0|16@1+ (0.01,0) [0|655.35] '' @ [CHR 0x22] @ ''km/h'' @ [CHR 0x22] @ '' Vector__XXX'',
      '' SG_ WheelSpeed_FL : 16|16@1+ (0.01,0) [0|655.35] '' @ [CHR 0x22] @ ''km/h'' @ [CHR 0x22] @ '' Vector__XXX'',
      '' SG_ WheelSpeed_FR : 32|16@1+ (0.01,0) [0|655.35] '' @ [CHR 0x22] @ ''km/h'' @ [CHR 0x22] @ '' Vector__XXX'',
      [],
      ''BO_ 293 BrakeData: 8 Vector__XXX'',
      '' SG_ BrakePressure : 0|8@1+ (1,0) [0|255] '' @ [CHR 0x22] @ ''bar'' @ [CHR 0x22] @ '' Vector__XXX'',
      '' SG_ BrakeActive : 8|1@1+ (1,0) [0|1] '' @ [CHR 0x22, CHR 0x22] @ '' Vector__XXX'']"

definition gateway_conf :: "string list" where
  "gateway_conf =
     [''# Automotive Gateway Configuration'',
      ''# Format: signal_name service_id method_id'',
      [],
      ''# Engine Service (0x0101)'',
      ''EngineRPM     0x0101 0x8001'',
      ''EngineTemp    0x0101 0x8002'',
      ''ThrottlePos   0x0101 0x8003'',
      [],
      ''# Vehicle Speed Service (0x0102)'',
      ''VehicleSpeed  0x0102 0x8001'',
      ''WheelSpeed_FL 0x0102 0x8002'',
      ''WheelSpeed_FR 0x0102 0x8003'',
      [],
      ''# Brake Service (0x0103)'',
      ''BrakePressure 0x0103 0x8001'',
      ''BrakeActive   0x0103 0x8002'']"

section \<open>What the parsers make of them\<close>

definition decimal :: "bool \<Rightarrow> nat \<Rightarrow> nat \<Rightarrow> fp" where
  "decimal neg n k = round_ratio binary64 neg n (10 ^ k)"

definition unsigned_sig :: "string \<Rightarrow> byte \<Rightarrow> byte \<Rightarrow> fp \<Rightarrow> fp \<Rightarrow> fp \<Rightarrow> fp \<Rightarrow> string \<Rightarrow> signal_def" where
  "unsigned_sig name start len scl off lo hi u =
     \<lparr>sig_name = name, start_bit = start, sig_length = len, is_signed = False, is_little_endian = True,
      scale = scl, offset = off, min_val = lo, max_val = hi, unit = u\<rparr>"

definition sig_EngineRPM :: signal_def where
  "sig_EngineRPM = unsigned_sig ''EngineRPM'' 0 16 (decimal False 25 2) (decimal False 0 0) (decimal False 0 0) (decimal False 1638375 2) ''rpm''"

definition sig_EngineTemp :: signal_def where
  "sig_EngineTemp = unsigned_sig ''EngineTemp'' 16 8 (decimal False 75 2) (decimal True 40 0) (decimal True 40 0) (decimal False 14875 2) ''degC''"

definition sig_ThrottlePos :: signal_def where
  "sig_ThrottlePos = unsigned_sig ''ThrottlePos'' 24 8 (decimal False 392157 6) (decimal False 0 0) (decimal False 0 0) (decimal False 100 0) ''%''"

definition sig_VehicleSpeed :: signal_def where
  "sig_VehicleSpeed = unsigned_sig ''VehicleSpeed'' 0 16 (decimal False 1 2) (decimal False 0 0) (decimal False 0 0) (decimal False 65535 2) ''km/h''"

definition sig_WheelSpeed_FL :: signal_def where
  "sig_WheelSpeed_FL = unsigned_sig ''WheelSpeed_FL'' 16 16 (decimal False 1 2) (decimal False 0 0) (decimal False 0 0) (decimal False 65535 2) ''km/h''"

definition sig_WheelSpeed_FR :: signal_def where
  "sig_WheelSpeed_FR = unsigned_sig ''WheelSpeed_FR'' 32 16 (decimal False 1 2) (decimal False 0 0) (decimal False 0 0) (decimal False 65535 2) ''km/h''"

definition sig_BrakePressure :: signal_def where
  "sig_BrakePressure = unsigned_sig ''BrakePressure'' 0 8 (decimal False 1 0) (decimal False 0 0) (decimal False 0 0) (decimal False 255 0) ''bar''"

definition sig_BrakeActive :: signal_def where
  "sig_BrakeActive = unsigned_sig ''BrakeActive'' 8 1 (decimal False 1 0) (decimal False 0 0) (decimal False 0 0) (decimal False 1 0) []"

definition msg_EngineData :: message_def where
  "msg_EngineData = \<lparr>msg_can_id = 291, msg_name = ''EngineData'', msg_length = 8, signals = []\<rparr>"

definition msg_VehicleSpeed :: message_def where
  "msg_VehicleSpeed = \<lparr>msg_can_id = 292, msg_name = ''VehicleSpeed'', msg_length = 8, signals = []\<rparr>"

definition msg_BrakeData :: message_def where
  "msg_BrakeData = \<lparr>msg_can_id = 293, msg_name = ''BrakeData'', msg_length = 8, signals = []\<rparr>"

lemmas shipped_eval = unsigned_sig_def decimal_def dbc_eval text_eval fp_eval

lemma line_EngineRPM: "classify ('' SG_ EngineRPM : 0|16@1+ (0.25,0) [0|16383.75] '' @ [CHR 0x22] @ ''rpm'' @ [CHR 0x22] @ '' Vector__XXX'') = Sig sig_EngineRPM"
  by (simp add: sig_EngineRPM_def shipped_eval)

lemma line_EngineTemp: "classify ('' SG_ EngineTemp : 16|8@1+ (0.75,-40) [-40|148.75] '' @ [CHR 0x22] @ ''degC'' @ [CHR 0x22] @ '' Vector__XXX'') = Sig sig_EngineTemp"
  by (simp add: sig_EngineTemp_def shipped_eval)

lemma line_ThrottlePos: "classify ('' SG_ ThrottlePos : 24|8@1+ (0.392157,0) [0|100] '' @ [CHR 0x22] @ ''%'' @ [CHR 0x22] @ '' Vector__XXX'') = Sig sig_ThrottlePos"
  by (simp add: sig_ThrottlePos_def shipped_eval)

lemma line_VehicleSpeed: "classify ('' SG_ VehicleSpeed : 0|16@1+ (0.01,0) [0|655.35] '' @ [CHR 0x22] @ ''km/h'' @ [CHR 0x22] @ '' Vector__XXX'') = Sig sig_VehicleSpeed"
  by (simp add: sig_VehicleSpeed_def shipped_eval)

lemma line_WheelSpeed_FL: "classify ('' SG_ WheelSpeed_FL : 16|16@1+ (0.01,0) [0|655.35] '' @ [CHR 0x22] @ ''km/h'' @ [CHR 0x22] @ '' Vector__XXX'') = Sig sig_WheelSpeed_FL"
  by (simp add: sig_WheelSpeed_FL_def shipped_eval)

lemma line_WheelSpeed_FR: "classify ('' SG_ WheelSpeed_FR : 32|16@1+ (0.01,0) [0|655.35] '' @ [CHR 0x22] @ ''km/h'' @ [CHR 0x22] @ '' Vector__XXX'') = Sig sig_WheelSpeed_FR"
  by (simp add: sig_WheelSpeed_FR_def shipped_eval)

lemma line_BrakePressure: "classify ('' SG_ BrakePressure : 0|8@1+ (1,0) [0|255] '' @ [CHR 0x22] @ ''bar'' @ [CHR 0x22] @ '' Vector__XXX'') = Sig sig_BrakePressure"
  by (simp add: sig_BrakePressure_def shipped_eval)

lemma line_BrakeActive: "classify ('' SG_ BrakeActive : 8|1@1+ (1,0) [0|1] '' @ [CHR 0x22, CHR 0x22] @ '' Vector__XXX'') = Sig sig_BrakeActive"
  by (simp add: sig_BrakeActive_def shipped_eval)

lemma line_msg_EngineData: "classify (''BO_ 291 EngineData: 8 Vector__XXX'') = Msg msg_EngineData"
  by (simp add: msg_EngineData_def shipped_eval)

lemma line_msg_VehicleSpeed: "classify (''BO_ 292 VehicleSpeed: 8 Vector__XXX'') = Msg msg_VehicleSpeed"
  by (simp add: msg_VehicleSpeed_def shipped_eval)

lemma line_msg_BrakeData: "classify (''BO_ 293 BrakeData: 8 Vector__XXX'') = Msg msg_BrakeData"
  by (simp add: msg_BrakeData_def shipped_eval)

lemma line_other: "classify (''VERSION '' @ [CHR 0x22, CHR 0x22]) = Other" "classify (''NS_ :'') = Other" "classify (''BS_:'') = Other" "classify (''BU_:'') = Other" "classify [] = Blank"
  by (simp_all add: dbc_eval text_eval)

lemmas line_sigs = line_EngineRPM line_EngineTemp line_ThrottlePos line_VehicleSpeed line_WheelSpeed_FL line_WheelSpeed_FR line_BrakePressure line_BrakeActive
lemmas line_msgs = line_msg_EngineData line_msg_VehicleSpeed line_msg_BrakeData

definition vehicle_messages :: dbc where
  "vehicle_messages =
     [291 \<mapsto> msg_EngineData\<lparr>signals := [sig_EngineRPM, sig_EngineTemp, sig_ThrottlePos]\<rparr>,
      292 \<mapsto> msg_VehicleSpeed\<lparr>signals := [sig_VehicleSpeed, sig_WheelSpeed_FL, sig_WheelSpeed_FR]\<rparr>,
      293 \<mapsto> msg_BrakeData\<lparr>signals := [sig_BrakePressure, sig_BrakeActive]\<rparr>]"

lemma vehicle_kinds:
  "map classify vehicle_dbc =
     [Other, Blank, Other, Blank, Other, Blank, Other, Blank,
      Msg msg_EngineData, Sig sig_EngineRPM, Sig sig_EngineTemp, Sig sig_ThrottlePos, Blank,
      Msg msg_VehicleSpeed, Sig sig_VehicleSpeed, Sig sig_WheelSpeed_FL, Sig sig_WheelSpeed_FR, Blank,
      Msg msg_BrakeData, Sig sig_BrakePressure, Sig sig_BrakeActive]"
  unfolding vehicle_dbc_def list.map line_sigs line_msgs line_other by (rule refl)

lemma vehicle_lf: "\<forall>l\<in>set vehicle_dbc. CHR 0x0A \<notin> set l"
  by (simp add: vehicle_dbc_def)

lemma vehicle_parsed: "dbc_parse Map.empty (Some (lf_file vehicle_dbc)) = (True, vehicle_messages)"
  by (simp add: dbc_parse_def getlines_lf_file [OF vehicle_lf] fold_parse_kinds vehicle_kinds kind_step_def push_signal_def
      msg_EngineData_def msg_VehicleSpeed_def msg_BrakeData_def vehicle_messages_def)

definition route :: "string \<Rightarrow> u16 \<Rightarrow> u16 \<Rightarrow> signal_route" where
  "route name service method = \<lparr>route_signal_name = name, route_service_id = service, route_method_id = method\<rparr>"

definition gateway_routes :: "signal_route list" where
  "gateway_routes =
     [route ''EngineRPM'' 0x0101 0x8001,
      route ''EngineTemp'' 0x0101 0x8002,
      route ''ThrottlePos'' 0x0101 0x8003,
      route ''VehicleSpeed'' 0x0102 0x8001,
      route ''WheelSpeed_FL'' 0x0102 0x8002,
      route ''WheelSpeed_FR'' 0x0102 0x8003,
      route ''BrakePressure'' 0x0103 0x8001,
      route ''BrakeActive'' 0x0103 0x8002]"

lemma conf_skips: "load_line 64 rs ''# Automotive Gateway Configuration'' = rs" "load_line 64 rs ''# Format: signal_name service_id method_id'' = rs" "load_line 64 rs [] = rs" "load_line 64 rs ''# Engine Service (0x0101)'' = rs" "load_line 64 rs ''# Vehicle Speed Service (0x0102)'' = rs" "load_line 64 rs ''# Brake Service (0x0103)'' = rs"
  by (simp_all add: load_line_def text_eval pop_back_if_def)

lemma conf_loads: "load_line 64 rs ''EngineRPM     0x0101 0x8001'' = rs @ [route ''EngineRPM'' 0x0101 0x8001]" "load_line 64 rs ''EngineTemp    0x0101 0x8002'' = rs @ [route ''EngineTemp'' 0x0101 0x8002]" "load_line 64 rs ''ThrottlePos   0x0101 0x8003'' = rs @ [route ''ThrottlePos'' 0x0101 0x8003]" "load_line 64 rs ''VehicleSpeed  0x0102 0x8001'' = rs @ [route ''VehicleSpeed'' 0x0102 0x8001]" "load_line 64 rs ''WheelSpeed_FL 0x0102 0x8002'' = rs @ [route ''WheelSpeed_FL'' 0x0102 0x8002]" "load_line 64 rs ''WheelSpeed_FR 0x0102 0x8003'' = rs @ [route ''WheelSpeed_FR'' 0x0102 0x8003]" "load_line 64 rs ''BrakePressure 0x0103 0x8001'' = rs @ [route ''BrakePressure'' 0x0103 0x8001]" "load_line 64 rs ''BrakeActive   0x0103 0x8002'' = rs @ [route ''BrakeActive'' 0x0103 0x8002]"
  by (simp_all add: load_line_def route_def stoul16_def text_eval pop_back_if_def)

lemma conf_lf: "\<forall>l\<in>set gateway_conf. CHR 0x0A \<notin> set l"
  by (simp add: gateway_conf_def)

lemma conf_loaded: "config_load 64 [] (Some (lf_file gateway_conf)) = (True, gateway_routes)"
proof -
  have "foldl (load_line 64) [] gateway_conf = gateway_routes"
    unfolding gateway_conf_def foldl.simps conf_skips conf_loads by (simp add: gateway_routes_def)
  then show ?thesis by (simp add: config_load_def getlines_lf_file [OF conf_lf] gateway_routes_def)
qed

lemmas shipped_sigs = sig_EngineRPM_def sig_EngineTemp_def sig_ThrottlePos_def sig_VehicleSpeed_def sig_WheelSpeed_FL_def
  sig_WheelSpeed_FR_def sig_BrakePressure_def sig_BrakeActive_def

lemma vehicle_defined: "dbc_defined vehicle_messages"
  by (simp add: dbc_defined_def vehicle_messages_def shipped_sigs unsigned_sig_def)

section \<open>The engine signals\<close>

lemma engine_rpm_consts:
  "scale sig_EngineRPM = Fin False 4503599627370496 (-54)" "offset sig_EngineRPM = Fin False 0 (-1074)"
  "min_val sig_EngineRPM = Fin False 0 (-1074)" "max_val sig_EngineRPM = Fin False 9007061815787520 (-39)"
  by (simp_all add: sig_EngineRPM_def unsigned_sig_def decimal_def fp_eval)

lemma engine_temp_same: "sig_EngineTemp = engine_temp"
  by (simp add: sig_EngineTemp_def engine_temp_def unsigned_sig_def decimal_def fp_eval)

lemma throttle_consts:
  "min_val sig_ThrottlePos = Fin False 0 (-1074)" "max_val sig_ThrottlePos = Fin False 7036874417766400 (-46)"
  by (simp_all add: sig_ThrottlePos_def unsigned_sig_def decimal_def fp_eval)

lemma engine_rpm_fval:
  "fval (scale sig_EngineRPM) = 1 / 4" "fval (offset sig_EngineRPM) = 0"
  "fval (min_val sig_EngineRPM) = 0" "fval (max_val sig_EngineRPM) = 65535 / 4"
  by (simp_all add: engine_rpm_consts fval_def power_int_def power_divide)

lemma field_low16:
  assumes "length rest = 6" shows "uint (field (b0 # b1 # rest) 0 16) = uint (join16 b1 b0)"
proof -
  have "field (b0 # b1 # rest) 0 16 = ucast (join16 b1 b0)"
  proof (rule bit_word_eqI)
    fix n assume "n < LENGTH(64)"
    show "bit (field (b0 # b1 # rest) 0 16) n \<longleftrightarrow> bit (ucast (join16 b1 b0) :: u64) n"
    proof (cases "n < 16")
      case False
      then show ?thesis by (auto simp: field_def bit_simps bit_high)
    next
      case True
      then consider "n < 8" | k where "n = 8 + k" "k < 8" by (metis add_less_cancel_left le_Suc_ex not_less numeral_Bit0)
      then show ?thesis
        by cases (use assms in \<open>auto simp: field_def bit_simps bit_frame_word join16_def bit_high\<close>)
    qed
  qed
  then show ?thesis by (simp add: uint_up_ucast is_up)
qed

lemma field_third:
  assumes "length rest = 5" shows "uint (field (b0 # b1 # b2 # rest) 16 8) = uint b2"
proof -
  have "field (b0 # b1 # b2 # rest) 16 8 = ucast b2"
  proof (rule bit_word_eqI)
    fix n assume "n < LENGTH(64)"
    have "(16 + n) div 8 = 2" "(16 + n) mod 8 = n" if "n < 8" using that by presburger+
    then show "bit (field (b0 # b1 # b2 # rest) 16 8) n \<longleftrightarrow> bit (ucast b2 :: u64) n"
      by (cases "n < 8") (use assms in \<open>auto simp: field_def bit_simps bit_frame_word bit_high\<close>)
  qed
  then show ?thesis by (simp add: uint_up_ucast is_up)
qed

lemma representable_quarter_single: "\<bar>k\<bar> < 2 ^ 24 \<Longrightarrow> representable binary32 (of_int k / 4)"
  unfolding representable_def
  by (intro exI [of _ "nat \<bar>k\<bar>"] exI [of _ "-2"]) (auto simp: binary32_def power_int_def nat_less_iff power2_eq_square)

lemma physical_value_clamped:
  assumes "fp_finite (scale sig)" and "fp_finite (offset sig)" and "fp_finite (min_val sig)" and "fp_finite (max_val sig)"
    and "representable binary64 (of_int raw)" and "representable binary64 (of_int raw * fval (scale sig))"
    and "representable binary64 (of_int raw * fval (scale sig) + fval (offset sig))" and "fval (min_val sig) \<le> fval (max_val sig)"
    and "v = max (fval (min_val sig)) (min (fval (max_val sig)) (of_int raw * fval (scale sig) + fval (offset sig)))"
  shows "fp_finite (physical_value sig raw) \<and> fval (physical_value sig raw) = v"
  using finite_as_finite [OF affine_exact [OF assms(1,2,5-7)]] assms(3,4,8,9)
    clamp_finite(1) [OF assms(3,4)] by (simp add: physical_value_def clamp_fval)

lemma rpm_value:
  fixes w :: u16
  shows "fp_finite (physical_value sig_EngineRPM (uint w)) \<and> fval (physical_value sig_EngineRPM (uint w)) = real_of_int (uint w) / 4"
proof (rule physical_value_clamped)
  have w: "0 \<le> uint w" "uint w \<le> 65535" using uint_lt2p [of w] by simp_all
  show "representable binary64 (of_int (uint w))" "representable binary64 (of_int (uint w) * fval (scale sig_EngineRPM))"
    "representable binary64 (of_int (uint w) * fval (scale sig_EngineRPM) + fval (offset sig_EngineRPM))"
    using representable_quarter [of "4 * uint w"] representable_quarter [of "uint w"] w by (simp_all add: engine_rpm_fval)
  have "0 \<le> real_of_int (uint w)" "real_of_int (uint w) \<le> 65535"
    using w by (simp only: of_int_0_le_iff, metis of_int_le_iff of_int_numeral)
  then show "real_of_int (uint w) / 4 = max (fval (min_val sig_EngineRPM)) (min (fval (max_val sig_EngineRPM))
      (of_int (uint w) * fval (scale sig_EngineRPM) + fval (offset sig_EngineRPM)))"
    by (simp add: engine_rpm_fval)
qed (simp_all add: engine_rpm_fval, simp_all add: engine_rpm_consts fp_finite_def)

lemma byte_small: "\<bar>3 * uint (b :: byte) - 160\<bar> < 1000"
proof -
  have "uint b < 256" "0 \<le> uint b" using uint_lt2p [of b] by simp_all
  then show ?thesis by (simp only: abs_if split: if_split) linarith
qed

lemma temp_value:
  fixes b :: byte
  shows "fp_finite (physical_value engine_temp (uint b))
     \<and> fval (physical_value engine_temp (uint b)) = real_of_int (min 595 (3 * uint b - 160)) / 4"
proof (rule physical_value_clamped)
  have b: "0 \<le> uint b" "uint b \<le> 255" using uint_lt2p [of b] by simp_all
  have "\<bar>3 * uint b - 160\<bar> < 2 ^ 53" using byte_small [of b] by simp
  moreover have sum: "of_int (uint b) * fval (scale engine_temp) + fval (offset engine_temp) = real_of_int (3 * uint b - 160) / 4"
    by (simp add: engine_temp_fval)
  ultimately show "representable binary64 (of_int (uint b))" "representable binary64 (of_int (uint b) * fval (scale engine_temp))"
    "representable binary64 (of_int (uint b) * fval (scale engine_temp) + fval (offset engine_temp))"
    using representable_quarter [of "4 * uint b"] representable_quarter [of "3 * uint b"] representable_quarter [of "3 * uint b - 160"] b
    unfolding sum by (simp_all add: engine_temp_fval mult.commute)
  have "0 \<le> real_of_int (uint b)" using b(1) by (simp only: of_int_0_le_iff)
  then show "real_of_int (min 595 (3 * uint b - 160)) / 4 = max (fval (min_val engine_temp)) (min (fval (max_val engine_temp))
      (of_int (uint b) * fval (scale engine_temp) + fval (offset engine_temp)))"
    unfolding sum by (simp add: engine_temp_fval of_int_min min_def max_def del: of_int_uint)
qed (simp_all add: engine_temp_finite engine_temp_fval)

section \<open>End to end\<close>

text \<open>A datagram from which a receiver reads a service, a method and a finite value.\<close>

definition carries :: "byte list \<Rightarrow> u16 \<Rightarrow> u16 \<Rightarrow> real \<Rightarrow> bool" where
  "carries d service method v \<longleftrightarrow>
     (\<exists>m x. someip_next d = Some (m, length d) \<and> service_id m = service \<and> method_id m = method
        \<and> map_option float_of_bits (dec32 (payload m)) = Some x \<and> fp_finite x \<and> fval x = v)"

lemma carries_exact:
  assumes "fp_finite y" and "representable binary32 (fval y)"
  shows "carries (someip_bytes (float_message s m sess (fp_cast binary32 y))) s m (fval y)"
proof -
  let ?v = "fp_cast binary32 y"
  have "map_option float_of_bits (dec32 (payload (float_message s m sess ?v))) = Some ?v"
    using w32.dec_enc [of "float_bits ?v" "[]"] float_bits_roundtrip [OF fp_cast_canonical [of binary32]]
    by (simp add: float_message_def)
  moreover have "fp_finite ?v \<and> fval ?v = fval y"
    using assms fp_cast_exact [OF fmt_ok_formats(2)] by (metis finite_as_finite fp_finiteE)
  ultimately show ?thesis
    unfolding carries_def by (intro exI [of _ "float_message s m sess ?v"] exI [of _ ?v]) (simp add: float_message_next, simp add: float_message_def)
qed

lemma engine_routes:
  "route_map gateway_routes ''EngineRPM'' = Some (0x0101, 0x8001)" "route_map gateway_routes ''EngineTemp'' = Some (0x0101, 0x8002)"
  "route_map gateway_routes ''ThrottlePos'' = Some (0x0101, 0x8003)"
  by (simp_all add: route_map_def gateway_routes_def route_def)

lemma engine_names: "sig_name sig_EngineRPM = ''EngineRPM''" "sig_name sig_EngineTemp = ''EngineTemp''" "sig_name sig_ThrottlePos = ''ThrottlePos''"
  by (simp_all add: shipped_sigs unsigned_sig_def)

lemma engine_fits: "sig_fits sig_EngineRPM" "sig_fits sig_EngineTemp" "sig_fits sig_ThrottlePos"
  by (simp_all add: sig_fits_def shipped_sigs unsigned_sig_def)

lemma engine_raw:
  assumes "length rest = 5"
  shows "raw_value sig_EngineRPM (b0 # b1 # b2 # rest) = uint (join16 b1 b0)" "raw_value sig_EngineTemp (b0 # b1 # b2 # rest) = uint b2"
  using field_low16 [of "b2 # rest" b0 b1] field_third [of rest b0 b1 b2] assms
  by (simp_all add: raw_value_def sig_EngineRPM_def sig_EngineTemp_def unsigned_sig_def)

lemma engine_decoded:
  assumes "frame_ok f"
  shows "decode f (msg_EngineData\<lparr>signals := [sig_EngineRPM, sig_EngineTemp, sig_ThrottlePos]\<rparr>)
     = Some (map (\<lambda>s. \<lparr>dec_name = sig_name s, dec_value = physical_value s (raw_value s (data f)), dec_unit = unit s\<rparr>)
          [sig_EngineRPM, sig_EngineTemp, sig_ThrottlePos])"
  unfolding decode_def using assms engine_fits
  by (subst decode_all_map [where g = "\<lambda>s. \<lparr>dec_name = sig_name s, dec_value = physical_value s (raw_value s (data f)), dec_unit = unit s\<rparr>"])
    (auto intro: decode_signal_correct)

lemma engine_notified:
  assumes "signal_map p = route_map gateway_routes" and "frame_ok f"
  shows "notifications sess (routed p (map (\<lambda>s. \<lparr>dec_name = sig_name s, dec_value = physical_value s (raw_value s (data f)), dec_unit = unit s\<rparr>)
          [sig_EngineRPM, sig_EngineTemp, sig_ThrottlePos]))
     = [someip_bytes (float_message 0x0101 0x8001 sess (fp_cast binary32 (physical_value sig_EngineRPM (raw_value sig_EngineRPM (data f))))),
        someip_bytes (float_message 0x0101 0x8002 (sess + 1) (fp_cast binary32 (physical_value sig_EngineTemp (raw_value sig_EngineTemp (data f))))),
        someip_bytes (float_message 0x0101 0x8003 (sess + 2) (fp_cast binary32 (physical_value sig_ThrottlePos (raw_value sig_ThrottlePos (data f)))))]"
  by (simp add: routed_def assms engine_names engine_routes add.assoc)

lemma engine_forwarded:
  assumes "gw_main 64 4097 inet s args (Some (lf_file gateway_conf)) (Some (lf_file vehicle_dbc)) rs = Some (StillRunning st)"
    and "\<forall>r\<in>set rs. wait_ok input_ok r" and "can_id f AND CAN_EFF_MASK = 0x123"
    and "data f = b0 # b1 # b2 # rest" and "length rest = 5" and "length buf = SOMEIP_MAX_SIZE"
  shows "\<exists>gw' d1 d2 d3 m3 out. on_frame 64 inet buf clk f (fst (snd st)) = Some (gw', [Notify d1, Notify d2, Notify d3] @ out)
     \<and> filter is_notify out = []
     \<and> carries d1 0x0101 0x8001 (real_of_int (uint (join16 b1 b0)) / 4)
     \<and> carries d2 0x0101 0x8002 (real_of_int (min 595 (3 * uint b2 - 160)) / 4)
     \<and> someip_next d3 = Some (m3, length d3) \<and> service_id m3 = 0x0101 \<and> method_id m3 = 0x8003"
proof -
  let ?gw = "fst (snd st)"
  have "fixed_config vehicle_messages (route_map gateway_routes) st"
    using run_keeps_config [OF _ assms(2,1)] vehicle_defined by (simp add: vehicle_parsed conf_loaded)
  then have gw: "gw_dbc ?gw = vehicle_messages" "signal_map (gw_pub ?gw) = route_map gateway_routes"
    by (simp_all add: fixed_config_def)
  have f: "frame_ok f" using assms(4,5) by (simp add: frame_ok_def)
  have msg: "gw_dbc ?gw (can_id f AND CAN_EFF_MASK) = Some (msg_EngineData\<lparr>signals := [sig_EngineRPM, sig_EngineTemp, sig_ThrottlePos]\<rparr>)"
    by (simp add: gw(1) assms(3) vehicle_messages_def)
  note out = on_frame_forwards [OF assms(6) msg engine_decoded [OF f], of 64 inet clk, unfolded engine_notified [OF gw(2) f]]
  have u: "\<bar>uint (join16 b1 b0)\<bar> < 2 ^ 24" "\<bar>min 595 (3 * uint b2 - 160)\<bar> < 2 ^ 24"
    using uint_lt2p [of "join16 b1 b0"] byte_small [of b2] by (simp, simp add: abs_if min_def split: if_splits)
  note rpm = carries_exact [OF conjunct1 [OF rpm_value [of "join16 b1 b0"]], unfolded conjunct2 [OF rpm_value], OF representable_quarter_single [OF u(1)]]
  note temp = carries_exact [OF conjunct1 [OF temp_value [of b2]], unfolded conjunct2 [OF temp_value], OF representable_quarter_single [OF u(2)]]
  have raw: "raw_value sig_EngineRPM (data f) = uint (join16 b1 b0)" "raw_value sig_EngineTemp (data f) = uint b2"
    using engine_raw [OF assms(5), of b0 b1 b2] by (simp_all add: assms(4))
  have m3: "service_id (float_message 0x0101 0x8003 k v) = 0x0101" "method_id (float_message 0x0101 0x8003 k v) = 0x8003" for k v
    by (simp_all add: float_message_def)
  let ?sess = "pub_session (gw_pub ?gw)"
  let ?d1 = "someip_bytes (float_message 0x0101 0x8001 ?sess (fp_cast binary32 (physical_value sig_EngineRPM (uint (join16 b1 b0)))))"
  let ?d2 = "someip_bytes (float_message 0x0101 0x8002 (?sess + 1) (fp_cast binary32 (physical_value engine_temp (uint b2))))"
  let ?m3 = "float_message 0x0101 0x8003 (?sess + 2) (fp_cast binary32 (physical_value sig_ThrottlePos (raw_value sig_ThrottlePos (data f))))"
  obtain gw' rest' where "on_frame 64 inet buf clk f ?gw = Some (gw', [Notify ?d1, Notify ?d2, Notify (someip_bytes ?m3)] @ rest')"
    "filter is_notify rest' = []"
    using out unfolding raw raw [unfolded engine_temp_same] engine_temp_same by auto
  then show ?thesis using rpm temp m3 float_message_next
    by (intro exI [of _ gw'] exI [of _ ?d1] exI [of _ ?d2] exI [of _ "someip_bytes ?m3"] exI [of _ ?m3] exI [of _ rest'] conjI) simp_all
qed

text \<open>
  C1: The delivered gateway forwards the engine exactly. After start-up with the delivered files
  and any sequence of events, a frame with identifier 0x123 sends three notifications of service
  0x0101: the engine speed under method 0x8001, from which a receiver reads exactly a quarter of
  the first two bytes taken as a little-endian number, the temperature under 0x8002, exactly three
  quarters of the third byte minus 40 up to the declared maximum of 148.75, and the throttle position under 0x8003.
\<close>

theorem gateway_end_to_end:
  assumes "gw_main 64 4097 inet s args (Some (lf_file gateway_conf)) (Some (lf_file vehicle_dbc)) rs = Some (StillRunning st)"
    and "\<forall>r\<in>set rs. wait_ok input_ok r" and "can_id f AND CAN_EFF_MASK = 0x123"
    and "data f = b0 # b1 # b2 # rest" and "length rest = 5" and "length buf = SOMEIP_MAX_SIZE"
  shows "\<exists>gw' d1 d2 d3 m3 out. on_frame 64 inet buf clk f (fst (snd st)) = Some (gw', [Notify d1, Notify d2, Notify d3] @ out)
     \<and> filter is_notify out = []
     \<and> carries d1 0x0101 0x8001 (real_of_int (uint (join16 b1 b0)) / 4)
     \<and> carries d2 0x0101 0x8002 (real_of_int (min 595 (3 * uint b2 - 160)) / 4)
     \<and> someip_next d3 = Some (m3, length d3) \<and> service_id m3 = 0x0101 \<and> method_id m3 = 0x8003"
  using assms by (rule engine_forwarded)

text \<open>The delivered program just after start-up, and the engine frame of the simulator.\<close>

definition delivered :: gateway where
  "delivered = initial_gateway demo_startup 0 gateway_routes vehicle_messages"

definition engine_frame :: can_frame where
  "engine_frame = \<lparr>can_id = 0x123, can_dlc = 8, data = [0xB0, 0x36, 0xA8, 0x40, 0, 0, 0, 0]\<rparr>"

lemma delivered_running:
  "gw_main 64 4097 (\<lambda>_. 0) demo_startup [] (Some (lf_file gateway_conf)) (Some (lf_file vehicle_dbc)) []
     = Some (StillRunning ((initial_loop demo_startup)\<lparr>running := True\<rparr>, delivered, [first_offer (\<lambda>_. 0) []]))"
  using gw_start_succeeds [of 64 "Some (lf_file gateway_conf)" "Some (lf_file vehicle_dbc)" demo_startup "\<lambda>_. 0" "[]"]
  by (simp add: demo_sys_ok conf_loaded vehicle_parsed gw_main_def loop_run_def delivered_def)

theorem gateway_end_to_end_witness:
  "\<exists>gw' d1 d2 d3 m3 out. on_frame 64 (\<lambda>_. 0) stack_bytes demo_clocks engine_frame delivered
       = Some (gw', [Notify d1, Notify d2, Notify d3] @ out)
     \<and> carries d1 0x0101 0x8001 3500 \<and> carries d2 0x0101 0x8002 86
     \<and> someip_next d3 = Some (m3, length d3) \<and> method_id m3 = 0x8003"
proof -
  have *: "join16 0x36 0xB0 = (14000 :: u16)" by (simp add: join16_def)
  have f: "can_id engine_frame AND CAN_EFF_MASK = 0x123" "data engine_frame = 0xB0 # 0x36 # 0xA8 # [0x40, 0, 0, 0, 0]"
    by (simp_all add: engine_frame_def CAN_EFF_MASK_def)
  from gateway_end_to_end [OF delivered_running _ f _ length_stack_bytes, of demo_clocks]
  show ?thesis by (simp add: *) blast
qed

end
