(* ===== verification/Fp_Bounds.thy ===== *)
theory Fp_Bounds
  imports Benchmark
begin

text \<open>
  Doubles as the CAN tools use them: conversions from and to integers, and bounds that survive the
  rounding of an operation. A conversion of a double to an integer type that cannot hold its
  truncated value is undefined (\<open>None\<close>).
\<close>

section \<open>Conversions\<close>

definition cast_uint :: "nat \<Rightarrow> fp \<Rightarrow> int option" where
  "cast_uint w x = do { k \<leftarrow> fp_trunc x; if 0 \<le> k \<and> k < 2 ^ w then Some k else None }"

definition cast_int :: "fp \<Rightarrow> int option" where
  "cast_int x = do { k \<leftarrow> fp_trunc x; if - (2 ^ 31) \<le> k \<and> k < 2 ^ 31 then Some k else None }"

definition dbl :: "int \<Rightarrow> fp" where
  "dbl k = fp_of_int binary64 k"

section \<open>Rounding within integer bounds\<close>

definition in_bounds :: "int \<Rightarrow> fp \<Rightarrow> int \<Rightarrow> bool" where
  "in_bounds lo x hi \<longleftrightarrow> fp_finite x \<and> of_int lo \<le> fval x \<and> fval x \<le> of_int hi"

lemma rval_nat: "0 < k \<Longrightarrow> k < 2 ^ 53 \<Longrightarrow> rval binary64 k 1 = real k"
  using rval_exact [of k 1 k 0 binary64] by (simp add: binary64_def)

lemma rval_nonneg: "0 < n \<Longrightarrow> 0 < d \<Longrightarrow> 0 \<le> rval F n d"
  using rsig_bounds(1) [of n d F] by (simp add: rval_def)

lemma rval_in_bounds:
  assumes "0 < n" and "0 < d" and "of_int lo \<le> real n / real d" and "real n / real d \<le> of_int hi" and "lo < 2 ^ 53" and "hi < 2 ^ 53"
  shows "of_int lo \<le> rval binary64 n d \<and> rval binary64 n d \<le> of_int hi"
proof -
  have p: "1 \<le> prec binary64" by (simp add: binary64_def)
  have "0 < real n / real d" using assms(1,2) by simp
  then have "0 < (of_int hi :: real)" using assms(4) by linarith
  then have hi: "0 < hi" by simp
  have "rval binary64 n d \<le> rval binary64 (nat hi) 1" using assms(1,2,4) hi p by (intro rval_mono) simp_all
  then have up: "rval binary64 n d \<le> of_int hi" using rval_nat [of "nat hi"] hi assms(6) by (simp add: nat_less_iff)
  show ?thesis
  proof (cases "0 < lo")
    case True
    then have "rval binary64 (nat lo) 1 \<le> rval binary64 n d" using assms(1,2,3) p by (intro rval_mono) simp_all
    then show ?thesis using up rval_nat [of "nat lo"] True assms(5) by (simp add: nat_less_iff)
  next
    case False
    then have "(of_int lo :: real) \<le> 0" by simp
    then show ?thesis using up rval_nonneg [OF assms(1,2), of binary64] by linarith
  qed
qed

lemma round_in_bounds:
  assumes "0 < d" and v: "v = (if s then -1 else 1) * (real n / real d * 2 powi e)"
    and "of_int lo \<le> v" and "v \<le> of_int hi" and "\<bar>lo\<bar> < 2 ^ 53" and "\<bar>hi\<bar> < 2 ^ 53"
  shows "in_bounds lo (round_scaled binary64 s n d e) hi"
proof -
  obtain n' d' where rs: "round_scaled binary64 s n d e = round_ratio binary64 s n' d'" and d': "0 < d'"
    and x: "real n' / real d' = real n / real d * 2 powi e" and pos: "0 < n' \<longleftrightarrow> 0 < n"
    using round_scaled_ratio [OF assms(1)] .
  show ?thesis
  proof (cases "n' = 0")
    case True
    then have "v = 0" using pos v by simp
    with True assms(3,4) show ?thesis by (simp add: rs in_bounds_def round_ratio_def fp_finite_def fval_def)
  next
    case False
    then have n': "0 < n'" by simp
    let ?r = "rval binary64 n' d'"
    have b: "of_int (if s then - hi else lo) \<le> ?r \<and> ?r \<le> of_int (if s then - lo else hi)"
      using assms(3-6) v x by (intro rval_in_bounds [OF n' d']) (auto simp: abs_less_iff split: if_splits)
    have "of_int (if s then - lo else hi) < (2 ^ 53 :: real)"
    proof -
      have "(if s then - lo else hi) < 2 ^ 53" using assms(5,6) by (auto simp: abs_less_iff)
      then have "real_of_int (if s then - lo else hi) < real_of_int (2 ^ 53)" by (simp only: of_int_less_iff)
      then show ?thesis by simp
    qed
    moreover have "(2 ^ 53 :: real) \<le> 2 powi (emax binary64 + int (prec binary64))" by (simp add: binary64_def power_int_def)
    ultimately have "?r < 2 powi (emax binary64 + int (prec binary64))" using b by linarith
    with round_ratio_value [OF fmt_ok_formats(1) n' d', of s] obtain q f where
      "round_ratio binary64 s n' d' = Fin s q f" "real q * 2 powi f = ?r" by auto
    with b show ?thesis by (auto simp: rs in_bounds_def fp_finite_def fval_def split: if_splits)
  qed
qed

lemma mul_in_bounds:
  assumes "fp_finite a" and "fp_finite b" and "of_int lo \<le> fval a * fval b" and "fval a * fval b \<le> of_int hi"
    and "\<bar>lo\<bar> < 2 ^ 53" and "\<bar>hi\<bar> < 2 ^ 53"
  shows "in_bounds lo (fp_mul binary64 a b) hi"
proof -
  obtain s m e where a: "a = Fin s m e" using assms(1) by (rule fp_finiteE)
  obtain t n f where b: "b = Fin t n f" using assms(2) by (rule fp_finiteE)
  have "fval a * fval b = (if s \<noteq> t then -1 else 1) * (real (m * n) / real 1 * 2 powi (e + f))"
    unfolding a b by (simp add: fval_def power_int_add)
  from round_in_bounds [OF _ this assms(3-6)] show ?thesis by (simp add: a b)
qed

lemma div_in_bounds:
  assumes "fp_finite a" and "fp_finite b" and "fval b \<noteq> 0" and "of_int lo \<le> fval a / fval b" and "fval a / fval b \<le> of_int hi"
    and "\<bar>lo\<bar> < 2 ^ 53" and "\<bar>hi\<bar> < 2 ^ 53"
  shows "in_bounds lo (fp_div binary64 a b) hi"
proof -
  obtain s m e where a: "a = Fin s m e" using assms(1) by (rule fp_finiteE)
  obtain t n f where b: "b = Fin t n f" using assms(2) by (rule fp_finiteE)
  have n: "0 < n" using assms(3) by (cases n) (simp_all add: b fval_def)
  have "fval a / fval b = (if s \<noteq> t then -1 else 1) * (real m / real n * 2 powi (e - f))"
    unfolding a b by (simp add: fval_def power_int_diff)
  from round_in_bounds [OF n this assms(4-7)] n show ?thesis by (simp add: a b)
qed

lemma add_in_bounds:
  assumes "fp_finite a" and "fp_finite b" and "of_int lo \<le> fval a + fval b" and "fval a + fval b \<le> of_int hi"
    and "\<bar>lo\<bar> < 2 ^ 53" and "\<bar>hi\<bar> < 2 ^ 53"
  shows "in_bounds lo (fp_add binary64 a b) hi"
proof -
  obtain s m e where a: "a = Fin s m e" using assms(1) by (rule fp_finiteE)
  obtain t n f where b: "b = Fin t n f" using assms(2) by (rule fp_finiteE)
  define e0 where "e0 = min e f"
  define k where "k = signed_sig s m e e0 + signed_sig t n f e0"
  have "real_of_int k = (fval a + fval b) / 2 powi e0"
    unfolding k_def of_int_add a b by (subst (1 2) signed_sig_real) (simp_all add: e0_def add_divide_distrib)
  then have sum: "fval a + fval b = real_of_int k * 2 powi e0" by simp
  have r: "fp_add binary64 a b = (if k = 0 then Fin (s \<and> t) 0 (emin binary64) else round_scaled binary64 (k < 0) (nat \<bar>k\<bar>) 1 e0)"
    by (simp add: a b k_def e0_def Let_def)
  show ?thesis
  proof (cases "k = 0")
    case True
    then show ?thesis using r sum assms(3,4) by (simp add: in_bounds_def fp_finite_def fval_def)
  next
    case False
    have "fval a + fval b = (if k < 0 then -1 else 1) * (real (nat \<bar>k\<bar>) / real 1 * 2 powi e0)" using sum by simp
    from round_in_bounds [OF _ this assms(3-6)] False r show ?thesis by simp
  qed
qed

lemma cast_in_bounds:
  assumes "in_bounds lo x hi" and "0 \<le> lo" and "hi < 2 ^ w"
  shows "\<exists>k. cast_uint w x = Some k \<and> lo \<le> k \<and> k \<le> hi"
proof -
  have "fp_finite x" using assms(1) by (simp add: in_bounds_def)
  then obtain s m e where x: "x = Fin s m e" by (rule fp_finiteE)
  have b: "of_int lo \<le> fval x" "fval x \<le> of_int hi" using assms(1) by (simp_all add: in_bounds_def)
  define k where "k = \<lfloor>fval x\<rfloor>"
  have "fp_trunc x = Some k"
  proof (cases s)
    case False
    then show ?thesis using fp_trunc_nonneg x by (simp add: k_def)
  next
    case True
    have "0 \<le> fval x" using b(1) assms(2) by (meson of_int_0_le_iff order_trans)
    moreover have "fval x = - (real m * 2 powi e)" using True by (simp add: x fval_def)
    moreover have "(0 :: real) < 2 powi e" by simp
    ultimately have "m = 0" by (auto simp: mult_le_0_iff)
    then show ?thesis by (simp add: x fp_trunc_def fval_def k_def)
  qed
  moreover have "lo \<le> k" "k \<le> hi" using b by (simp_all add: k_def le_floor_iff floor_le_iff)
  ultimately show ?thesis using assms(2,3) by (auto simp: cast_uint_def)
qed

lemma dbl_exact: "\<bar>k\<bar> < 2 ^ 53 \<Longrightarrow> fp_finite (dbl k) \<and> fval (dbl k) = of_int k"
proof -
  assume "\<bar>k\<bar> < 2 ^ 53"
  then have "representable binary64 (of_int k)" using representable_quarter [of k]
    unfolding representable_def by (intro exI [of _ "nat \<bar>k\<bar>"] exI [of _ 0]) (auto simp: binary64_def nat_less_iff)
  from finite_as_finite [OF fp_of_int_exact [OF fmt_ok_formats(1) this]] show ?thesis by (simp add: dbl_def)
qed


section \<open>Rounding of quotients\<close>

text \<open>A quotient of positive numbers is the rounding of the exact ratio.\<close>

lemma div_ratio:
  assumes "fp_finite a" and "fp_finite b" and "0 < fval a" and "0 < fval b"
  obtains n d where "0 < n" and "0 < d" and "fp_div binary64 a b = round_ratio binary64 False n d" and "real n / real d = fval a / fval b"
proof -
  obtain s m e where a: "a = Fin s m e" using assms(1) by (rule fp_finiteE)
  obtain t k f where b: "b = Fin t k f" using assms(2) by (rule fp_finiteE)
  have pos: "\<not> x \<and> 0 < j" if "0 < fval (Fin x j g)" for x j g
  proof -
    have "(0 :: real) < 2 powi g" by simp
    with that show ?thesis by (cases x) (auto simp: fval_def zero_less_mult_iff mult_less_0_iff intro: gr0I)
  qed
  have st: "\<not> s" "0 < m" "\<not> t" "0 < k" using pos assms(3,4) unfolding a b by blast+
  obtain n d where r: "round_scaled binary64 False m k (e - f) = round_ratio binary64 False n d" "0 < d"
    "real n / real d = real m / real k * 2 powi (e - f)" "0 < n \<longleftrightarrow> 0 < m"
    using st(4) by (rule round_scaled_ratio [of k binary64 False m "e - f"])
  show ?thesis
  proof (rule that [of n d])
    show "fp_div binary64 a b = round_ratio binary64 False n d" using st r(1) by (simp add: a b)
    show "real n / real d = fval a / fval b" unfolding r(3) a b using st by (simp add: fval_def power_int_diff)
  qed (use r st in simp_all)
qed

lemma cast_uint_round:
  assumes "0 < n" and "0 < d"
  shows "cast_uint w (round_ratio binary64 False n d) = Some k \<longleftrightarrow>
     rval binary64 n d < 2 powi (emax binary64 + int (prec binary64)) \<and> k = \<lfloor>rval binary64 n d\<rfloor> \<and> k < 2 ^ w"
proof -
  have "0 \<le> \<lfloor>rval binary64 n d\<rfloor>" using rval_nonneg [OF assms] by simp
  with round_ratio_value [OF fmt_ok_formats(1) assms, of False] show ?thesis
    by (auto simp: cast_uint_def fp_trunc_nonneg fval_def fp_trunc_def [of "Inf False"] split: if_splits)
qed

text \<open>
  A positive value scaled by a positive factor and converted to an unsigned integer lies between
  the conversions of the scaled bounds.
\<close>

lemma scaled_cast:
  assumes "in_bounds lo x hi" and "0 < lo" and "hi < 2 ^ 53" and "fp_finite c" and "0 < fval c"
    and "cast_uint w (fp_div binary64 (dbl lo) c) = Some a" and "cast_uint w (fp_div binary64 (dbl hi) c) = Some b"
  obtains k where "cast_uint w (fp_div binary64 x c) = Some k" and "a \<le> k" and "k \<le> b"
proof -
  have x: "fp_finite x" "of_int lo \<le> fval x" "fval x \<le> of_int hi" using assms(1) by (simp_all add: in_bounds_def)
  have lo: "0 < real_of_int lo" using assms(2) by simp
  have "real_of_int lo \<le> real_of_int hi" using x by linarith
  then have lh: "lo \<le> hi" by simp
  then have d: "fp_finite (dbl lo)" "fval (dbl lo) = of_int lo" "fp_finite (dbl hi)" "fval (dbl hi) = of_int hi"
    using dbl_exact [of lo] dbl_exact [of hi] assms(2,3) by simp_all
  have "0 < fval (dbl lo)" "0 < fval x" "0 < fval (dbl hi)" using lo x d by linarith+
  then obtain n1 d1 n2 d2 n3 d3 where
    1: "0 < n1" "0 < d1" "fp_div binary64 (dbl lo) c = round_ratio binary64 False n1 d1" "real n1 / real d1 = of_int lo / fval c" and
    2: "0 < n2" "0 < d2" "fp_div binary64 x c = round_ratio binary64 False n2 d2" "real n2 / real d2 = fval x / fval c" and
    3: "0 < n3" "0 < d3" "fp_div binary64 (dbl hi) c = round_ratio binary64 False n3 d3" "real n3 / real d3 = of_int hi / fval c"
    using div_ratio [OF d(1) assms(4) _ assms(5)] div_ratio [OF x(1) assms(4) _ assms(5)] div_ratio [OF d(3) assms(4) _ assms(5)] d(2,4)
    by metis
  have p: "1 \<le> prec binary64" by (simp add: binary64_def)
  have "rval binary64 n1 d1 \<le> rval binary64 n2 d2"
    using x(2) assms(5) by (intro rval_mono 1 2 p) (simp add: 1(4) 2(4) divide_right_mono)
  moreover have "rval binary64 n2 d2 \<le> rval binary64 n3 d3"
    using x(3) assms(5) by (intro rval_mono 3 2 p) (simp add: 3(4) 2(4) divide_right_mono)
  ultimately have le: "\<lfloor>rval binary64 n1 d1\<rfloor> \<le> \<lfloor>rval binary64 n2 d2\<rfloor>" "\<lfloor>rval binary64 n2 d2\<rfloor> \<le> \<lfloor>rval binary64 n3 d3\<rfloor>"
    "rval binary64 n2 d2 \<le> rval binary64 n3 d3" by (simp_all add: floor_mono)
  note a = assms(6) [unfolded 1(3) cast_uint_round [OF 1(1,2)]] and b = assms(7) [unfolded 3(3) cast_uint_round [OF 3(1,2)]]
  have "cast_uint w (fp_div binary64 x c) = Some \<lfloor>rval binary64 n2 d2\<rfloor>"
    unfolding 2(3) cast_uint_round [OF 2(1,2)] using le b by linarith
  with that a b le show ?thesis by blast
qed

text \<open>The relative error of a rounding.\<close>

lemma rval_relative:
  assumes "0 < n" and "0 < d" and "1 / 2 ^ 90 \<le> real n / real d"
  shows "real n / real d * (1 - 1 / 2 ^ 52) \<le> rval binary64 n d" and "rval binary64 n d \<le> real n / real d * (1 + 1 / 2 ^ 52)"
proof -
  let ?x = "real n / real d" and ?e = "rexp binary64 n d"
  have p: "(0 :: real) < 2 powi ?e" by simp
  note b = ilog2_bounds [OF assms(1,2)]
  have "(2 :: real) powi (- 90) = 1 / 2 ^ 90" by (simp add: power_int_def power_divide)
  then have "(2 :: real) powi (- 90) < 2 powi (ilog2 n d + 1)" using b(2) assms(3) by linarith
  then have "- 90 < ilog2 n d + 1" by (simp only: powi_less_iff)
  then have e: "?e + 52 = ilog2 n d" by (simp add: rexp_def binary64_def)
  have "2 powi ?e * 2 ^ 52 = (2 :: real) powi (?e + 52)" by (simp add: power_int_add)
  also have "\<dots> \<le> ?x" unfolding e by (rule b(1))
  finally have ulp: "2 powi ?e \<le> ?x / 2 ^ 52" by simp
  have "?x / 2 powi ?e - 1 \<le> of_int (rsig binary64 n d)" "of_int (rsig binary64 n d) \<le> ?x / 2 powi ?e + 1"
    unfolding rsig_def using rhe_bounds [of "?x / 2 powi ?e"] by linarith+
  from mult_right_mono [OF this(1), of "2 powi ?e"] mult_right_mono [OF this(2), of "2 powi ?e"]
  have "?x - 2 powi ?e \<le> rval binary64 n d" "rval binary64 n d \<le> ?x + 2 powi ?e"
    by (simp_all add: rval_def algebra_simps)
  with ulp show "?x * (1 - 1 / 2 ^ 52) \<le> rval binary64 n d" "rval binary64 n d \<le> ?x * (1 + 1 / 2 ^ 52)"
    by (simp_all add: algebra_simps)
qed

lemma div_relative:
  assumes "fp_finite a" and "fp_finite b" and "0 < fval a" and "0 < fval b"
    and "1 / 2 ^ 90 \<le> fval a / fval b" and "fval a / fval b \<le> 2 ^ 90"
  shows "fp_finite (fp_div binary64 a b) \<and> fval a / fval b * (1 - 1 / 2 ^ 52) \<le> fval (fp_div binary64 a b)
     \<and> fval (fp_div binary64 a b) \<le> fval a / fval b * (1 + 1 / 2 ^ 52)"
proof -
  obtain n d where r: "0 < n" "0 < d" "fp_div binary64 a b = round_ratio binary64 False n d" "real n / real d = fval a / fval b"
    by (rule div_ratio [OF assms(1-4)])
  note rel = rval_relative [OF r(1,2), unfolded r(4), OF assms(5)]
  have "rval binary64 n d \<le> 2 ^ 90 * 2"
    using rel(2) mult_mono [OF assms(6), of "1 + 1 / 2 ^ 52" 2] by simp
  also have "\<dots> = (2 :: real) powi 91" by (simp add: power_int_def)
  also have "\<dots> < 2 powi (emax binary64 + int (prec binary64))" by (simp only: powi_less_iff) (simp add: binary64_def)
  finally obtain q e where "fp_div binary64 a b = Fin False q e" "real q * 2 powi e = rval binary64 n d"
    using round_ratio_value [OF fmt_ok_formats(1) r(1,2), of False] r(3) by auto
  with rel show ?thesis by (simp add: fp_finite_def fval_def)
qed

end
