(* ===== verification/Can_Tools.thy ===== *)
theory Can_Tools
  imports Shipped_Config Fp_Bounds
begin

text \<open>
  The CAN traffic generators: the byte packing of \<^verbatim>\<open>tools/can_simulator.cpp\<close> and the stress
  test \<^verbatim>\<open>tools/stress_test.cpp\<close>. The arguments of the program, the descriptor that \<open>socket\<close>
  returns and the clock readings, in the order the program takes them, are arguments of the
  model; the results of \<open>ioctl\<close>, \<open>bind\<close> and \<open>write\<close> are ignored by the code. \<open>None\<close> is undefined
  behaviour: a division by zero, or a number that does not fit an \<open>int\<close>.
\<close>

section \<open>Packing\<close>

definition pack_u16 :: "byte list \<Rightarrow> nat \<Rightarrow> u16 \<Rightarrow> byte list option" where
  "pack_u16 dat byte_offset val = do {
     dat \<leftarrow> put byte_offset [ucast (val AND 0xFF)] dat;
     put (byte_offset + 1) [ucast (drop_bit 8 val AND 0xFF)] dat }"

section \<open>The stress test\<close>

text \<open>\<open>atoi\<close>: zero when there is no number; a number beyond \<open>int\<close> is undefined.\<close>

definition atoi :: "string \<Rightarrow> int option" where
  "atoi s =
     (let (neg, t) = scan_sign (dropWhile isspace s); (ds, r) = scan_digits 10 t;
          v = (if neg then - int (digits_val 10 ds) else int (digits_val 10 ds)) in
      if v < - (2 ^ 31) \<or> 2 ^ 31 \<le> v then None else Some v)"

definition stress_args :: "string list \<Rightarrow> (int \<times> int) option" where
  "stress_args args = do {
     rate_hz \<leftarrow> (case args of a # _ \<Rightarrow> atoi a | [] \<Rightarrow> Some 1000);
     duration \<leftarrow> (case args of _ # b # _ \<Rightarrow> atoi b | _ \<Rightarrow> Some 10);
     Some (rate_hz, duration) }"

text \<open>
  The interval between frames and the number of frames; \<open>rate_hz\<close> and \<open>duration\<close> are ints, which
  the usual conversions turn into 64-bit numbers. A rate of zero divides by zero.
\<close>

definition stress_plan :: "int \<Rightarrow> int \<Rightarrow> (u64 \<times> u64) option" where
  "stress_plan rate_hz duration =
     (if (of_int rate_hz :: u64) = 0 then None
      else Some (1000000000 div of_int rate_hz, of_int rate_hz * of_int duration))"

definition stress_frame :: "u64 \<Rightarrow> can_frame" where
  "stress_frame sent =
     \<lparr>can_id = [291, 292, 293] ! unat (sent mod 3), can_dlc = 8,
      data = map (\<lambda>i. ucast ((sent + of_nat i) AND 0xFF)) [0..<8]\<rparr>"

record stress =
  sent :: u64
  next_send :: u64

text \<open>What the program does: frames written to the socket and lines printed.\<close>

datatype stress_out = Plan int int u64 | Write can_frame | Sent u64 int | Done u64 fp int

definition stress_elapsed :: "u64 \<Rightarrow> u64 \<Rightarrow> fp" where
  "stress_elapsed start_time now = fp_div binary64 (dbl (uint (now - start_time))) (dbl 1000000000)"

definition stress_fps :: "u64 \<Rightarrow> fp \<Rightarrow> int option" where
  "stress_fps n elapsed = cast_int (fp_div binary64 (dbl (uint n)) elapsed)"

definition stress_done :: "u64 \<Rightarrow> u64 \<Rightarrow> u64 \<Rightarrow> stress_out option" where
  "stress_done start_time n now = do {
     let total_time = stress_elapsed start_time now;
     fps \<leftarrow> stress_fps n total_time;
     Some (Done n total_time fps) }"

text \<open>
  The loop over the clock readings, in the order the code takes them: one per iteration, one more
  after every thousandth frame and one at the end. The result has the outputs and the exit status,
  \<open>None\<close> while the loop waits for the clock.
\<close>

fun stress_loop :: "u64 \<Rightarrow> u64 \<Rightarrow> u64 \<Rightarrow> u64 list \<Rightarrow> stress \<Rightarrow> (stress_out list \<times> int option) option" where
  "stress_loop interval_ns total_frames start_time [] st = Some ([], None)"
| "stress_loop interval_ns total_frames start_time (now # nows) st =
     (if \<not> sent st < total_frames then do {
        line \<leftarrow> stress_done start_time (sent st) now;
        Some ([line], Some 0) }
      else if now < next_send st then stress_loop interval_ns total_frames start_time nows st
      else do {
        let frame = stress_frame (sent st);
        let st = st\<lparr>sent := sent st + 1, next_send := next_send st + interval_ns\<rparr>;
        if sent st mod 1000 = 0 then
          (case nows of
             [] \<Rightarrow> Some ([Write frame], None)
           | later # nows \<Rightarrow> do {
               actual_rate \<leftarrow> stress_fps (sent st) (stress_elapsed start_time later);
               (out, status) \<leftarrow> stress_loop interval_ns total_frames start_time nows st;
               Some (Write frame # Sent (sent st) actual_rate # out, status) })
        else do {
          (out, status) \<leftarrow> stress_loop interval_ns total_frames start_time nows st;
          Some (Write frame # out, status) } })"

definition stress_main :: "int \<Rightarrow> string list \<Rightarrow> u64 list \<Rightarrow> (stress_out list \<times> int option) option" where
  "stress_main sock args nows = do {
     (rate_hz, duration) \<leftarrow> stress_args args;
     if sock < 0 then Some ([], Some 1)
     else do {
       (interval_ns, total_frames) \<leftarrow> stress_plan rate_hz duration;
       (case nows of
          [] \<Rightarrow> Some ([Plan rate_hz duration total_frames], None)
        | start_time # nows \<Rightarrow> do {
            (out, status) \<leftarrow> stress_loop interval_ns total_frames start_time nows \<lparr>sent = 0, next_send = start_time\<rparr>;
            Some (Plan rate_hz duration total_frames # out, status) }) } }"

section \<open>The rate printed\<close>

text \<open>
  The rate computed with two rounded divisions and truncated: \<open>10\<^sup>9 n / dt\<close> frames per second up to
  a relative error of \<open>2 ^ -50\<close> and the truncation.
\<close>

definition fps_near :: "nat \<Rightarrow> nat \<Rightarrow> int \<Rightarrow> bool" where
  "fps_near n dt r \<longleftrightarrow> of_int r \<le> 10 ^ 9 * real n / real dt * (1 + 1 / 2 ^ 50)
     \<and> 10 ^ 9 * real n / real dt * (1 - 1 / 2 ^ 50) < of_int r + 1"

lemma cast_int_trunc:
  assumes "fp_finite x" and "0 \<le> fval x" and "fval x < 2 ^ 31"
  shows "cast_int x = Some \<lfloor>fval x\<rfloor>"
proof -
  have "in_bounds 0 x (2 ^ 31)" using assms by (simp add: in_bounds_def)
  obtain s m e where x: "x = Fin s m e" using assms(1) by (rule fp_finiteE)
  have "fp_trunc x = Some \<lfloor>fval x\<rfloor>"
  proof (cases s)
    case False
    then show ?thesis using fp_trunc_nonneg x by simp
  next
    case True
    have "(0 :: real) < 2 powi e" by simp
    with True assms(2) have "m = 0" by (auto simp: x fval_def mult_le_0_iff simp del: zero_less_power_int)
    then show ?thesis by (simp add: x fp_trunc_def fval_def)
  qed
  moreover have "0 \<le> \<lfloor>fval x\<rfloor>" "\<lfloor>fval x\<rfloor> < 2 ^ 31" using assms(2,3) by (simp_all add: floor_less_iff)
  ultimately show ?thesis by (simp add: cast_int_def)
qed

lemma fps_defined:
  assumes "0 < dt" and "dt < 2 ^ 53" and "n < 2 ^ 53" and "n \<le> 2 * dt"
  shows "\<exists>r. cast_int (fp_div binary64 (dbl (int n)) (fp_div binary64 (dbl (int dt)) (dbl 1000000000))) = Some r \<and> fps_near n dt r"
proof -
  let ?D = "real dt / 1000000000" and ?e = "1 / 2 ^ 52 :: real"
  let ?E = "fp_div binary64 (dbl (int dt)) (dbl 1000000000)"
  have d: "fp_finite (dbl (int dt))" "fval (dbl (int dt)) = real dt" "fp_finite (dbl 1000000000)" "fval (dbl 1000000000) = 1000000000"
    "fp_finite (dbl (int n))" "fval (dbl (int n)) = real n"
    using dbl_exact [of "int dt"] dbl_exact [of 1000000000] dbl_exact [of "int n"] assms(2,3) by simp_all
  have big: "real k < 2 ^ 53" if "k < 2 ^ 53" for k using that by (metis of_nat_less_iff of_nat_numeral of_nat_power)
  have dt: "1 \<le> real dt" "real dt < 2 ^ 53" using assms(1) big [OF assms(2)] by simp_all
  have "0 < fval (dbl (int dt))" "0 < fval (dbl 1000000000)" "1 / 2 ^ 90 \<le> fval (dbl (int dt)) / fval (dbl 1000000000)"
    "fval (dbl (int dt)) / fval (dbl 1000000000) \<le> 2 ^ 90" unfolding d(2,4) using dt by simp_all
  from div_relative [OF d(1,3) this] have E: "fp_finite ?E" "?D * (1 - ?e) \<le> fval ?E" "fval ?E \<le> ?D * (1 + ?e)"
    unfolding d(2,4) by blast+
  have D: "0 < ?D" using dt by simp
  then have E0: "0 < fval ?E" using E(2) by simp
  have dn: "fp_finite (dbl (int n))" "fval (dbl (int n)) = real n" by (rule d(5), rule d(6))
  let ?R = "fp_div binary64 (dbl (int n)) ?E" and ?Y = "10 ^ 9 * real n / real dt"
  have R: "fp_finite ?R \<and> ?Y * (1 - 1 / 2 ^ 50) \<le> fval ?R \<and> fval ?R \<le> ?Y * (1 + 1 / 2 ^ 50)"
  proof (cases "n = 0")
    case True
    have "in_bounds 0 ?R 0" using dn E(1) E0 True by (intro div_in_bounds) simp_all
    then show ?thesis using True by (simp add: in_bounds_def)
  next
    case False
    then have n: "0 < real n" "1 \<le> real n" "real n < 2 ^ 53" using big [OF assms(3)] by simp_all
    have q: "real n / (?D * (1 + ?e)) \<le> real n / fval ?E" "real n / fval ?E \<le> real n / (?D * (1 - ?e))"
      using E E0 D n by (intro divide_left_mono mult_pos_pos; simp)+
    have Y: "real n / (?D * (1 + ?e)) = ?Y / (1 + ?e)" "real n / (?D * (1 - ?e)) = ?Y / (1 - ?e)" using dt by (simp_all add: field_simps)
    have "fval ?E \<le> 2 ^ 54" "1 / 2 ^ 32 \<le> fval ?E" using E(2,3) dt by simp_all
    then have "1 / 2 ^ 54 \<le> real n / fval ?E" "real n / fval ?E \<le> 2 ^ 53 * 2 ^ 32"
      using n E0 by (simp_all add: pos_le_divide_eq pos_divide_le_eq)
    moreover have "1 / 2 ^ 90 \<le> (1 / 2 ^ 54 :: real)" "(2 ^ 53 * 2 ^ 32 :: real) \<le> 2 ^ 90" by simp_all
    ultimately have "1 / 2 ^ 90 \<le> fval (dbl (int n)) / fval ?E" "fval (dbl (int n)) / fval ?E \<le> 2 ^ 90"
      unfolding dn(2) by (meson order_trans)+
    from div_relative [OF dn(1) E(1) _ E0 this] n(1) have r: "fp_finite ?R" "real n / fval ?E * (1 - ?e) \<le> fval ?R"
      "fval ?R \<le> real n / fval ?E * (1 + ?e)" by (simp_all add: dn(2))
    have Y0: "0 \<le> ?Y" by simp
    have "?Y * (1 - 1 / 2 ^ 50) \<le> ?Y / (1 + ?e) * (1 - ?e)"
      using mult_left_mono [OF _ Y0, of "1 - 1 / 2 ^ 50" "(1 - ?e) / (1 + ?e)"] by simp
    also have "\<dots> \<le> real n / fval ?E * (1 - ?e)" using q(1) unfolding Y by (intro mult_right_mono) simp_all
    finally have lo: "?Y * (1 - 1 / 2 ^ 50) \<le> fval ?R" using r(2) by linarith
    have "real n / fval ?E * (1 + ?e) \<le> ?Y / (1 - ?e) * (1 + ?e)" using q(2) unfolding Y by (intro mult_right_mono) simp_all
    also have "\<dots> \<le> ?Y * (1 + 1 / 2 ^ 50)"
      using mult_left_mono [OF _ Y0, of "(1 + ?e) / (1 - ?e)" "1 + 1 / 2 ^ 50"] by simp
    finally show ?thesis using lo r(1,3) by linarith
  qed
  have "?Y \<le> 2 * 10 ^ 9"
  proof -
    have "real n \<le> 2 * real dt" using of_nat_mono [OF assms(4), where 'a = real] by simp
    then show ?thesis using dt by (simp add: field_simps)
  qed
  moreover have "0 \<le> ?Y * (1 - 1 / 2 ^ 50)" by simp
  ultimately have "0 \<le> fval ?R" "fval ?R < 2 ^ 31" using R by auto
  from cast_int_trunc [OF _ this] R show ?thesis by (auto simp: fps_near_def le_less_trans) linarith+
qed

section \<open>The frames\<close>

lemma stress_frame_ok: "frame_ok (stress_frame n)"
  by (simp add: frame_ok_def stress_frame_def)

lemma stress_frame_id: "can_id (stress_frame n) \<in> {291, 292, 293}"
proof -
  have "unat (n mod 3) < 3" by (simp add: unat_mod)
  then consider "unat (n mod 3) = 0" | "unat (n mod 3) = 1" | "unat (n mod 3) = 2" by linarith
  then show ?thesis by cases (simp_all add: stress_frame_def)
qed

section \<open>The loop\<close>

lemma fps_reading:
  assumes "start < now" and "unat now - unat start < 2 ^ 53" and "unat n < 2 ^ 53" and "unat n \<le> 2 * (unat now - unat start)"
  obtains r where "stress_fps n (stress_elapsed start now) = Some r" and "fps_near (unat n) (unat now - unat start) r"
proof -
  have "start \<le> now" using assms(1) by simp
  then have "unat (now - start) = unat now - unat start" by (rule unat_sub)
  then have dt: "uint (now - start) = int (unat now - unat start)" unfolding uint_nat by (rule arg_cong)
  have "0 < unat now - unat start" using assms(1) by (simp add: word_less_nat_alt)
  from fps_defined [OF this assms(2-4)] obtain r where
    "cast_int (fp_div binary64 (dbl (int (unat n))) (fp_div binary64 (dbl (int (unat now - unat start))) (dbl 1000000000))) = Some r"
    "fps_near (unat n) (unat now - unat start) r" by blast
  then show ?thesis using that unfolding stress_fps_def stress_elapsed_def dt uint_nat [of n] by blast
qed

text \<open>
  As long as the planned times stay below \<open>2 ^ 64\<close>, the loop is the loop on natural numbers: after
  \<open>k\<close> frames the next one is due at \<open>start + k * interval\<close>.
\<close>

definition due :: "u64 \<Rightarrow> u64 \<Rightarrow> nat \<Rightarrow> stress \<Rightarrow> bool" where
  "due start interval k st \<longleftrightarrow> unat (sent st) = k \<and> unat (next_send st) = unat start + k * unat interval"

lemma due_step:
  fixes total_frames :: u64
  assumes "due start interval k st" and "k < unat total_frames" and "unat start + unat total_frames * unat interval < 2 ^ 64"
  shows "due start interval (k + 1) (st\<lparr>sent := sent st + 1, next_send := next_send st + interval\<rparr>)"
proof -
  have "k + 1 < 2 ^ 64" using assms(2) unsigned_less [where 'b = 64 and 'a = nat, of total_frames] by simp
  then have 1: "unat (sent st + 1) = k + 1" using assms(1) by (simp add: due_def unat_word_ariths)
  have "(k + 1) * unat interval \<le> unat total_frames * unat interval" using assms(2) by (intro mult_right_mono) simp_all
  then have "unat start + k * unat interval + unat interval < 2 ^ 64" using assms(3) by simp
  then have "unat (next_send st + interval) = unat start + k * unat interval + unat interval"
    using assms(1) by (simp add: due_def unat_word_ariths)
  with 1 show ?thesis by (simp add: due_def)
qed

definition writes :: "stress_out list \<Rightarrow> can_frame list" where
  "writes out = concat (map (\<lambda>x. case x of Write f \<Rightarrow> [f] | _ \<Rightarrow> []) out)"

lemma writes_simps [simp]: "writes [] = []" "writes (Write f # xs) = f # writes xs" "writes (Sent j r # xs) = writes xs"
  "writes (Done j t r # xs) = writes xs" "writes (Plan a b c # xs) = writes xs"
  by (simp_all add: writes_def)

lemma writes_append: "writes (xs @ ys) = writes xs @ writes ys"
  by (simp add: writes_def)

text \<open>The readings from which every planned frame is due.\<close>

definition late_readings :: "u64 \<Rightarrow> u64 \<Rightarrow> u64 \<Rightarrow> u64 list \<Rightarrow> nat" where
  "late_readings start interval total_frames nows = length (filter (\<lambda>now. unat start + unat total_frames * unat interval \<le> unat now) nows)"

lemma late_readings_simps [simp]: "late_readings start interval total_frames [] = 0"
  "late_readings start interval total_frames (now # nows) = (if unat start + unat total_frames * unat interval \<le> unat now then 1 else 0) + late_readings start interval total_frames nows"
  by (simp_all add: late_readings_def)

text \<open>The rate printed in a line is that of a reading after the start.\<close>

definition line_ok :: "u64 \<Rightarrow> u64 list \<Rightarrow> nat \<Rightarrow> stress_out \<Rightarrow> bool" where
  "line_ok start nows n x \<longleftrightarrow> (case x of
      Sent j r \<Rightarrow> unat j \<le> n \<and> 1000 dvd unat j \<and> (\<exists>now\<in>set nows. start < now \<and> fps_near (unat j) (unat now - unat start) r)
    | Done j t r \<Rightarrow> unat j = n \<and> (\<exists>now\<in>set nows. start < now \<and> t = stress_elapsed start now \<and> fps_near n (unat now - unat start) r)
    | Plan _ _ _ \<Rightarrow> False
    | Write _ \<Rightarrow> True)"

definition stress_ok :: "u64 \<Rightarrow> u64 \<Rightarrow> u64 \<Rightarrow> nat \<Rightarrow> u64 list \<Rightarrow> nat \<Rightarrow> (stress_out list \<times> int option) option \<Rightarrow> bool" where
  "stress_ok start interval total_frames T nows k res \<longleftrightarrow> (\<exists>out status n. res = Some (out, status)
     \<and> writes out = map (\<lambda>i. stress_frame (of_nat i)) [k..<n] \<and> k \<le> n \<and> n \<le> unat total_frames
     \<and> (n = 0 \<or> (n - 1) * unat interval \<le> T) \<and> (\<forall>x\<in>set out. line_ok start nows n x)
     \<and> (status = Some 0 \<and> n = unat total_frames \<and> (\<exists>t r out'. out = out' @ [Done total_frames t r])
        \<or> status = None \<and> late_readings start interval total_frames nows + k + k div 1000 \<le> unat total_frames + unat total_frames div 1000))"

lemma line_ok_mono: "line_ok start nows n x \<Longrightarrow> set nows \<subseteq> set nows' \<Longrightarrow> line_ok start nows' n x"
  by (auto simp: line_ok_def split: stress_out.splits)

text \<open>One frame more, with the line printed after it, in front of the rest of a run.\<close>

lemma frame_step:
  assumes "stress_ok start interval total_frames T rest (k + 1) (Some (out, status))" and "set rest \<subseteq> set nows"
    and "late_readings start interval total_frames nows + k div 1000 \<le> late_readings start interval total_frames rest + 1 + (k + 1) div 1000"
    and "writes lines = []" and "\<And>n x. k + 1 \<le> n \<Longrightarrow> x \<in> set lines \<Longrightarrow> line_ok start nows n x"
  shows "stress_ok start interval total_frames T nows k (Some (Write (stress_frame (of_nat k)) # lines @ out, status))"
proof -
  obtain n where r: "writes out = map (\<lambda>i. stress_frame (of_nat i)) [k + 1..<n]" "k + 1 \<le> n" "n \<le> unat total_frames"
    "n = 0 \<or> (n - 1) * unat interval \<le> T" "\<forall>x\<in>set out. line_ok start rest n x"
    "status = Some 0 \<and> n = unat total_frames \<and> (\<exists>t r out'. out = out' @ [Done total_frames t r])
        \<or> status = None \<and> late_readings start interval total_frames rest + (k + 1) + (k + 1) div 1000 \<le> unat total_frames + unat total_frames div 1000"
    using assms(1) unfolding stress_ok_def by blast
  have up: "[k..<n] = k # [k + 1..<n]" using r(2) by (simp add: upt_conv_Cons)
  have l: "\<forall>x\<in>set out. line_ok start nows n x" using r(5) line_ok_mono assms(2) by blast
  let ?out = "Write (stress_frame (of_nat k)) # lines @ out"
  have w: "writes ?out = map (\<lambda>i. stress_frame (of_nat i)) [k..<n]" using r(1) assms(4) by (simp add: up writes_append)
  have x: "\<forall>x\<in>set ?out. line_ok start nows n x" using l assms(5) [OF r(2)] by (auto simp: line_ok_def [of _ _ _ "Write _"])
  have e: "status = Some 0 \<and> n = unat total_frames \<and> (\<exists>t r out'. ?out = out' @ [Done total_frames t r])
        \<or> status = None \<and> late_readings start interval total_frames nows + k + k div 1000 \<le> unat total_frames + unat total_frames div 1000"
    using r(6)
  proof (elim disjE conjE exE)
    fix t r out' assume "status = Some 0" "n = unat total_frames" "out = out' @ [Done total_frames t r]"
    then have "?out = (Write (stress_frame (of_nat k)) # lines @ out') @ [Done total_frames t r]" by simp
    with \<open>status = Some 0\<close> \<open>n = unat total_frames\<close> show ?thesis by blast
  qed (use assms(3) in linarith)
  show ?thesis unfolding stress_ok_def using w x e r(2-4) by (intro exI [of _ ?out] exI [of _ status] exI [of _ n]) simp
qed

lemma waiting_ok:
  assumes "k \<le> unat total_frames" and "k = 0 \<or> (k - 1) * unat interval \<le> T"
  shows "stress_ok start interval total_frames T [] k (Some ([], None))"
  unfolding stress_ok_def using assms by (intro exI [of _ "[]"] exI [of _ None] exI [of _ k]) (simp add: div_le_mono add_mono)

text \<open>
  What the readings are: not before the start, at most \<open>T\<close> after it, later than it when at most one
  frame is planned, and not before the time the last frame was due.
\<close>

definition reading_ok :: "u64 \<Rightarrow> u64 \<Rightarrow> u64 \<Rightarrow> nat \<Rightarrow> nat \<Rightarrow> u64 \<Rightarrow> bool" where
  "reading_ok start interval total_frames T k now \<longleftrightarrow> start \<le> now \<and> unat now \<le> unat start + T
     \<and> (unat total_frames \<le> 1 \<longrightarrow> start < now) \<and> (k - 1) * unat interval \<le> unat now - unat start"

lemma reading_fps:
  assumes "reading_ok start interval total_frames T k now" and "0 < interval" and "T < 2 ^ 53"
    and "unat n = k" and "k < 2 ^ 53" and "2 \<le> k \<or> unat total_frames \<le> 1 \<and> k \<le> 1"
  obtains r where "stress_fps n (stress_elapsed start now) = Some r" and "fps_near k (unat now - unat start) r" and "start < now"
proof -
  have now: "unat start \<le> unat now" "unat now \<le> unat start + T" using assms(1) by (simp_all add: reading_ok_def word_le_nat_alt)
  have "1 \<le> unat interval" using assms(2) by (simp add: word_less_nat_alt)
  then have "(k - 1) * 1 \<le> (k - 1) * unat interval" by (rule mult_le_mono2)
  then have "k - 1 \<le> (k - 1) * unat interval" by (simp only: mult_1_right)
  then have dt: "k - 1 \<le> unat now - unat start" using assms(1) unfolding reading_ok_def by linarith
  have lt: "start < now"
  proof (cases "2 \<le> k")
    case True
    then show ?thesis using dt by (simp add: word_less_nat_alt)
  qed (use assms(1,6) in \<open>simp add: reading_ok_def\<close>)
  then have "0 < unat now - unat start" by (simp add: word_less_nat_alt)
  then have "unat n \<le> 2 * (unat now - unat start)" using dt assms(4,6) by linarith
  then show ?thesis using fps_reading [OF lt, of n] assms(3-5) now lt that by force
qed

text \<open>The run as a whole.\<close>

lemma stress_loop_ok:
  assumes iv: "0 < interval" and wrap: "unat start + unat total_frames * unat interval < 2 ^ 64"
    and T: "T < 2 ^ 53" and total: "unat total_frames < 2 ^ 53"
  shows "due start interval k st \<Longrightarrow> k \<le> unat total_frames \<Longrightarrow> sorted nows \<Longrightarrow>
     \<forall>now\<in>set nows. reading_ok start interval total_frames T k now \<Longrightarrow> k = 0 \<or> (k - 1) * unat interval \<le> T \<Longrightarrow>
     stress_ok start interval total_frames T nows k (stress_loop interval total_frames start nows st)"
proof (induction "length nows" arbitrary: nows k st rule: less_induct)
  case less
  let ?st = "st\<lparr>sent := sent st + 1, next_send := next_send st + interval\<rparr>"
  have lt: "sent st < total_frames \<longleftrightarrow> k < unat total_frames" and k: "sent st = of_nat k" "unat (sent st) = k"
    using less.prems(1) by (auto simp: due_def word_less_nat_alt)
  show ?case
  proof (cases nows)
    case Nil
    then show ?thesis using waiting_ok [OF less.prems(2,5)] by simp
  next
    case (Cons now rest)
    have now: "reading_ok start interval total_frames T k now" "\<forall>y\<in>set rest. now \<le> y" "sorted rest"
      "\<forall>y\<in>set rest. reading_ok start interval total_frames T k y"
      using less.prems(3,4) by (simp_all add: Cons)
    consider (all_sent) "k = unat total_frames" | (early) "k < unat total_frames" "now < next_send st"
      | (send) "k < unat total_frames" "\<not> now < next_send st" using less.prems(2) by linarith
    then show ?thesis
    proof cases
      case all_sent
      with k have s: "sent st = total_frames" by simp
      obtain r where r: "stress_fps (sent st) (stress_elapsed start now) = Some r" "fps_near k (unat now - unat start) r" "start < now"
        using reading_fps [OF now(1) iv T k(2)] total all_sent by (metis One_nat_def Suc_1 not_less_eq_eq le_SucI)
      have "stress_loop interval total_frames start nows st = Some ([Done total_frames (stress_elapsed start now) r], Some 0)"
        using r(1) lt all_sent s by (simp add: Cons stress_done_def Let_def)
      moreover have "line_ok start nows k (Done total_frames (stress_elapsed start now) r)"
        using r(2,3) all_sent by (auto simp: line_ok_def Cons)
      ultimately show ?thesis unfolding stress_ok_def using all_sent less.prems(5)
        by (intro exI [of _ "[Done total_frames (stress_elapsed start now) r]"] exI [of _ "Some 0"] exI [of _ k]) simp
    next
      case early
      have "unat now < unat start + k * unat interval" using early(2) less.prems(1) by (simp add: due_def word_less_nat_alt)
      also have "\<dots> \<le> unat start + unat total_frames * unat interval" using less.prems(2) by simp
      finally have "late_readings start interval total_frames nows = late_readings start interval total_frames rest" by (simp add: Cons)
      moreover have "stress_ok start interval total_frames T rest k (stress_loop interval total_frames start rest st)"
        using less.prems now by (intro less.hyps) (simp_all add: Cons)
      moreover have "stress_loop interval total_frames start nows st = stress_loop interval total_frames start rest st"
        using early lt by (simp add: Cons)
      moreover have "line_ok start rest n x \<Longrightarrow> line_ok start nows n x" for n x using line_ok_mono by (metis Cons set_subset_Cons)
      ultimately show ?thesis unfolding stress_ok_def by metis
    next
      case send
      have "unat start + k * unat interval \<le> unat now" using send(2) less.prems(1) by (simp add: due_def word_less_nat_alt)
      then have kT: "k * unat interval \<le> unat now - unat start" "k * unat interval \<le> T" using now(1) by (auto simp: reading_ok_def)
      have later: "reading_ok start interval total_frames T (k + 1) y" if "y \<in> set rest" for y
      proof -
        have "reading_ok start interval total_frames T k y" "unat now \<le> unat y" using that now(2,4) by (simp_all add: word_le_nat_alt)
        with kT(1) show ?thesis by (auto simp: reading_ok_def)
      qed
      have next_ok: "stress_ok start interval total_frames T xs (k + 1) (stress_loop interval total_frames start xs ?st)"
        if "set xs \<subseteq> set rest" "sorted xs" "length xs \<le> length rest" for xs
      proof (rule less.hyps)
        show "due start interval (k + 1) ?st" by (rule due_step [OF less.prems(1) send(1) wrap])
        show "\<forall>y\<in>set xs. reading_ok start interval total_frames T (k + 1) y" using that(1) later by blast
      qed (use that send(1) kT(2) in \<open>simp_all add: Cons\<close>)
      have st: "unat (sent ?st) = k + 1" using due_step [OF less.prems(1) send(1) wrap] by (simp add: due_def)
      have m: "sent ?st mod 1000 = 0 \<longleftrightarrow> (k + 1) mod 1000 = 0" unfolding word_unat_eq_iff unat_mod st by simp
      have sub: "set rest \<subseteq> set nows" by (auto simp: Cons)
      show ?thesis
      proof (cases "(k + 1) mod 1000 = 0")
        case False
        obtain out status where o: "stress_loop interval total_frames start rest ?st = Some (out, status)"
          using next_ok [of rest] now(3) unfolding stress_ok_def by auto
        have eq: "stress_loop interval total_frames start nows st = Some (Write (stress_frame (of_nat k)) # [] @ out, status)"
          using send lt False m o by (simp add: Cons Let_def k(1))
        have "k div 1000 \<le> (k + 1) div 1000" by (rule div_le_mono) simp
        then have "late_readings start interval total_frames nows + k div 1000 \<le> late_readings start interval total_frames rest + 1 + (k + 1) div 1000"
          by (simp add: Cons le_SucI)
        from frame_step [OF _ sub this, of T out status "[]"] next_ok [of rest] now(3) show ?thesis unfolding eq o by simp
      next
        case True
        then have d: "(k + 1) div 1000 = k div 1000 + 1" by (simp add: div_Suc)
        have big: "2 \<le> k + 1" using True by (cases k) simp_all
        show ?thesis
        proof (cases rest)
          case Nil
          have eq: "stress_loop interval total_frames start nows st = Some (Write (stress_frame (of_nat k)) # [] @ [], None)"
            using send lt True m by (simp add: Cons Nil Let_def k(1))
          have "stress_ok start interval total_frames T [] (k + 1) (Some ([], None))"
            using send(1) kT(2) by (intro waiting_ok) simp_all
          then show ?thesis unfolding eq by (rule frame_step) (use d in \<open>simp_all add: Cons Nil\<close>)
        next
          case later_reading: (Cons y xs)
          have xs: "set xs \<subseteq> set rest" "sorted xs" "length xs \<le> length rest" using now(3) by (auto simp: later_reading)
          have y: "reading_ok start interval total_frames T (k + 1) y" using later [of y] by (simp add: later_reading)
          obtain r where r: "stress_fps (sent ?st) (stress_elapsed start y) = Some r" "fps_near (k + 1) (unat y - unat start) r" "start < y"
            using reading_fps [OF y iv T st] total send(1) big by auto
          obtain out status where o: "stress_loop interval total_frames start xs ?st = Some (out, status)"
            using next_ok [OF xs] unfolding stress_ok_def by auto
          have eq: "stress_loop interval total_frames start nows st
              = Some (Write (stress_frame (of_nat k)) # [Sent (sent ?st) r] @ out, status)"
            using send lt True m o r(1) by (simp add: Cons later_reading Let_def k(1))
          have l: "line_ok start nows n x" if "k + 1 \<le> n" "x \<in> set [Sent (sent ?st) r]" for n x
            using that st True r(2,3) by (auto simp: line_ok_def Cons later_reading dvd_eq_mod_eq_0)
          have "set xs \<subseteq> set nows" using xs(1) sub by blast
          moreover have "late_readings start interval total_frames nows + k div 1000 \<le> late_readings start interval total_frames xs + 1 + (k + 1) div 1000"
            using d by (simp add: Cons later_reading)
          ultimately show ?thesis unfolding eq using next_ok [OF xs] l by (intro frame_step) (simp_all add: o)
        qed
      qed
    qed
  qed
qed

section \<open>Properties\<close>

text \<open>
  C37: The stress test as a whole. Without a socket it exits with status 1 and writes nothing. With
  one, for a positive interval, a plan that stays below \<open>2 ^ 64\<close> nanoseconds and the readings
  of a clock that never goes back (of at most \<open>T\<close> nanoseconds after the start, about a hundred days,
  and later than the start when at most one frame is planned), no conversion is undefined: it
  prints the plan and then writes the frames 0, 1, 2, ... of the cycle in order, never more
  than planned and until the time \<open>T\<close> at most one more than the intervals that have passed; every
  rate it prints after a thousand frames or at the end is the frames sent per second elapsed at
  some reading, up to truncation and a relative error of \<open>2 ^ -50\<close>. It exits with status 0 only
  when all frames are sent, with the summary as its last line, and it does exit once the clock
  has been read late often enough: once for each frame and each line and once more.
\<close>

theorem stress_rate:
  assumes "stress_args args = Some (rate_hz, duration)"
    and "stress_plan rate_hz duration = Some (interval, total_frames)" and "0 < interval"
    and "unat start + unat total_frames * unat interval < 2 ^ 64" and "unat total_frames < 2 ^ 53"
    and "sorted (start # nows)" and "\<forall>now\<in>set nows. unat now \<le> unat start + T" and "T < 2 ^ 53"
    and "unat total_frames \<le> 1 \<longrightarrow> (\<forall>now\<in>set nows. start < now)"
  shows "(sock < 0 \<longrightarrow> stress_main sock args (start # nows) = Some ([], Some 1))
     \<and> (0 \<le> sock \<longrightarrow> (\<exists>out status n. stress_main sock args (start # nows) = Some (Plan rate_hz duration total_frames # out, status)
          \<and> writes out = map (\<lambda>i. stress_frame (of_nat i)) [0..<n] \<and> n \<le> unat total_frames \<and> n \<le> T div unat interval + 1
          \<and> (\<forall>x\<in>set out. line_ok start nows n x)
          \<and> (status = Some 0 \<and> n = unat total_frames \<and> (\<exists>t r out'. out = out' @ [Done total_frames t r])
             \<or> status = None \<and> late_readings start interval total_frames nows \<le> unat total_frames + unat total_frames div 1000)))"
proof (intro conjI impI)
  assume "sock < 0"
  then show "stress_main sock args (start # nows) = Some ([], Some 1)" using assms(1) by (simp add: stress_main_def)
next
  assume sock: "0 \<le> sock"
  have iv: "0 < unat interval" using assms(3) by (simp add: word_less_nat_alt)
  have "due start interval 0 \<lparr>sent = 0, next_send = start\<rparr>" by (simp add: due_def)
  moreover have "\<forall>now\<in>set nows. reading_ok start interval total_frames T 0 now" using assms(6,7,9) by (simp add: reading_ok_def)
  ultimately have "stress_ok start interval total_frames T nows 0 (stress_loop interval total_frames start nows \<lparr>sent = 0, next_send = start\<rparr>)"
    using assms(6) by (intro stress_loop_ok assms(3,4,5,8)) simp_all
  then obtain out status n where r: "stress_loop interval total_frames start nows \<lparr>sent = 0, next_send = start\<rparr> = Some (out, status)"
    "writes out = map (\<lambda>i. stress_frame (of_nat i)) [0..<n]" "n \<le> unat total_frames" "n = 0 \<or> (n - 1) * unat interval \<le> T"
    "\<forall>x\<in>set out. line_ok start nows n x"
    "status = Some 0 \<and> n = unat total_frames \<and> (\<exists>t r out'. out = out' @ [Done total_frames t r])
        \<or> status = None \<and> late_readings start interval total_frames nows + 0 + 0 div 1000 \<le> unat total_frames + unat total_frames div 1000"
    unfolding stress_ok_def by blast
  have "n - 1 \<le> T div unat interval" using r(4) iv by (auto simp: less_eq_div_iff_mult_less_eq)
  then have "n \<le> T div unat interval + 1" by simp
  moreover have "stress_main sock args (start # nows) = Some (Plan rate_hz duration total_frames # out, status)"
    using sock r(1) assms(1,2) by (simp add: stress_main_def)
  ultimately show "\<exists>out status n. stress_main sock args (start # nows) = Some (Plan rate_hz duration total_frames # out, status)
          \<and> writes out = map (\<lambda>i. stress_frame (of_nat i)) [0..<n] \<and> n \<le> unat total_frames \<and> n \<le> T div unat interval + 1
          \<and> (\<forall>x\<in>set out. line_ok start nows n x)
          \<and> (status = Some 0 \<and> n = unat total_frames \<and> (\<exists>t r out'. out = out' @ [Done total_frames t r])
             \<or> status = None \<and> late_readings start interval total_frames nows \<le> unat total_frames + unat total_frames div 1000)"
    using r(2,3,5,6) by (intro exI [of _ out] exI [of _ status] exI [of _ n]) simp
qed

text \<open>Two frames in one second: the readings of a whole run, late ones, to its end.\<close>

lemma stress_example: "stress_args [''2'', ''1''] = Some (2, 1)" "stress_plan 2 1 = Some (500000000, 2)"
  by (simp_all add: stress_args_def atoi_def stress_plan_def text_eval)

theorem stress_rate_witness:
  "stress_main (-1) [''2'', ''1''] [5, 1000000005, 1000000006, 1000000007] = Some ([], Some 1)
   \<and> (\<exists>out. stress_main 3 [''2'', ''1''] [5, 1000000005, 1000000006, 1000000007] = Some (Plan 2 1 2 # out, Some 0)
        \<and> writes out = [stress_frame 0, stress_frame 1])"
proof -
  have s: "sorted [5, 1000000005, 1000000006, 1000000007 :: u64]" by simp
  have t: "\<forall>now\<in>set [1000000005, 1000000006, 1000000007 :: u64]. unat now \<le> unat (5 :: u64) + 1000000002" by simp
  have "stress_main (-1) [''2'', ''1''] [5, 1000000005, 1000000006, 1000000007] = Some ([], Some 1)"
    using stress_rate [OF stress_example _ _ _ s t, of "-1"] by simp
  moreover have "\<exists>out. stress_main 3 [''2'', ''1''] [5, 1000000005, 1000000006, 1000000007] = Some (Plan 2 1 2 # out, Some 0)
        \<and> writes out = [stress_frame 0, stress_frame 1]"
    using stress_rate [OF stress_example _ _ _ s t, of 3] by (auto simp: upt_rec)
  ultimately show ?thesis by blast
qed

text \<open>
  Where the printed rate is undefined: with a duration of zero and two equal readings the elapsed
  time is zero, and the quotient of two zeros is converted to an int.
\<close>

lemma stress_zero_undefined: "0 \<le> sock \<Longrightarrow> stress_main sock [''2'', ''0''] [5, 5] = None"
  by (simp add: stress_main_def stress_args_def atoi_def stress_plan_def text_eval stress_done_def stress_fps_def stress_elapsed_def
      cast_int_def fp_trunc_def dbl_def fp_eval)

text \<open>
  Every frame of the stress test reaches the decoder: it has eight bytes and an identifier
  that the delivered database knows, so the gateway publishes its signals.
\<close>

theorem stress_frames_known:
  "frame_ok (stress_frame k) \<and> vehicle_messages (can_id (stress_frame k) AND CAN_EFF_MASK) \<noteq> None
     \<and> (\<exists>gw' out. on_frame 64 inet stack_bytes clk (stress_frame k) delivered = Some (gw', out) \<and> frame_count gw' = 1)"
proof -
  have id: "can_id (stress_frame k) AND CAN_EFF_MASK \<in> {291, 292, 293}"
    using stress_frame_id [of k] by (auto simp: CAN_EFF_MASK_def)
  then have kn: "vehicle_messages (can_id (stress_frame k) AND CAN_EFF_MASK) \<noteq> None" by (auto simp: vehicle_messages_def)
  have d: "counters_ok delivered" "offered (gw_sd delivered) \<noteq> []" "dbc_defined (gw_dbc delivered)" "frame_count delivered = 0"
    "gw_dbc delivered = vehicle_messages"
    using vehicle_defined by (simp_all add: delivered_def initial_gateway_def counters_ok_def own_services_def)
  have "known delivered (stress_frame k)" using kn d(5) by (auto simp: known_def masked_id_def)
  with frame_step_counters [OF d(1-3), of "(stack_bytes, clk, stress_frame k)" 64 inet] d(4) stress_frame_ok [of k]
  have "\<exists>gw' out. on_frame 64 inet stack_bytes clk (stress_frame k) delivered = Some (gw', out) \<and> frame_count gw' = 1"
    by (auto simp: frame_in_ok_def frame_step_def)
  with kn stress_frame_ok [of k] show ?thesis by simp
qed

text \<open>
  Packing is the inverse of extraction: a 16-bit value packed at a byte offset within the
  eight data bytes is what the decoder extracts from the 16 bits at that position, and the other
  bytes stay.
\<close>

theorem pack_extract:
  assumes "length dat = 8" and "k \<le> 6"
  shows "\<exists>dat'. pack_u16 dat k v = Some dat' \<and> length dat' = 8 \<and> extract_bits dat' (of_nat (8 * k)) 16 = Some (ucast v)
     \<and> (\<forall>i<8. i \<noteq> k \<and> i \<noteq> k + 1 \<longrightarrow> dat' ! i = dat ! i)"
proof -
  let ?d = "dat[k := ucast v, k + 1 := ucast (drop_bit 8 v)]"
  have low: "ucast (w AND 0xFF) = (ucast w :: byte)" for w :: u16
    by (rule bit_word_eqI) (simp add: and_0xFF bit_simps)
  have p: "pack_u16 dat k v = Some ?d"
    using assms by (simp add: pack_u16_def put_def low list_update_append upd_conv_take_nth_drop)
  have "unat (of_nat (8 * k) :: byte) = 8 * k" using assms(2) by (simp add: unat_of_nat take_bit_eq_mod del: of_nat_mult)
  moreover have "take_bit 16 (drop_bit (8 * k) (frame_word ?d)) = ucast v"
  proof (rule bit_word_eqI)
    fix n assume "n < LENGTH(64)"
    consider "n < 8" | j where "n = 8 + j" "j < 8" | "16 \<le> n" by (metis add_less_cancel_left le_Suc_ex not_less numeral_Bit0)
    then show "bit (take_bit 16 (drop_bit (8 * k) (frame_word ?d))) n \<longleftrightarrow> bit (ucast v :: u64) n"
    proof cases
      case 1
      then have "(8 * k + n) div 8 = k" "(8 * k + n) mod 8 = n" by simp_all
      with 1 assms show ?thesis by (auto simp: bit_simps bit_frame_word)
    next
      case (2 j)
      then have "(8 * k + n) div 8 = k + 1" "(8 * k + n) mod 8 = j" by simp_all
      with 2 assms show ?thesis by (auto simp: bit_simps bit_frame_word)
    next
      case 3
      then show ?thesis by (auto simp: bit_simps bit_high)
    qed
  qed
  ultimately have "extract_bits ?d (of_nat (8 * k)) 16 = Some (ucast v)"
    using assms(1) by (simp add: extract_bits_field field_def del: of_nat_mult)
  with p assms show ?thesis by (auto simp: nth_list_update simp del: of_nat_mult)
qed

theorem pack_extract_witness:
  "\<exists>dat'. pack_u16 (replicate 8 0) 2 0x1234 = Some dat' \<and> extract_bits dat' (of_nat (8 * 2)) 16 = Some (ucast (0x1234 :: u16))"
  using pack_extract [of "replicate 8 0" 2 "0x1234"] by auto

end
