(* ===== verification/Can_Simulator.thy ===== *)
theory Can_Simulator
  imports Can_Tools
begin

text \<open>
  The loop of the CAN simulator (\<^verbatim>\<open>tools/can_simulator.cpp\<close>). The C library's \<open>sin\<close> is an
  argument; \<open>t\<close> is the loop variable. A conversion of a double to an integer that cannot
  hold its truncated value is undefined.
\<close>

section \<open>The frames of one round\<close>

definition wave :: "(fp \<Rightarrow> fp) \<Rightarrow> int \<Rightarrow> int \<Rightarrow> fp \<Rightarrow> fp \<Rightarrow> fp" where
  "wave sin_d base amplitude freq t =
     fp_add binary64 (dbl base) (fp_mul binary64 (dbl amplitude) (sin_d (fp_mul binary64 t freq)))"

definition sim_rpm :: "(fp \<Rightarrow> fp) \<Rightarrow> fp \<Rightarrow> fp" where "sim_rpm sin_d t = wave sin_d 2400 1600 (decimal False 5 1) t"
definition sim_temp :: "(fp \<Rightarrow> fp) \<Rightarrow> fp \<Rightarrow> fp" where "sim_temp sin_d t = wave sin_d 85 5 (decimal False 1 1) t"
definition sim_throttle :: "(fp \<Rightarrow> fp) \<Rightarrow> fp \<Rightarrow> fp" where "sim_throttle sin_d t = wave sin_d 20 15 (decimal False 3 1) t"
definition sim_speed :: "(fp \<Rightarrow> fp) \<Rightarrow> fp \<Rightarrow> fp" where "sim_speed sin_d t = wave sin_d 60 20 (decimal False 2 1) t"

definition sim_braking :: "(fp \<Rightarrow> fp) \<Rightarrow> fp \<Rightarrow> bool" where
  "sim_braking sin_d t = fp_lt (sin_d (fp_mul binary64 t (decimal False 15 2))) (decimal True 5 1)"

lemmas sim_values = sim_rpm_def sim_temp_def sim_throttle_def sim_speed_def

definition engine_sim :: "(fp \<Rightarrow> fp) \<Rightarrow> fp \<Rightarrow> can_frame option" where
  "engine_sim sin_d t = do {
     r \<leftarrow> cast_uint 16 (fp_div binary64 (sim_rpm sin_d t) (decimal False 25 2));
     dat \<leftarrow> pack_u16 (replicate 8 0) 0 (of_int r);
     k \<leftarrow> cast_uint 8 (fp_div binary64 (fp_add binary64 (sim_temp sin_d t) (dbl 40)) (decimal False 75 2));
     dat \<leftarrow> put 2 [of_int k] dat;
     h \<leftarrow> cast_uint 8 (fp_div binary64 (sim_throttle sin_d t) (decimal False 392157 6));
     dat \<leftarrow> put 3 [of_int h] dat;
     Some \<lparr>can_id = 291, can_dlc = 8, data = dat\<rparr> }"

definition speed_sim :: "(fp \<Rightarrow> fp) \<Rightarrow> fp \<Rightarrow> can_frame option" where
  "speed_sim sin_d t = do {
     let speed = sim_speed sin_d t;
     a \<leftarrow> cast_uint 16 (fp_div binary64 speed (decimal False 1 2));
     dat \<leftarrow> pack_u16 (replicate 8 0) 0 (of_int a);
     b \<leftarrow> cast_uint 16 (fp_div binary64 (fp_add binary64 speed (dbl 1)) (decimal False 1 2));
     dat \<leftarrow> pack_u16 dat 2 (of_int b);
     c \<leftarrow> cast_uint 16 (fp_div binary64 (fp_add binary64 speed (dbl (-1))) (decimal False 1 2));
     dat \<leftarrow> pack_u16 dat 4 (of_int c);
     Some \<lparr>can_id = 292, can_dlc = 8, data = dat\<rparr> }"

definition brake_sim :: "(fp \<Rightarrow> fp) \<Rightarrow> fp \<Rightarrow> can_frame option" where
  "brake_sim sin_d t = do {
     let braking = sim_braking sin_d t;
     let brake_pressure = (if braking then dbl 40 else dbl 0);
     p \<leftarrow> cast_uint 8 brake_pressure;
     dat \<leftarrow> put 0 [of_int p] (replicate 8 0);
     dat \<leftarrow> put 1 [if braking then 1 else 0] dat;
     Some \<lparr>can_id = 293, can_dlc = 8, data = dat\<rparr> }"

text \<open>The line printed in each round: the engine speed and the speed as ints, and the brake.\<close>

type_synonym sim_line = "int \<times> int \<times> bool"

text \<open>One iteration of the loop: the three frames written, the line printed, and the next \<open>t\<close>.\<close>

definition sim_round :: "(fp \<Rightarrow> fp) \<Rightarrow> fp \<Rightarrow> (fp \<times> can_frame list \<times> sim_line) option" where
  "sim_round sin_d t = do {
     e \<leftarrow> engine_sim sin_d t;
     s \<leftarrow> speed_sim sin_d t;
     b \<leftarrow> brake_sim sin_d t;
     rpm \<leftarrow> cast_int (sim_rpm sin_d t);
     speed \<leftarrow> cast_int (sim_speed sin_d t);
     Some (fp_add binary64 t (decimal False 1 1), [e, s, b], (rpm, speed, sim_braking sin_d t)) }"

text \<open>The loop, for a number of rounds: the last \<open>t\<close>, all frames and all lines in order.\<close>

fun sim_loop :: "(fp \<Rightarrow> fp) \<Rightarrow> nat \<Rightarrow> fp \<Rightarrow> (fp \<times> can_frame list \<times> sim_line list) option" where
  "sim_loop sin_d 0 t = Some (t, [], [])"
| "sim_loop sin_d (Suc n) t = do {
     (t, frames, line) \<leftarrow> sim_round sin_d t;
     (t, more, lines) \<leftarrow> sim_loop sin_d n t;
     Some (t, frames @ more, line # lines) }"

text \<open>
  The whole program up to a number of rounds: the exit status when there is no socket. The results
  of \<open>ioctl\<close>, \<open>bind\<close> and \<open>write\<close> are ignored by the code.
\<close>

definition sim_main :: "(fp \<Rightarrow> fp) \<Rightarrow> int \<Rightarrow> nat \<Rightarrow> int + (fp \<times> can_frame list \<times> sim_line list) option" where
  "sim_main sin_d sock n = (if sock < 0 then Inl 1 else Inr (sim_loop sin_d n (dbl 0)))"

section \<open>The values of the simulator\<close>

text \<open>What is assumed of the C library: \<open>sin\<close> of a finite number is finite and within one.\<close>

definition sine_like :: "(fp \<Rightarrow> fp) \<Rightarrow> bool" where
  "sine_like sin_d \<longleftrightarrow> (\<forall>x. fp_finite x \<longrightarrow> in_bounds (-1) (sin_d x) 1)"

lemma wave_bounds:
  assumes "in_bounds (-1) (sin_d (fp_mul binary64 t freq)) 1" and "0 \<le> a" and "a < 2 ^ 40" and "\<bar>b\<bar> < 2 ^ 40"
  shows "in_bounds (b - a) (wave sin_d b a freq t) (b + a)"
proof -
  let ?u = "sin_d (fp_mul binary64 t freq)"
  have u: "fp_finite ?u" "- 1 \<le> fval ?u" "fval ?u \<le> 1" using assms(1) by (simp_all add: in_bounds_def)
  have d: "fp_finite (dbl a)" "fval (dbl a) = of_int a" "fp_finite (dbl b)" "fval (dbl b) = of_int b"
    using dbl_exact [of a] dbl_exact [of b] assms(2-4) by simp_all
  have ra: "0 \<le> real_of_int a" using assms(2) by simp
  have "of_int (- a) \<le> fval (dbl a) * fval ?u" "fval (dbl a) * fval ?u \<le> of_int a"
    using mult_left_mono [OF u(2) ra] mult_left_mono [OF u(3) ra] by (simp_all add: d)
  then have m: "in_bounds (- a) (fp_mul binary64 (dbl a) ?u) a"
    using assms(2,3) by (intro mul_in_bounds d(1) u(1)) simp_all
  then show ?thesis unfolding wave_def using assms(2-4) d
    by (intro add_in_bounds) (auto simp: in_bounds_def)
qed

text \<open>The literals of the source.\<close>

lemma literals:
  "fp_finite (decimal False 25 2)" "fval (decimal False 25 2) = 1/4"
  "fp_finite (decimal False 75 2)" "fval (decimal False 75 2) = 3/4"
  "fp_finite (decimal False 392157 6)" "0 < fval (decimal False 392157 6)"
  "fp_finite (decimal False 1 2)" "0 < fval (decimal False 1 2)"
  by (simp_all add: decimal_def fp_eval fp_finite_def fval_def power_int_def power_divide)

lemma freqs:
  "f \<in> {decimal False 5 1, decimal False 1 1, decimal False 3 1, decimal False 2 1, decimal False 15 2} \<Longrightarrow> fp_finite f \<and> 0 < fval f \<and> fval f < 1"
  by (auto simp: decimal_def fp_eval fp_finite_def fval_def power_int_def power_divide)

text \<open>The argument of \<open>sin\<close> is finite, so its value is within one.\<close>

lemma sine_bounds:
  assumes "sine_like sin_d" and "in_bounds 0 t (2 ^ 40)"
    and "f \<in> {decimal False 5 1, decimal False 1 1, decimal False 3 1, decimal False 2 1, decimal False 15 2}"
  shows "in_bounds (-1) (sin_d (fp_mul binary64 t f)) 1"
proof -
  have f: "fp_finite f" "0 < fval f" "fval f < 1" using freqs [OF assms(3)] by simp_all
  have t: "fp_finite t" "0 \<le> fval t" "fval t \<le> 2 ^ 40" using assms(2) by (simp_all add: in_bounds_def)
  have "fval t * fval f \<le> 2 ^ 40 * 1" using t f by (intro mult_mono) simp_all
  then have "in_bounds 0 (fp_mul binary64 t f) (2 ^ 40)" using t f by (intro mul_in_bounds) simp_all
  with assms(1) show ?thesis by (simp add: sine_like_def in_bounds_def)
qed

lemma wave_range:
  assumes "sine_like sin_d" and "in_bounds 0 t (2 ^ 40)"
    and "f \<in> {decimal False 5 1, decimal False 1 1, decimal False 3 1, decimal False 2 1, decimal False 15 2}"
    and "0 \<le> a" and "a < 2 ^ 40" and "\<bar>b\<bar> < 2 ^ 40"
  shows "in_bounds (b - a) (wave sin_d b a f t) (b + a)"
  using wave_bounds [of sin_d t f a b] sine_bounds [OF assms(1-3)] assms(4-6) by simp

text \<open>The bounds of the comments, scaled and converted.\<close>

lemma literal_values:
  "decimal False 25 2 = Fin False 4503599627370496 (-54)"
  "decimal False 75 2 = Fin False 6755399441055744 (-53)"
  "decimal False 392157 6 = Fin False 7064472476282926 (-54)"
  "decimal False 1 2 = Fin False 5764607523034235 (-59)"
  by (simp_all add: decimal_def fp_eval)

lemma limit_values:
  "dbl 800 = Fin False 7036874417766400 (-43)"
  "dbl 4000 = Fin False 8796093022208000 (-41)"
  "dbl 120 = Fin False 8444249301319680 (-46)"
  "dbl 130 = Fin False 4573968371548160 (-45)"
  "dbl 5 = Fin False 5629499534213120 (-50)"
  "dbl 35 = Fin False 4925812092436480 (-47)"
  "dbl 40 = Fin False 5629499534213120 (-47)"
  "dbl 80 = Fin False 5629499534213120 (-46)"
  "dbl 41 = Fin False 5770237022568448 (-47)"
  "dbl 81 = Fin False 5699868278390784 (-46)"
  "dbl 39 = Fin False 5488762045857792 (-47)"
  "dbl 79 = Fin False 5559130790035456 (-46)"
  by (simp_all add: dbl_def fp_eval)

lemma quotient_values_1:
  "fp_div binary64 (dbl 800) (decimal False 25 2) = Fin False 7036874417766400 (-41)"
  "fp_div binary64 (dbl 4000) (decimal False 25 2) = Fin False 8796093022208000 (-39)"
  "fp_div binary64 (dbl 120) (decimal False 75 2) = Fin False 5629499534213120 (-45)"
  "fp_div binary64 (dbl 130) (decimal False 75 2) = Fin False 6098624495397547 (-45)"
  unfolding literal_values limit_values by (simp_all add: fp_eval)

lemma quotient_values_2:
  "fp_div binary64 (dbl 5) (decimal False 392157 6) = Fin False 7177609393958441 (-49)"
  "fp_div binary64 (dbl 35) (decimal False 392157 6) = Fin False 6280408219713635 (-46)"
  "fp_div binary64 (dbl 40) (decimal False 1 2) = Fin False 8796093022208000 (-41)"
  "fp_div binary64 (dbl 80) (decimal False 1 2) = Fin False 8796093022208000 (-40)"
  unfolding literal_values limit_values by (simp_all add: fp_eval)

lemma quotient_values_3:
  "fp_div binary64 (dbl 41) (decimal False 1 2) = Fin False 4507997673881600 (-40)"
  "fp_div binary64 (dbl 81) (decimal False 1 2) = Fin False 8906044184985600 (-40)"
  "fp_div binary64 (dbl 39) (decimal False 1 2) = Fin False 8576190696652800 (-41)"
  "fp_div binary64 (dbl 79) (decimal False 1 2) = Fin False 8686141859430400 (-40)"
  unfolding literal_values limit_values by (simp_all add: fp_eval)

lemma scaled_limits:
  "cast_uint 16 (fp_div binary64 (dbl 800) (decimal False 25 2)) = Some 3200"
  "cast_uint 16 (fp_div binary64 (dbl 4000) (decimal False 25 2)) = Some 16000"
  "cast_uint 8 (fp_div binary64 (dbl 120) (decimal False 75 2)) = Some 160"
  "cast_uint 8 (fp_div binary64 (dbl 130) (decimal False 75 2)) = Some 173"
  "cast_uint 8 (fp_div binary64 (dbl 5) (decimal False 392157 6)) = Some 12"
  "cast_uint 8 (fp_div binary64 (dbl 35) (decimal False 392157 6)) = Some 89"
  "cast_uint 16 (fp_div binary64 (dbl 40) (decimal False 1 2)) = Some 4000"
  "cast_uint 16 (fp_div binary64 (dbl 80) (decimal False 1 2)) = Some 8000"
  "cast_uint 16 (fp_div binary64 (dbl 41) (decimal False 1 2)) = Some 4100"
  "cast_uint 16 (fp_div binary64 (dbl 81) (decimal False 1 2)) = Some 8100"
  "cast_uint 16 (fp_div binary64 (dbl 39) (decimal False 1 2)) = Some 3900"
  "cast_uint 16 (fp_div binary64 (dbl 79) (decimal False 1 2)) = Some 7900"
  unfolding quotient_values_1 quotient_values_2 quotient_values_3 by (simp_all add: cast_uint_def fp_trunc_def)

lemma shift_bounds:
  assumes "in_bounds a x b" and "\<bar>a\<bar> < 2 ^ 40" and "\<bar>b\<bar> < 2 ^ 40" and "\<bar>k\<bar> < 2 ^ 40"
  shows "in_bounds (a + k) (fp_add binary64 x (dbl k)) (b + k)"
  using assms dbl_exact [of k] by (intro add_in_bounds) (auto simp: in_bounds_def)

section \<open>The frames\<close>

definition le16 :: "byte list \<Rightarrow> nat \<Rightarrow> nat" where
  "le16 dat i = unat (dat ! i) + 256 * unat (dat ! (i + 1))"

lemma bytes_u16: "unat (ucast v :: byte) + 256 * unat (ucast (drop_bit 8 v) :: byte) = unat (v :: u16)"
proof -
  have "unat v < 65536" using unsigned_less [where 'b = 16 and 'a = nat, of v] by simp
  then have "unat v div 256 < 256" by simp
  then show ?thesis by (simp add: unsigned_ucast_eq take_bit_eq_mod drop_bit_eq_div unat_div)
qed

lemma pack_bytes:
  "pack_u16 [a, b, c, d, e, f, g, h] 0 v = Some [ucast v, ucast (drop_bit 8 v), c, d, e, f, g, h]"
  "pack_u16 [a, b, c, d, e, f, g, h] 2 v = Some [a, b, ucast v, ucast (drop_bit 8 v), e, f, g, h]"
  "pack_u16 [a, b, c, d, e, f, g, h] 4 v = Some [a, b, c, d, ucast v, ucast (drop_bit 8 v), g, h]"
proof -
  have low: "ucast (w AND 0xFF) = (ucast w :: byte)" for w :: u16
    by (rule bit_word_eqI) (simp add: and_0xFF bit_simps)
  show "pack_u16 [a, b, c, d, e, f, g, h] 0 v = Some [ucast v, ucast (drop_bit 8 v), c, d, e, f, g, h]"
    "pack_u16 [a, b, c, d, e, f, g, h] 2 v = Some [a, b, ucast v, ucast (drop_bit 8 v), e, f, g, h]"
    "pack_u16 [a, b, c, d, e, f, g, h] 4 v = Some [a, b, c, d, ucast v, ucast (drop_bit 8 v), g, h]"
    by (simp_all add: pack_u16_def put_def low)
qed

lemma eight_zeros: "replicate 8 (0 :: byte) = [0, 0, 0, 0, 0, 0, 0, 0]"
  by (simp add: numeral_eq_Suc)

lemma unat_of_cast:
  "0 \<le> k \<Longrightarrow> k < 2 ^ 16 \<Longrightarrow> unat (of_int k :: u16) = nat k"
  "0 \<le> k \<Longrightarrow> k < 2 ^ 8 \<Longrightarrow> unat (of_int k :: byte) = nat k"
  by (simp_all add: unsigned_of_int take_bit_int_eq_self)

text \<open>
  The ranges of the comments: engine speed 800 to 4000 in quarters, temperature 80 to 90 as steps of
  0.75 above -40, throttle 5 to 35 per cent truncated to steps of 0.392157, so above the last step
  below 5, speed 40 to 80 km/h, and one more or less for
  the two wheels, in hundredths.
\<close>

definition engine_range :: "can_frame \<Rightarrow> bool" where
  "engine_range f \<longleftrightarrow> can_id f = 291 \<and> frame_ok f \<and> can_dlc f = 8 \<and> le16 (data f) 0 \<in> {4 * 800..4 * 4000}
     \<and> 3 * unat (data f ! 2) \<in> {4 * (80 + 40)..4 * (90 + 40)}
     \<and> 392157 * unat (data f ! 3) \<in> {5000000 - 392157<..35000000}"

definition speed_range :: "can_frame \<Rightarrow> bool" where
  "speed_range f \<longleftrightarrow> can_id f = 292 \<and> frame_ok f \<and> can_dlc f = 8 \<and> le16 (data f) 0 \<in> {100 * 40..100 * 80}
     \<and> le16 (data f) 2 \<in> {100 * 41..100 * 81} \<and> le16 (data f) 4 \<in> {100 * 39..100 * 79}"

definition brake_range :: "can_frame \<Rightarrow> bool" where
  "brake_range f \<longleftrightarrow> can_id f = 293 \<and> can_dlc f = 8 \<and> data f \<in> {[0, 0, 0, 0, 0, 0, 0, 0], [40, 1, 0, 0, 0, 0, 0, 0]}"

text \<open>The values of a round in the ranges of the comments.\<close>

definition values_range :: "(fp \<Rightarrow> fp) \<Rightarrow> fp \<Rightarrow> bool" where
  "values_range sin_d t \<longleftrightarrow> in_bounds 800 (sim_rpm sin_d t) 4000 \<and> in_bounds 80 (sim_temp sin_d t) 90
     \<and> in_bounds 5 (sim_throttle sin_d t) 35 \<and> in_bounds 40 (sim_speed sin_d t) 80"

lemma sim_values_range:
  assumes "sine_like sin_d" and "in_bounds 0 t (2 ^ 40)"
  shows "values_range sin_d t"
proof -
  note w = wave_range [OF assms]
  show ?thesis
    unfolding values_range_def sim_values using w [of "decimal False 5 1" 1600 2400] w [of "decimal False 1 1" 5 85]
      w [of "decimal False 3 1" 15 20] w [of "decimal False 2 1" 20 60] by simp
qed

lemma engine_sim_range:
  assumes "values_range sin_d t"
  shows "\<exists>f. engine_sim sin_d t = Some f \<and> engine_range f"
proof -
  have v: "in_bounds 800 (sim_rpm sin_d t) 4000" "in_bounds 80 (sim_temp sin_d t) 90" "in_bounds 5 (sim_throttle sin_d t) 35"
    using assms by (simp_all add: values_range_def)
  have temp: "in_bounds 120 (fp_add binary64 (sim_temp sin_d t) (dbl 40)) 130" using shift_bounds [OF v(2), of 40] by simp
  obtain r where r: "cast_uint 16 (fp_div binary64 (sim_rpm sin_d t) (decimal False 25 2)) = Some r" "3200 \<le> r" "r \<le> 16000"
    by (rule scaled_cast [OF v(1) _ _ _ _ scaled_limits(1,2)]) (simp_all add: literals)
  obtain k where k: "cast_uint 8 (fp_div binary64 (fp_add binary64 (sim_temp sin_d t) (dbl 40)) (decimal False 75 2)) = Some k" "160 \<le> k" "k \<le> 173"
    by (rule scaled_cast [OF temp _ _ _ _ scaled_limits(3,4)]) (simp_all add: literals)
  obtain h where h: "cast_uint 8 (fp_div binary64 (sim_throttle sin_d t) (decimal False 392157 6)) = Some h" "12 \<le> h" "h \<le> 89"
    by (rule scaled_cast [OF v(3) _ _ _ _ scaled_limits(5,6)]) (simp_all add: literals)
  have "engine_sim sin_d t = Some \<lparr>can_id = 291, can_dlc = 8,
      data = [ucast (of_int r :: u16), ucast (drop_bit 8 (of_int r :: u16)), of_int k, of_int h, 0, 0, 0, 0]\<rparr>"
    by (simp add: engine_sim_def Let_def r(1) k(1) h(1) eight_zeros pack_bytes put_def del: One_nat_def)
  moreover have "le16 [ucast (of_int r :: u16), ucast (drop_bit 8 (of_int r :: u16)), of_int k, of_int h, 0, 0, 0, 0] 0 = nat r"
    using r(2,3) by (simp add: le16_def bytes_u16 unat_of_cast)
  ultimately show ?thesis using r(2,3) k(2,3) h(2,3) by (auto simp: engine_range_def frame_ok_def unat_of_cast)
qed

lemma speed_sim_range:
  assumes "values_range sin_d t"
  shows "\<exists>f. speed_sim sin_d t = Some f \<and> speed_range f"
proof -
  let ?v = "sim_speed sin_d t" and ?c = "decimal False 1 2"
  have v: "in_bounds 40 ?v 80" using assms by (simp add: values_range_def)
  have l: "in_bounds 41 (fp_add binary64 ?v (dbl 1)) 81" and m: "in_bounds 39 (fp_add binary64 ?v (dbl (- 1))) 79"
    using shift_bounds [OF v, of 1] shift_bounds [OF v, of "- 1"] by simp_all
  obtain a where a: "cast_uint 16 (fp_div binary64 ?v ?c) = Some a" "4000 \<le> a" "a \<le> 8000"
    by (rule scaled_cast [OF v _ _ _ _ scaled_limits(7,8)]) (simp_all add: literals del: One_nat_def)
  obtain b where b: "cast_uint 16 (fp_div binary64 (fp_add binary64 ?v (dbl 1)) ?c) = Some b" "4100 \<le> b" "b \<le> 8100"
    by (rule scaled_cast [OF l _ _ _ _ scaled_limits(9,10)]) (simp_all add: literals del: One_nat_def)
  obtain d where d: "cast_uint 16 (fp_div binary64 (fp_add binary64 ?v (dbl (- 1))) ?c) = Some d" "3900 \<le> d" "d \<le> 7900"
    by (rule scaled_cast [OF m _ _ _ _ scaled_limits(11,12)]) (simp_all add: literals del: One_nat_def)
  let ?dat = "[ucast (of_int a :: u16), ucast (drop_bit 8 (of_int a :: u16)), ucast (of_int b :: u16), ucast (drop_bit 8 (of_int b :: u16)),
      ucast (of_int d :: u16), ucast (drop_bit 8 (of_int d :: u16)), 0, 0]"
  have "speed_sim sin_d t = Some \<lparr>can_id = 292, can_dlc = 8, data = ?dat\<rparr>"
    by (simp add: speed_sim_def Let_def a(1) b(1) d(1) eight_zeros pack_bytes del: One_nat_def)
  moreover have "le16 ?dat 0 = nat a" "le16 ?dat 2 = nat b" "le16 ?dat 4 = nat d"
    using a(2,3) b(2,3) d(2,3) by (simp_all add: le16_def bytes_u16 unat_of_cast)
  ultimately show ?thesis using a(2,3) b(2,3) d(2,3) by (auto simp: speed_range_def frame_ok_def)
qed

lemma brake_sim_range: "\<exists>f. brake_sim sin_d t = Some f \<and> brake_range f"
proof -
  have "cast_uint 8 (dbl 40) = Some 40" "cast_uint 8 (dbl 0) = Some 0"
    by (simp_all add: cast_uint_def dbl_def fp_trunc_def fp_eval)
  then show ?thesis by (auto simp: brake_sim_def Let_def eight_zeros put_def brake_range_def)
qed

lemma next_t:
  assumes "in_bounds 0 t (int n)" and "n < 2 ^ 40"
  shows "in_bounds 0 (fp_add binary64 t (decimal False 1 1)) (int (Suc n))"
  using assms freqs [of "decimal False 1 1"] by (intro add_in_bounds) (auto simp: in_bounds_def)

lemma in_bounds_mono: "in_bounds lo x hi \<Longrightarrow> hi \<le> hi' \<Longrightarrow> in_bounds lo x hi'"
  by (auto simp: in_bounds_def)

lemma line_range:
  assumes "in_bounds lo x hi" and "0 \<le> lo" and "hi < 2 ^ 31"
  shows "\<exists>k. cast_int x = Some k \<and> lo \<le> k \<and> k \<le> hi"
  using cast_in_bounds [OF assms] by (auto simp: cast_uint_def cast_int_def split: bind_splits if_splits)

text \<open>The loop variable of each round, and what that round writes and prints.\<close>

fun sim_t :: "fp \<Rightarrow> nat \<Rightarrow> fp" where
  "sim_t t 0 = t"
| "sim_t t (Suc i) = sim_t (fp_add binary64 t (decimal False 1 1)) i"

definition round_ok :: "(fp \<Rightarrow> fp) \<Rightarrow> fp \<Rightarrow> can_frame \<Rightarrow> can_frame \<Rightarrow> can_frame \<Rightarrow> sim_line \<Rightarrow> bool" where
  "round_ok sin_d t e s b line \<longleftrightarrow> values_range sin_d t
     \<and> engine_sim sin_d t = Some e \<and> engine_range e \<and> speed_sim sin_d t = Some s \<and> speed_range s
     \<and> brake_sim sin_d t = Some b \<and> brake_range b
     \<and> fst line \<in> {800..4000} \<and> fst (snd line) \<in> {40..80} \<and> (snd (snd line) \<longleftrightarrow> data b ! 1 = 1)"

lemma brake_line: "brake_sim sin_d t = Some b \<Longrightarrow> sim_braking sin_d t \<longleftrightarrow> data b ! 1 = 1"
proof -
  have "cast_uint 8 (dbl 40) = Some 40" "cast_uint 8 (dbl 0) = Some 0"
    by (simp_all add: cast_uint_def dbl_def fp_trunc_def fp_eval)
  then show "brake_sim sin_d t = Some b \<Longrightarrow> sim_braking sin_d t \<longleftrightarrow> data b ! 1 = 1"
    by (auto simp: brake_sim_def Let_def eight_zeros put_def split: if_splits)
qed

lemma sim_round_ok:
  assumes "sine_like sin_d" and "in_bounds 0 t (2 ^ 40)"
  shows "\<exists>e s b line. sim_round sin_d t = Some (fp_add binary64 t (decimal False 1 1), [e, s, b], line) \<and> round_ok sin_d t e s b line"
proof -
  have v: "values_range sin_d t" by (rule sim_values_range [OF assms])
  obtain e s b where f: "engine_sim sin_d t = Some e" "engine_range e" "speed_sim sin_d t = Some s" "speed_range s"
    "brake_sim sin_d t = Some b" "brake_range b"
    using engine_sim_range [OF v] speed_sim_range [OF v] brake_sim_range by blast
  obtain r k where "cast_int (sim_rpm sin_d t) = Some r" "r \<in> {800..4000}" "cast_int (sim_speed sin_d t) = Some k" "k \<in> {40..80}"
    using v line_range [of 800 "sim_rpm sin_d t" 4000] line_range [of 40 "sim_speed sin_d t" 80] by (auto simp: values_range_def)
  with f v brake_line [OF f(5)] show ?thesis by (auto simp: sim_round_def round_ok_def)
qed

lemma sim_loop_ok:
  assumes "sine_like sin_d"
  shows "in_bounds 0 t (int k) \<Longrightarrow> k + n \<le> 2 ^ 40 \<Longrightarrow>
     \<exists>t' frames lines. sim_loop sin_d n t = Some (t', frames, lines) \<and> length frames = 3 * n \<and> length lines = n
       \<and> (\<forall>i<n. round_ok sin_d (sim_t t i) (frames ! (3 * i)) (frames ! (3 * i + 1)) (frames ! (3 * i + 2)) (lines ! i))"
proof (induction n arbitrary: t k)
  case 0
  then show ?case by simp
next
  case (Suc n)
  let ?t = "fp_add binary64 t (decimal False 1 1)"
  have "in_bounds 0 t (2 ^ 40)" using in_bounds_mono [OF Suc.prems(1)] Suc.prems(2) by simp
  from sim_round_ok [OF assms this] obtain e s b line where
    1: "sim_round sin_d t = Some (?t, [e, s, b], line)" "round_ok sin_d t e s b line" by auto
  have "in_bounds 0 ?t (int (Suc k))" using next_t [OF Suc.prems(1)] Suc.prems(2) by simp
  from Suc.IH [OF this] Suc.prems(2) obtain t' frames lines where
    2: "sim_loop sin_d n ?t = Some (t', frames, lines)" "length frames = 3 * n" "length lines = n"
      "\<forall>i<n. round_ok sin_d (sim_t ?t i) (frames ! (3 * i)) (frames ! (3 * i + 1)) (frames ! (3 * i + 2)) (lines ! i)" by auto
  have "round_ok sin_d (sim_t t i) (([e, s, b] @ frames) ! (3 * i)) (([e, s, b] @ frames) ! (3 * i + 1))
      (([e, s, b] @ frames) ! (3 * i + 2)) ((line # lines) ! i)" if "i < Suc n" for i
    using that 1(2) 2(4) by (cases i) simp_all
  moreover have "sim_loop sin_d (Suc n) t = Some (t', [e, s, b] @ frames, line # lines)" by (simp add: 1(1) 2(1) del: One_nat_def)
  ultimately show ?case using 2(2,3) by (intro exI [of _ t'] exI [of _ "[e, s, b] @ frames"] exI [of _ "line # lines"]) simp
qed

lemma sim_frames_range:
  assumes "sine_like sin_d" and "n \<le> 2 ^ 40"
  shows "\<exists>t' frames lines. sim_loop sin_d n (dbl 0) = Some (t', frames, lines) \<and> length frames = 3 * n \<and> length lines = n
     \<and> (\<forall>i<n. round_ok sin_d (sim_t (dbl 0) i) (frames ! (3 * i)) (frames ! (3 * i + 1)) (frames ! (3 * i + 2)) (lines ! i))"
proof -
  have "in_bounds 0 (dbl 0) (int 0)" using dbl_exact [of 0] by (simp add: in_bounds_def)
  from sim_loop_ok [OF assms(1) this, of n] assms(2) show ?thesis by simp
qed

section \<open>Properties\<close>

text \<open>
  C38: The simulator is well defined and stays within the ranges its comments give. For any
  \<open>sin\<close> whose values on finite numbers are finite and within one, and for up to \<open>2 ^ 40\<close> rounds
  (more than three thousand years of 100 ms rounds), every conversion from double to integer is
  defined despite the rounding of each operation. In each round \<open>i\<close>, at the loop variable
  \<open>sim_t (dbl 0) i\<close>, the doubles are within the comments' ranges (engine speed 800 to 4000,
  temperature 80 to 90, throttle 5 to 35, speed 40 to 80); the three frames written are the
  engine, speed and brake frame of that time and carry these ranges in their raw bytes (the
  throttle as the step of 0.392157 that holds it, so less than one step below 5 at the lower end);
  and the line printed shows an engine speed and a speed within the same ranges and the state of the brake.
\<close>

theorem simulator_in_range:
  assumes "sine_like sin_d" and "n \<le> 2 ^ 40"
  shows "\<exists>t' frames lines. sim_loop sin_d n (dbl 0) = Some (t', frames, lines) \<and> length frames = 3 * n \<and> length lines = n
     \<and> (\<forall>i<n. round_ok sin_d (sim_t (dbl 0) i) (frames ! (3 * i)) (frames ! (3 * i + 1)) (frames ! (3 * i + 2)) (lines ! i))"
  using assms by (rule sim_frames_range)

theorem simulator_in_range_witness:
  "\<exists>t' frames lines. sim_loop (\<lambda>_. dbl 1) 2 (dbl 0) = Some (t', frames, lines) \<and> length frames = 6
     \<and> engine_range (frames ! 3) \<and> speed_range (frames ! 4) \<and> fst (lines ! 1) \<in> {800..4000}"
proof -
  have "sine_like (\<lambda>_. dbl 1)" using dbl_exact [of 1] by (simp add: sine_like_def in_bounds_def)
  from simulator_in_range [OF this, of 2] obtain t' frames lines where
    r: "sim_loop (\<lambda>_. dbl 1) 2 (dbl 0) = Some (t', frames, lines)" "length frames = 6"
      "\<forall>i<2. round_ok (\<lambda>_. dbl 1) (sim_t (dbl 0) i) (frames ! (3 * i)) (frames ! (3 * i + 1)) (frames ! (3 * i + 2)) (lines ! i)" by auto
  from spec [OF r(3), of 1] have "engine_range (frames ! 3)" "speed_range (frames ! 4)" "fst (lines ! 1) \<in> {800..4000}"
    by (simp_all add: round_ok_def)
  with r(1,2) show ?thesis by blast
qed

end
