(* ===== verification/Gateway_Sim.thy ===== *)
theory Gateway_Sim
  imports Can_Simulator Shipped_Config
begin

text \<open>
  The simulator in front of the delivered gateway: what a receiver of the notifications reads
  when the frames on the bus are those of \<^verbatim>\<open>tools/can_simulator.cpp\<close>.
\<close>

section \<open>Numbers\<close>

lemma quarter_bounds: "a \<le> z \<Longrightarrow> z \<le> b \<Longrightarrow> real_of_int a / 4 \<le> real_of_int z / 4 \<and> real_of_int z / 4 \<le> real_of_int b / 4"
  by (simp add: divide_right_mono)

lemma unat_join16: "unat (join16 a b) = 256 * unat a + unat b"
proof -
  have "\<not> bit (push_bit 8 (ucast a) :: u16) n \<or> \<not> bit (ucast b :: u16) n" for n
    by (cases "n < 8") (auto simp: bit_simps dest: bit_imp_le_length)
  then have "join16 a b = push_bit 8 (ucast a) + ucast b" unfolding join16_def by (intro disjunctive_add [symmetric])
  also have "\<dots> = of_nat (256 * unat a + unat b)" by (simp add: push_bit_eq_mult)
  finally have "join16 a b = of_nat (256 * unat a + unat b)" .
  moreover have "256 * unat a + unat b < 2 ^ 16" using unsigned_less [of a, where ?'a = nat] unsigned_less [of b, where ?'a = nat] by simp
  ultimately show ?thesis by (simp only: unat_of_nat_u16)
qed

lemma le16_join: "uint (join16 b1 b0) = int (le16 (b0 # b1 # bs) 0)"
  unfolding uint_nat unat_join16 le16_def by simp

section \<open>One engine frame\<close>

lemma engine_bytes:
  assumes "engine_range f"
  obtains b0 b1 b2 rest where "data f = b0 # b1 # b2 # rest" and "length rest = 5"
    and "3200 \<le> uint (join16 b1 b0)" and "uint (join16 b1 b0) \<le> 16000" and "160 \<le> uint b2" and "uint b2 \<le> 173"
proof -
  have "length (data f) = 8" using assms by (simp add: engine_range_def frame_ok_def)
  then obtain b0 b1 b2 rest where d: "data f = b0 # b1 # b2 # rest" "length rest = 5"
    by (auto simp: numeral_eq_Suc length_Suc_conv)
  show ?thesis
  proof (rule that [OF d])
    show "3200 \<le> uint (join16 b1 b0)" "uint (join16 b1 b0) \<le> 16000"
      unfolding le16_join [of b1 b0 "b2 # rest"] d(1) [symmetric] using assms by (simp_all add: engine_range_def)
    have "480 \<le> 3 * unat b2" "3 * unat b2 \<le> 520" using assms by (simp_all add: engine_range_def d(1))
    then show "160 \<le> uint b2" "uint b2 \<le> 173" unfolding uint_nat by linarith+
  qed
qed

lemma simulated_engine:
  assumes "gw_main 64 4097 inet s args (Some (lf_file gateway_conf)) (Some (lf_file vehicle_dbc)) rs = Some (StillRunning (l, gw, sofar))"
    and "\<forall>r\<in>set rs. wait_ok input_ok r" and "engine_range f" and "in_can x = Some (can_send f)" and "length (in_stack x) = SOMEIP_MAX_SIZE"
  shows "\<exists>gw' d1 d2 d3 out rpm temp. gw_call 64 4097 inet CanReader x (l, gw, sofar)
       = Some (False, l, gw', sofar @ [Notify d1, Notify d2, Notify d3] @ out) \<and> filter is_notify out = []
     \<and> carries d1 0x0101 0x8001 rpm \<and> 800 \<le> rpm \<and> rpm \<le> 4000
     \<and> carries d2 0x0101 0x8002 temp \<and> 80 \<le> temp \<and> temp \<le> 90"
proof -
  obtain b0 b1 b2 rest where b: "data f = b0 # b1 # b2 # rest" "length rest = 5" "3200 \<le> uint (join16 b1 b0)" "uint (join16 b1 b0) \<le> 16000"
    "160 \<le> uint b2" "uint b2 \<le> 173" using engine_bytes [OF assms(3)] .
  have f: "frame_ok f" "can_id f AND CAN_EFF_MASK = 0x123" using assms(3) by (simp_all add: engine_range_def CAN_EFF_MASK_def)
  let ?rpm = "real_of_int (uint (join16 b1 b0)) / 4" and ?temp = "real_of_int (min 595 (3 * uint b2 - 160)) / 4"
  from engine_forwarded [OF assms(1,2) f(2) b(1,2) assms(5), of "in_clocks x"] obtain gw' d1 d2 d3 out where
    o: "on_frame 64 inet (in_stack x) (in_clocks x) f gw = Some (gw', [Notify d1, Notify d2, Notify d3] @ out)" "filter is_notify out = []"
    "carries d1 0x0101 0x8001 ?rpm" "carries d2 0x0101 0x8002 ?temp" by auto
  have "length (frame_bytes f) = 16" using f(1) by (simp add: frame_bytes_def frame_ok_def mem32_def)
  then have "can_on_readable True (in_can x) = Some (Some f)"
    using frame_object_bytes [OF f(1)] by (simp add: can_on_readable_def can_send_def assms(4))
  then have call: "gw_call 64 4097 inet CanReader x (l, gw, sofar) = Some (False, l, gw', sofar @ [Notify d1, Notify d2, Notify d3] @ out)"
    using o(1) by (simp add: gw_call_def)
  have "320 \<le> min 595 (3 * uint b2 - 160)" "min 595 (3 * uint b2 - 160) \<le> 360" using b(5,6) by linarith+
  from quarter_bounds [OF this] have "80 \<le> ?temp" "?temp \<le> 90" by simp_all
  moreover from quarter_bounds [OF b(3,4)] have "800 \<le> ?rpm" "?rpm \<le> 4000" by simp_all
  ultimately show ?thesis using call o(2-4) by blast
qed

section \<open>Properties\<close>

lemma sim_main_frames:
  assumes "sine_like sin_d" and "n \<le> 2 ^ 40" and "0 \<le> sock"
  obtains t frames lines where "sim_main sin_d sock n = Inr (Some (t, frames, lines))" and "length frames = 3 * n"
    and "\<And>i. i < n \<Longrightarrow> engine_range (frames ! (3 * i))"
  using sim_frames_range [OF assms(1,2)] assms(3) by (auto simp: sim_main_def round_ok_def)

text \<open>
  C10: From the simulator to the receiver. For any \<open>sin\<close> within one, up to \<open>2 ^ 40\<close> rounds and any
  round of them: when the delivered gateway, after any events, reads the engine frame of that
  round from its CAN socket, it sends three notifications, and a receiver reads an engine speed
  between 800 and 4000 and a temperature between 80 and 90 from the first two, the ranges of
  the simulator's comments. Without a socket the simulator exits with status 1.
\<close>

theorem simulator_to_receiver:
  assumes "sine_like sin_d" and "n \<le> 2 ^ 40" and "i < n"
    and "gw_main 64 4097 inet s args (Some (lf_file gateway_conf)) (Some (lf_file vehicle_dbc)) rs = Some (StillRunning (l, gw, sofar))"
    and "\<forall>r\<in>set rs. wait_ok input_ok r" and "length (in_stack x) = SOMEIP_MAX_SIZE"
  shows "(0 \<le> sock \<longrightarrow> (\<exists>t frames lines gw' d1 d2 d3 out rpm temp. sim_main sin_d sock n = Inr (Some (t, frames, lines)) \<and> length frames = 3 * n
       \<and> gw_call 64 4097 inet CanReader (x\<lparr>in_can := Some (can_send (frames ! (3 * i)))\<rparr>) (l, gw, sofar)
           = Some (False, l, gw', sofar @ [Notify d1, Notify d2, Notify d3] @ out) \<and> filter is_notify out = []
       \<and> carries d1 0x0101 0x8001 rpm \<and> 800 \<le> rpm \<and> rpm \<le> 4000
       \<and> carries d2 0x0101 0x8002 temp \<and> 80 \<le> temp \<and> temp \<le> 90))
     \<and> (sock < 0 \<longrightarrow> sim_main sin_d sock n = Inl 1)"
proof (intro conjI impI)
  assume "0 \<le> sock"
  then obtain t frames lines where r: "sim_main sin_d sock n = Inr (Some (t, frames, lines))" "length frames = 3 * n"
    "\<And>j. j < n \<Longrightarrow> engine_range (frames ! (3 * j))" using sim_main_frames [OF assms(1,2)] by metis
  let ?x = "x\<lparr>in_can := Some (can_send (frames ! (3 * i)))\<rparr>"
  have "in_can ?x = Some (can_send (frames ! (3 * i)))" "length (in_stack ?x) = SOMEIP_MAX_SIZE" using assms(6) by simp_all
  from simulated_engine [OF assms(4,5) r(3) [OF assms(3)] this] r(1,2)
  show "\<exists>t frames lines gw' d1 d2 d3 out rpm temp. sim_main sin_d sock n = Inr (Some (t, frames, lines)) \<and> length frames = 3 * n
       \<and> gw_call 64 4097 inet CanReader (x\<lparr>in_can := Some (can_send (frames ! (3 * i)))\<rparr>) (l, gw, sofar)
           = Some (False, l, gw', sofar @ [Notify d1, Notify d2, Notify d3] @ out) \<and> filter is_notify out = []
       \<and> carries d1 0x0101 0x8001 rpm \<and> 800 \<le> rpm \<and> rpm \<le> 4000
       \<and> carries d2 0x0101 0x8002 temp \<and> 80 \<le> temp \<and> temp \<le> 90" by blast
qed (simp add: sim_main_def)

theorem simulator_to_receiver_witness:
  "\<exists>t frames lines gw' d1 d2 d3 out rpm temp. sim_main (\<lambda>_. dbl 1) 3 2 = Inr (Some (t, frames, lines)) \<and> length frames = 6
     \<and> gw_call 64 4097 (\<lambda>_. 0) CanReader (demo_input\<lparr>in_can := Some (can_send (frames ! 3))\<rparr>)
          ((initial_loop demo_startup)\<lparr>running := True\<rparr>, delivered, [first_offer (\<lambda>_. 0) []])
         = Some (False, (initial_loop demo_startup)\<lparr>running := True\<rparr>, gw', [first_offer (\<lambda>_. 0) [], Notify d1, Notify d2, Notify d3] @ out)
     \<and> carries d1 0x0101 0x8001 rpm \<and> rpm \<le> 4000 \<and> carries d2 0x0101 0x8002 temp \<and> temp \<le> 90"
proof -
  have "sine_like (\<lambda>_. dbl 1)" using dbl_exact [of 1] by (simp add: sine_like_def in_bounds_def)
  moreover have "length (in_stack demo_input) = SOMEIP_MAX_SIZE" by (simp add: demo_input_def)
  ultimately show ?thesis
    using simulator_to_receiver [of "\<lambda>_. dbl 1" 2 1 "\<lambda>_. 0" demo_startup "[]" "[]" "(initial_loop demo_startup)\<lparr>running := True\<rparr>" delivered
        "[first_offer (\<lambda>_. 0) []]" demo_input 3] delivered_running by auto blast
qed

end
