(* ===== verification/Someip_Tools.thy ===== *)
theory Someip_Tools
  imports Shipped_Config
begin

text \<open>
  The two SOME/IP test receivers: \<^verbatim>\<open>tools/someip_sd_subscriber.cpp\<close>, which subscribes and
  prints the signals, and \<^verbatim>\<open>tools/someip_subscriber.cpp\<close>, which prints every message. The
  datagrams they receive are arguments, of which only the received bytes may be read; what they
  print of a datagram is the result.
\<close>

section \<open>The subscribing receiver\<close>

definition send_subscribe :: "u16 \<Rightarrow> u16 \<Rightarrow> byte list option" where
  "send_subscribe service eventgroup = do {
     let buf = replicate 44 0;
     buf \<leftarrow> put 0 [0xFF, 0xFF] buf;
     buf \<leftarrow> put 2 [0x81, 0x00] buf;
     buf \<leftarrow> put 4 (mem32 (htonl 36)) buf;
     buf \<leftarrow> put 8 [0x00, 0x00] buf;
     buf \<leftarrow> put 10 [0x00, 0x01] buf;
     buf \<leftarrow> put 12 [0x01, 0x01, 0x02, 0x00] buf;
     buf \<leftarrow> put 16 [0xC0, 0x00, 0x00, 0x00] buf;
     buf \<leftarrow> put 20 (mem32 (htonl 16)) buf;
     buf \<leftarrow> put 24 [0x06, 0x00, 0x00, 0x00] buf;
     buf \<leftarrow> put 28 (mem16 (htons service)) buf;
     buf \<leftarrow> put 30 (mem16 (htons 0x0001)) buf;
     buf \<leftarrow> put 32 [0x01, 0x00, 0x00, 0x03] buf;
     buf \<leftarrow> put 36 [0x00, 0x00, 0x00, 0x00] buf;
     buf \<leftarrow> put 40 (mem32 (htonl 0)) buf;
     put 42 (mem16 (htons eventgroup)) buf }"

definition signal_label :: "u16 \<Rightarrow> u16 \<Rightarrow> string" where
  "signal_label svc_id met_id =
     (if svc_id = 0x0101 \<and> met_id = 0x8001 then ''EngineRPM''
      else if svc_id = 0x0101 \<and> met_id = 0x8002 then ''EngineTemp''
      else if svc_id = 0x0101 \<and> met_id = 0x8003 then ''ThrottlePos''
      else if svc_id = 0x0102 \<and> met_id = 0x8001 then ''VehicleSpeed''
      else if svc_id = 0x0102 \<and> met_id = 0x8002 then ''WheelSpeed_FL''
      else if svc_id = 0x0102 \<and> met_id = 0x8003 then ''WheelSpeed_FR''
      else if svc_id = 0x0103 \<and> met_id = 0x8001 then ''BrakePressure''
      else if svc_id = 0x0103 \<and> met_id = 0x8002 then ''BrakeActive''
      else ''Unknown'')"

text \<open>The body of the receive loop: the line printed (signal, value, session), or none.\<close>

definition signal_line :: "byte list \<Rightarrow> (string \<times> fp \<times> u16) option option" where
  "signal_line buf =
     (if length buf < 16 then Some None
      else do {
        b0 \<leftarrow> rd buf 0; b1 \<leftarrow> rd buf 1; b2 \<leftarrow> rd buf 2; b3 \<leftarrow> rd buf 3;
        b10 \<leftarrow> rd buf 10; b11 \<leftarrow> rd buf 11; mtype \<leftarrow> rd buf 14;
        let svc_id = join16 b0 b1;
        let met_id = join16 b2 b3;
        let ses_id = join16 b10 b11;
        if svc_id = 0xFFFF then Some None
        else if mtype \<noteq> 0x02 then Some None
        else if length buf < 20 then Some None
        else do {
          a \<leftarrow> rd buf 16; b \<leftarrow> rd buf 17; c \<leftarrow> rd buf 18; d \<leftarrow> rd buf 19;
          let raw = ntohl (of_mem32 a b c d);
          Some (Some (signal_label svc_id met_id, float_of_bits raw, ses_id)) } })"

fun signal_lines :: "byte list option list \<Rightarrow> (string \<times> fp \<times> u16) list option" where
  "signal_lines [] = Some []"
| "signal_lines (None # rs) = signal_lines rs"
| "signal_lines (Some buf # rs) = do {
     line \<leftarrow> signal_line buf;
     lines \<leftarrow> signal_lines rs;
     Some ((case line of None \<Rightarrow> [] | Some l \<Rightarrow> [l]) @ lines) }"

text \<open>
  The program: whether the discovery socket could be created and bound, the sender of the first
  datagram, whether the data socket could be created and bound, and the results of the further
  \<open>recvfrom\<close>. The result is the exit status (\<open>None\<close>: still receiving), the subscriptions sent
  and the lines printed.
\<close>

definition sd_subscriber_main ::
  "bool \<Rightarrow> bool \<Rightarrow> sockaddr_in option \<Rightarrow> bool \<Rightarrow> bool \<Rightarrow> byte list option list
     \<Rightarrow> (int option \<times> (sockaddr_in \<times> byte list) list \<times> (string \<times> fp \<times> u16) list) option" where
  "sd_subscriber_main sd_sock sd_bound offer data_sock data_bound rs =
     (if \<not> sd_sock \<or> \<not> sd_bound then Some (Some 1, [], [])
      else (case offer of
          None \<Rightarrow> Some (Some 1, [], [])
        | Some from_addr \<Rightarrow> do {
            m1 \<leftarrow> send_subscribe 0x0101 0x0001;
            m2 \<leftarrow> send_subscribe 0x0102 0x0001;
            m3 \<leftarrow> send_subscribe 0x0103 0x0001;
            let sent = map (Pair from_addr) [m1, m2, m3];
            if \<not> data_sock \<or> \<not> data_bound then Some (Some 1, sent, [])
            else do { lines \<leftarrow> signal_lines rs; Some (None, sent, lines) } }))"

section \<open>The printing receiver\<close>

datatype payload_line = FloatLine fp | BytesLine nat

datatype someip_print = TooShort nat | Printed u16 u16 u32 u16 u16 byte byte byte byte payload_line

definition print_someip :: "byte list \<Rightarrow> someip_print option" where
  "print_someip buf =
     (if length buf < 16 then Some (TooShort (length buf))
      else do {
        b0 \<leftarrow> rd buf 0; b1 \<leftarrow> rd buf 1; b2 \<leftarrow> rd buf 2; b3 \<leftarrow> rd buf 3;
        b4 \<leftarrow> rd buf 4; b5 \<leftarrow> rd buf 5; b6 \<leftarrow> rd buf 6; b7 \<leftarrow> rd buf 7;
        b8 \<leftarrow> rd buf 8; b9 \<leftarrow> rd buf 9; b10 \<leftarrow> rd buf 10; b11 \<leftarrow> rd buf 11;
        proto_ver \<leftarrow> rd buf 12; iface_ver \<leftarrow> rd buf 13; mtype \<leftarrow> rd buf 14; ret_code \<leftarrow> rd buf 15;
        let payload_len = length buf - 16;
        shown \<leftarrow>
          (if payload_len = 4 then do {
             a \<leftarrow> rd buf 16; b \<leftarrow> rd buf 17; c \<leftarrow> rd buf 18; d \<leftarrow> rd buf 19;
             let raw = join32 a b c d;
             let host_raw = ntohl raw;
             Some (FloatLine (float_of_bits host_raw)) }
           else Some (BytesLine payload_len));
        Some (Printed (join16 b0 b1) (join16 b2 b3) (join32 b4 b5 b6 b7) (join16 b8 b9) (join16 b10 b11)
                proto_ver iface_ver mtype ret_code shown) })"

text \<open>The receive loop ends at the first error.\<close>

fun subscriber_loop :: "byte list option list \<Rightarrow> (int option \<times> someip_print list) option" where
  "subscriber_loop [] = Some (None, [])"
| "subscriber_loop (None # rs) = Some (Some 0, [])"
| "subscriber_loop (Some buf # rs) = do {
     p \<leftarrow> print_someip buf;
     (st, ps) \<leftarrow> subscriber_loop rs;
     Some (st, p # ps) }"

definition subscriber_main :: "bool \<Rightarrow> bool \<Rightarrow> bool \<Rightarrow> byte list option list \<Rightarrow> (int option \<times> someip_print list) option" where
  "subscriber_main sock bound joined rs = (if \<not> sock \<or> \<not> bound \<or> \<not> joined then Some (Some 1, []) else subscriber_loop rs)"

section \<open>The bytes\<close>

definition subscribe_bytes :: "u16 \<Rightarrow> u16 \<Rightarrow> byte list" where
  "subscribe_bytes service eventgroup =
     [0xFF, 0xFF, 0x81, 0x00, 0, 0, 0, 36, 0, 0, 0, 1, 1, 1, 2, 0, 0xC0, 0, 0, 0, 0, 0, 0, 16, 6, 0, 0, 0]
     @ be16 service @ [0, 1, 1, 0, 0, 3, 0, 0, 0, 0, 0, 0] @ be16 eventgroup"

lemma send_subscribe_bytes: "send_subscribe service eventgroup = Some (subscribe_bytes service eventgroup)"
proof -
  have "replicate 44 (0 :: byte) = [0, 0, 0, 0, 0, 0, 0, 0, 0, 0, 0, 0, 0, 0, 0, 0, 0, 0, 0, 0, 0, 0, 0, 0, 0, 0, 0, 0, 0, 0, 0, 0, 0, 0, 0, 0, 0, 0, 0, 0, 0, 0, 0, 0]"
    by (simp add: eval_nat_numeral)
  then show ?thesis
    by (simp add: send_subscribe_def subscribe_bytes_def put_def mem32_htonl mem16_htons be16_def be32_def drop_bit_eq_div)
qed

lemma length_subscribe_bytes: "length (subscribe_bytes service eventgroup) = 44"
  by (simp add: subscribe_bytes_def)

lemma subscribe_requests: "33 \<le> W \<Longrightarrow> sd_requests W (subscribe_bytes service eventgroup) = [(service, 0)]"
proof -
  assume W: "33 \<le> W"
  obtain a b c d where ab: "be16 service = [a, b]" "be16 eventgroup = [c, d]" by (simp add: be16_def)
  have "(2 :: nat) ^ 33 \<le> 2 ^ W" using W by (rule power_increasing) simp
  then have "(40 :: nat) mod 2 ^ W = 40" by simp
  then have "entry_count W (subscribe_bytes service eventgroup) = 1"
    by (simp add: entry_count_def announced_def subscribe_bytes_def ab join32_def)
  then show ?thesis
    using join16_be16 [of service]
    by (simp add: sd_requests_def is_sd_def entry_request_def subscribe_bytes_def ab join16_def [of 0 0])
qed

lemma float_message_bytes:
  "someip_bytes (float_message s m sess v)
     = be16 s @ be16 m @ [0, 0, 0, 12, 0, 0] @ be16 sess @ [1, 1, 2, 0] @ be32 (float_bits v)"
  by (simp add: someip_bytes_def someip_header_def float_message_def someip_consts be32_def be16_def drop_bit_eq_div)

section \<open>Properties\<close>

text \<open>
  C39: The subscription loses its event group. Whatever event group the receiver asks for, its
  message, handled by the gateway, registers it for the service asked for and event group 0, and
  is acknowledged so: the tool stores the identifier in the last two bytes, behind the entry,
  where the gateway does not look.
\<close>

theorem subscribe_loses_eventgroup:
  "\<exists>msg sd' out. send_subscribe service eventgroup = Some msg
     \<and> sd_on_readable 64 sd (Some (msg, from_addr)) = Some (sd', out)
     \<and> subscribers sd' = subscribers sd @ [\<lparr>sub_addr = from_addr, sub_service_id = service, sub_eventgroup_id = 0\<rparr>]
     \<and> filter is_sent out = [SendDatagram from_addr (ack_bytes (sd_session sd) (service, 0))]"
  by (simp add: send_subscribe_bytes sd_on_readable_def handle_sd_spec subscribe_requests accept_request_def Let_def)

text \<open>
  C40: The subscribing receiver shows what was published. With the delivered configuration, for
  every decoded signal that has a route, the datagram the publisher sends makes the receiver
  print the name of the signal, its value in single precision and the session number.
\<close>

theorem signal_line_roundtrip:
  assumes "length buf = SOMEIP_MAX_SIZE" and "signal_map p = route_map gateway_routes" and "route_map gateway_routes (dec_name sig) \<noteq> None"
  shows "\<exists>d. publish buf p sig = Some (p\<lparr>pub_session := pub_session p + 1\<rparr>, [d])
     \<and> signal_line d = Some (Some (dec_name sig, fp_cast binary32 (dec_value sig), pub_session p))"
proof -
  let ?v = "fp_cast binary32 (dec_value sig)"
  obtain s m where r: "route_map gateway_routes (dec_name sig) = Some (s, m)" using assms(3) by fastforce
  then have lbl: "signal_label s m = dec_name sig" "s \<noteq> 0xFFFF"
    by (auto simp: route_map_def gateway_routes_def route_def signal_label_def split: if_splits)
  have "publish buf p sig = Some (p\<lparr>pub_session := pub_session p + 1\<rparr>, [someip_bytes (float_message s m (pub_session p) ?v)])"
    using assms(1,2) r by (simp add: publish_spec pub_spec_def notify_def)
  moreover have "signal_line (someip_bytes (float_message s m (pub_session p) ?v)) = Some (Some (dec_name sig, ?v, pub_session p))"
  proof -
    obtain a b where s: "be16 s = [a, b]" by (simp add: be16_def)
    obtain a' b' where m: "be16 m = [a', b']" by (simp add: be16_def)
    obtain e f where e: "be16 (pub_session p) = [e, f]" by (simp add: be16_def)
    obtain g h i j where g: "be32 (float_bits ?v) = [g, h, i, j]" by (simp add: be32_def)
    show ?thesis
      using join16_be16 [of s] join16_be16 [of m] join16_be16 [of "pub_session p"] join32_be32 [of "float_bits ?v"] lbl
        float_bits_roundtrip [OF fp_cast_canonical [of binary32]]
      by (simp add: signal_line_def float_message_bytes s m e g rd_def ntohl_of_mem32 Let_def)
  qed
  ultimately show ?thesis by blast
qed

theorem signal_line_roundtrip_witness:
  "\<exists>d. publish stack_bytes (gw_pub delivered) rpm_signal = Some ((gw_pub delivered)\<lparr>pub_session := 2\<rparr>, [d])
     \<and> signal_line d = Some (Some (''EngineRPM'', fp_cast binary32 (dec_value rpm_signal), 1))"
  using signal_line_roundtrip [of stack_bytes "gw_pub delivered" rpm_signal] engine_routes
  by (auto simp: delivered_def initial_gateway_def rpm_signal_def)

text \<open>
  The printing receiver shows every header right and the value wrong. For a published value
  it prints the service, the method, the length 12, the session and the fixed fields as sent, but
  as payload the number whose bits are those of the value in reverse byte order: the assembled
  host-order integer is converted once more.
\<close>

theorem print_someip_swaps:
  "print_someip (someip_bytes (float_message s m sess v))
     = Some (Printed s m 12 0 sess 1 1 2 0 (FloatLine (float_of_bits (ntohl (float_bits v)))))"
proof -
  obtain a b where s: "be16 s = [a, b]" by (simp add: be16_def)
  obtain a' b' where m: "be16 m = [a', b']" by (simp add: be16_def)
  obtain e f where e: "be16 sess = [e, f]" by (simp add: be16_def)
  obtain g h i j where g: "be32 (float_bits v) = [g, h, i, j]" by (simp add: be32_def)
  show ?thesis
    using join16_be16 [of s] join16_be16 [of m] join16_be16 [of sess] join32_be32 [of "float_bits v"]
    by (simp add: print_someip_def float_message_bytes s m e g rd_def Let_def join16_def [of 0 0] join32_def [of 0 0])
qed

text \<open>
  Both receivers survive any datagram: no content makes them read a byte that was not
  received.
\<close>

theorem receivers_safe:
  "signal_line buf \<noteq> None \<and> print_someip buf \<noteq> None \<and> (\<exists>sent lines. sd_subscriber_main True True (Some from_addr) True True rs = Some (None, sent, lines))"
proof -
  have line: "signal_line b \<noteq> None" for b by (simp add: signal_line_def rd_def Let_def)
  moreover have "print_someip b \<noteq> None" for b by (auto simp: print_someip_def rd_def Let_def)
  moreover have lines: "\<exists>lines. signal_lines xs = Some lines" for xs
  proof (induction xs rule: signal_lines.induct)
    case (3 b xs)
    with line [of b] show ?case by auto
  qed simp_all
  moreover obtain lines where "signal_lines rs = Some lines" using lines [of rs] by blast
  ultimately show ?thesis by (simp add: sd_subscriber_main_def send_subscribe_bytes)
qed

end
