(* ===== verification/Doip_Client.thy ===== *)
theory Doip_Client
  imports Doip_Stream
begin

text \<open>
  The diagnostic test client (\<^verbatim>\<open>tools/doip_client.cpp\<close>) and its conversation with the
  server. What \<open>recv\<close> stored is an argument: \<open>None\<close> for an error or the end of the stream, and
  only the bytes it stored may be read. What the client sends and shows is a list of outputs in
  program order.
\<close>

section \<open>The client\<close>

definition TESTER_ADDR :: u16 where "TESTER_ADDR = 0x0E00"
definition ECU_ADDR :: u16 where "ECU_ADDR = 0x0001"

definition client_make_msg :: "u16 \<Rightarrow> byte list \<Rightarrow> byte list option" where
  "client_make_msg ty payload = do {
     let msg = replicate (8 + length payload) 0;
     msg \<leftarrow> put 0 [0x02] msg;
     msg \<leftarrow> put 1 [0xFD] msg;
     msg \<leftarrow> put 2 [ucast (drop_bit 8 ty AND 0xFF)] msg;
     msg \<leftarrow> put 3 [ucast (ty AND 0xFF)] msg;
     let len = htonl (of_nat (length payload));
     msg \<leftarrow> put 4 (mem32 len) msg;
     put 8 payload msg }"

datatype client_out = ClientSend "byte list" | ShowRaw "byte list" | ShowUds "byte list" | ShowActivated | ShowFailed

text \<open>
  The bytes printed as the UDS response, if any. The sum \<open>8 + second_len\<close> is computed in 32
  bits.
\<close>

definition uds_shown :: "byte list \<Rightarrow> byte list option option" where
  "uds_shown buf =
     (if 8 < length buf then do {
        a \<leftarrow> rd buf 4; b \<leftarrow> rd buf 5; c \<leftarrow> rd buf 6; d \<leftarrow> rd buf 7;
        let second_len = ntohl (of_mem32 a b c d);
        if unat (8 + second_len) \<le> length buf \<and> 5 \<le> second_len
        then map_option Some (rd_run buf (8 + 4) (unat (second_len - 4)))
        else Some None }
      else Some None)"

definition send_uds :: "byte list \<Rightarrow> byte list option \<Rightarrow> client_out list option" where
  "send_uds uds_req received = do {
     let diag_payload = [ucast (drop_bit 8 TESTER_ADDR AND 0xFF), ucast (TESTER_ADDR AND 0xFF),
                         ucast (drop_bit 8 ECU_ADDR AND 0xFF), ucast (ECU_ADDR AND 0xFF)] @ uds_req;
     diag_msg \<leftarrow> client_make_msg 0x8001 diag_payload;
     (case received of
        None \<Rightarrow> Some [ClientSend diag_msg]
      | Some buf \<Rightarrow> do {
          shown \<leftarrow> uds_shown buf;
          Some ([ClientSend diag_msg, ShowRaw buf] @ (case shown of None \<Rightarrow> [] | Some r \<Rightarrow> [ShowUds r])) }) }"

definition client_requests :: "byte list list" where
  "client_requests = [[0x10, 0x03], [0x19, 0x02, 0xFF], [0x22, 0xF1, 0x90], [0x22, 0xF1, 0x8C], [0x22, 0xF1, 0x87], [0x11, 0x01]]"

fun send_all :: "byte list list \<Rightarrow> byte list option list \<Rightarrow> client_out list option" where
  "send_all (req # reqs) (r # rs) = do { out \<leftarrow> send_uds req r; out' \<leftarrow> send_all reqs rs; Some (out @ out') }"
| "send_all _ _ = Some []"

text \<open>
  The program: whether the socket was created and connected, the result of the first \<open>recv\<close> and
  of those of the six requests; the exit status and the outputs.
\<close>

definition client_main :: "bool \<Rightarrow> bool \<Rightarrow> byte list option \<Rightarrow> byte list option list \<Rightarrow> (int \<times> client_out list) option" where
  "client_main sock_ok connected first rest =
     (if \<not> sock_ok \<or> \<not> connected then Some (1, [])
      else do {
        let routing_req = [ucast (drop_bit 8 TESTER_ADDR AND 0xFF), ucast (TESTER_ADDR AND 0xFF), 0x00, 0x00, 0x00, 0x00, 0x00];
        routing_msg \<leftarrow> client_make_msg 0x0005 routing_req;
        (case first of
           None \<Rightarrow> Some (1, [ClientSend routing_msg])
         | Some buf \<Rightarrow>
             if 13 \<le> length buf \<and> rd buf 12 = Some 0x10 then do {
               out \<leftarrow> send_all client_requests rest;
               Some (0, [ClientSend routing_msg, ShowRaw buf, ShowActivated] @ out) }
             else Some (1, [ClientSend routing_msg, ShowRaw buf, ShowFailed])) })"

section \<open>Messages\<close>

text \<open>The client frames its messages as the server does.\<close>

lemma client_make_msg_frame: "client_make_msg ty payload = Some (doip_frame ty payload)"
proof -
  have "replicate (8 + length payload) (0::byte) = replicate 8 0 @ replicate (length payload) 0"
    by (rule replicate_add)
  then have "replicate (8 + length payload) (0::byte) = [0, 0, 0, 0, 0, 0, 0, 0] @ replicate (length payload) 0"
    by (simp add: eval_nat_numeral)
  then show ?thesis
    by (simp add: client_make_msg_def put_def mem32_htonl doip_frame_def be16_def DOIP_PROTO_VERSION_def DOIP_PROTO_VERSION_INV_def)
qed

definition diag_request :: "byte list \<Rightarrow> byte list" where
  "diag_request req = doip_frame 0x8001 ([0x0E, 0x00, 0x00, 0x01] @ req)"

lemma address_bytes:
  "ucast (drop_bit 8 TESTER_ADDR AND 0xFF) = (0x0E :: byte)" "ucast (TESTER_ADDR AND 0xFF) = (0 :: byte)"
  "ucast (drop_bit 8 ECU_ADDR AND 0xFF) = (0 :: byte)" "ucast (ECU_ADDR AND 0xFF) = (1 :: byte)"
  by (simp_all add: TESTER_ADDR_def ECU_ADDR_def drop_bit_eq_div)

lemma send_uds_eq:
  "send_uds req received =
     (case received of
        None \<Rightarrow> Some [ClientSend (diag_request req)]
      | Some buf \<Rightarrow> do {
          shown \<leftarrow> uds_shown buf;
          Some ([ClientSend (diag_request req), ShowRaw buf] @ (case shown of None \<Rightarrow> [] | Some r \<Rightarrow> [ShowUds r])) })"
  by (cases received) (simp_all add: send_uds_def address_bytes client_make_msg_frame diag_request_def Let_def)

lemma uds_shown_ack:
  assumes "length ad = 4" and "13 \<le> n"
  shows "uds_shown (take n (doip_frame 0x8002 (ad @ [c]) @ rest)) = Some (Some [c])"
proof -
  obtain a0 a1 a2 a3 where ad: "ad = [a0, a1, a2, a3]" using assms(1) by (auto simp: length_Suc_conv eval_nat_numeral)
  let ?f = "doip_frame 0x8002 (ad @ [c])"
  have f: "?f = [0x02, 0xFD, 0x80, 0x02, 0, 0, 0, 5, a0, a1, a2, a3, c]"
    by (simp add: doip_frame_def ad be16_def be32_def drop_bit_eq_div DOIP_PROTO_VERSION_def DOIP_PROTO_VERSION_INV_def)
  have "length ?f = 13" by (simp add: f)
  then have "take n (?f @ rest) = ?f @ take (n - 13) rest" using assms(2) by simp
  then show ?thesis by (simp add: f uds_shown_def rd_def rd_run_def ntohl_of_mem32 join32_def)
qed

text \<open>What the server does with one whole message on a connection that has nothing buffered.\<close>

lemma serve_one:
  assumes "srv_wf srv" and "connections srv fd = Some conn" and "recv_len conn = 0" and "length payload \<le> 4088"
  shows "\<exists>conn' outs. on_client_data 64 4097 srv fd (Some (doip_frame ty payload))
           = Inr (srv\<lparr>connections := (connections srv)(fd \<mapsto> conn')\<rparr>, outs)
     \<and> recv_len conn' = 0 \<and> doip_spec (reply_of (uds_handle (doip_uds srv))) fd (abs_conn conn) (ty, payload) = (abs_conn conn', outs)"
proof -
  have wf: "conn_wf conn" "conn_fd conn = fd" using assms(1,2) by (auto simp: srv_wf_def)
  have len: "length (doip_frame ty payload) = 8 + length payload" by (simp add: doip_frame_def)
  then have "doip_frame ty payload \<noteq> []" "length (doip_frame ty payload) \<le> 4096 - recv_len conn" using assms(3,4) by auto
  from on_client_data_spec [OF _ _ assms(2) wf(1) this, of 64 4097] obtain conn' outs where
    r: "on_client_data 64 4097 srv fd (Some (doip_frame ty payload)) = Inr (srv\<lparr>connections := (connections srv)(fd \<mapsto> conn')\<rparr>, outs)"
    "conn_wf conn'" "contents conn' = snd (deframe doip_next (contents conn @ doip_frame ty payload))"
    "run_steps (doip_spec (reply_of (uds_handle (doip_uds srv))) (conn_fd conn)) (abs_conn conn)
         (fst (deframe doip_next (contents conn @ doip_frame ty payload))) = (abs_conn conn', outs)" by auto
  have "deframe doip_next (doip_frame ty payload) = ([(ty, payload)], [])"
    using deframe_frames [of "[(ty, payload)]"] assms(4) by simp
  moreover have "contents conn = []" by (simp add: contents_def assms(3))
  ultimately show ?thesis using r wf length_contents [OF r(2)]
    by (intro exI [of _ conn'] exI [of _ outs]) (auto simp: run_steps_Cons simp del: run_steps.simps(2))
qed

section \<open>Properties\<close>

text \<open>
  C33: Client and server understand each other, but the client shows the wrong bytes. On an
  activated connection, any request the client sends is answered by the server with an
  acknowledgement and a diagnostic message whose payload is the UDS handler's reply to exactly
  the request. The client makes one \<open>recv\<close> and reads the length of the first message it
  received, which is the acknowledgement: however much of the two messages arrives together, it
  shows the acknowledgement code 0x00 as the UDS response, never the reply.
\<close>

theorem client_shows_ack:
  assumes "srv_wf srv" and "connections srv fd = Some conn" and "recv_len conn = 0" and "activated conn" and "length req \<le> 4000"
  shows "\<exists>srv' ack rsp. on_client_data 64 4097 srv fd (Some (diag_request req)) = Inr (srv', [SendTo fd ack, SendTo fd rsp])
     \<and> rsp = doip_frame 0x8001 ([0x00, 0x01, 0x0E, 0x00] @ reply_of (uds_handle (doip_uds srv)) req)
     \<and> (\<forall>n\<ge>13. send_uds req (Some (take n (ack @ rsp)))
          = Some [ClientSend (diag_request req), ShowRaw (take n (ack @ rsp)), ShowUds [0x00]])"
proof -
  let ?pl = "[0x0E, 0x00, 0x00, 0x01] @ req"
  let ?ack = "doip_frame 0x8002 ([0x0E, 0x00, 0x00, 0x01] @ [0x00])"
  let ?rsp = "doip_frame 0x8001 ([0x00, 0x01, 0x0E, 0x00] @ reply_of (uds_handle (doip_uds srv)) req)"
  have "length ?pl \<le> 4088" using assms(5) by simp
  from serve_one [OF assms(1-3) this, of "0x8001"] assms(4)
  obtain srv' where srv: "on_client_data 64 4097 srv fd (Some (diag_request req)) = Inr (srv', [SendTo fd ?ack, SendTo fd ?rsp])"
    by (auto simp: diag_request_def doip_spec_def abs_conn_def doip_consts)
  have "send_uds req (Some (take n (?ack @ ?rsp))) = Some [ClientSend (diag_request req), ShowRaw (take n (?ack @ ?rsp)), ShowUds [0x00]]"
    if "13 \<le> n" for n
    using uds_shown_ack [OF _ that, of "[0x0E, 0x00, 0x00, 0x01]" 0 ?rsp] by (simp add: send_uds_eq)
  with srv show ?thesis by blast
qed

text \<open>A server with one activated connection, for the examples.\<close>

definition active_server :: doip_server where
  "active_server = demo_server\<lparr>connections := [5 \<mapsto> DoIpConnection\<lparr>conn_fd := 5, activated := True, tester_addr := 0x0E00\<rparr>]\<rparr>"

lemma active_server_facts:
  "srv_wf active_server" "connections active_server 5 = Some (DoIpConnection\<lparr>conn_fd := 5, activated := True, tester_addr := 0x0E00\<rparr>)"
  by (auto simp: active_server_def srv_wf_def conn_wf_def contents_def DoIpConnection_def doip_next_def split: if_splits)

theorem client_shows_ack_witness:
  "\<exists>srv' ack rsp. on_client_data 64 4097 active_server 5 (Some (diag_request [0x22, 0xF1, 0x90])) = Inr (srv', [SendTo 5 ack, SendTo 5 rsp])
     \<and> send_uds [0x22, 0xF1, 0x90] (Some (take 4096 (ack @ rsp)))
         = Some [ClientSend (diag_request [0x22, 0xF1, 0x90]), ShowRaw (take 4096 (ack @ rsp)), ShowUds [0x00]]"
  using client_shows_ack [OF active_server_facts, of "[0x22, 0xF1, 0x90]"] by (fastforce simp: DoIpConnection_def)

definition sent_by :: "client_out list \<Rightarrow> byte list list" where
  "sent_by outs = concat (map (\<lambda>out. case out of ClientSend m \<Rightarrow> [m] | _ \<Rightarrow> []) outs)"

definition routing_request :: "byte list" where
  "routing_request = doip_frame 0x0005 [0x0E, 0x00, 0x00, 0x00, 0x00, 0x00, 0x00]"

lemma send_all_sends:
  "length rs = length reqs \<Longrightarrow> \<forall>b. Some b \<in> set rs \<longrightarrow> uds_shown b \<noteq> None \<Longrightarrow>
   \<exists>out. send_all reqs rs = Some out \<and> sent_by out = map diag_request reqs"
proof (induction reqs rs rule: send_all.induct)
  case (1 req reqs r rs)
  obtain o1 where o1: "send_uds req r = Some o1" "sent_by o1 = [diag_request req]"
  proof (cases r)
    case None
    with that show ?thesis by (simp add: send_uds_eq sent_by_def)
  next
    case (Some b)
    with "1.prems"(2) obtain y where "uds_shown b = Some y" by auto
    with Some that show ?thesis by (cases y) (simp_all add: send_uds_eq sent_by_def)
  qed
  from "1.IH" [OF o1(1)] "1.prems" obtain out where "send_all reqs rs = Some out" "sent_by out = map diag_request reqs" by auto
  with o1 show ?case by (simp add: sent_by_def)
qed (simp_all add: sent_by_def)

text \<open>
  The session with the gateway runs through. On a fresh connection the server answers the
  client's routing activation request with one message and activates the tester 0x0E00; the
  client recognises that answer, sends its six diagnostic requests, whatever it receives in
  return, and exits with 0.
\<close>

theorem client_session:
  assumes "srv_wf srv" and "connections srv fd = Some conn" and "recv_len conn = 0"
    and "length rs = 6" and "\<forall>b. Some b \<in> set rs \<longrightarrow> uds_shown b \<noteq> None"
  shows "\<exists>srv' conn' res out. on_client_data 64 4097 srv fd (Some routing_request) = Inr (srv', [SendTo fd res])
     \<and> connections srv' fd = Some conn' \<and> activated conn' \<and> tester_addr conn' = TESTER_ADDR
     \<and> client_main True True (Some res) rs = Some (0, out)
     \<and> sent_by out = routing_request # map diag_request client_requests"
proof -
  let ?req = "[0x0E, 0x00, 0x00, 0x00, 0x00, 0x00, 0x00] :: byte list"
  let ?res = "doip_frame 0x0006 [0x0E, 0x00, 0x00, 0x01, 0x10, 0, 0, 0, 0]"
  have "length ?req \<le> 4088" by simp
  from serve_one [OF assms(1-3) this, of 5] obtain conn' where
    s: "on_client_data 64 4097 srv fd (Some routing_request) = Inr (srv\<lparr>connections := (connections srv)(fd \<mapsto> conn')\<rparr>, [SendTo fd ?res])"
    and a: "abs_conn conn' = Some 0x0E00"
    by (auto simp: routing_request_def doip_spec_def doip_consts be16_def join16_def drop_bit_eq_div)
  have conn': "activated conn'" "tester_addr conn' = TESTER_ADDR" using a by (simp_all add: abs_conn_def TESTER_ADDR_def split: if_splits)
  have res: "13 \<le> length ?res" "rd ?res 12 = Some 0x10" by (simp_all add: doip_frame_def rd_def be16_def be32_def)
  obtain out where out: "send_all client_requests rs = Some out" "sent_by out = map diag_request client_requests"
    using send_all_sends [of rs client_requests] assms(4,5) by (auto simp: client_requests_def)
  then have "client_main True True (Some ?res) rs = Some (0, [ClientSend routing_request, ShowRaw ?res, ShowActivated] @ out)"
    using res by (simp add: client_main_def client_make_msg_frame address_bytes routing_request_def)
  moreover have "sent_by ([ClientSend routing_request, ShowRaw ?res, ShowActivated] @ out) = routing_request # map diag_request client_requests"
    using out(2) by (simp add: sent_by_def)
  ultimately show ?thesis using s conn'
    by (intro exI [of _ "srv\<lparr>connections := (connections srv)(fd \<mapsto> conn')\<rparr>"] exI [of _ conn'] exI [of _ ?res]
        exI [of _ "[ClientSend routing_request, ShowRaw ?res, ShowActivated] @ out"]) simp
qed

theorem client_session_witness:
  "\<exists>res out. client_main True True (Some res) (replicate 6 None) = Some (0, out)
     \<and> sent_by out = routing_request # map diag_request client_requests"
  using client_session [OF demo_server_wf demo_server_conn(1), of "replicate 6 None"] by (auto simp: DoIpConnection_def)

text \<open>
  When the client reads out of bounds. For what fits its 4096-byte buffer, the client's
  handling of an answer is defined exactly unless it has more than eight bytes and announces a
  length within eight of \<open>2 ^ 32\<close>: then the 32-bit sum wraps, the check passes and the client
  prints about four gigabytes from behind its buffer.
\<close>

theorem client_shown_defined:
  assumes "length buf \<le> 4096"
  shows "uds_shown buf = None \<longleftrightarrow>
     8 < length buf \<and> 2 ^ 32 - 8 \<le> unat (join32 (buf ! 4) (buf ! 5) (buf ! 6) (buf ! 7))"
proof (cases "8 < length buf")
  case False
  then show ?thesis by (simp add: uds_shown_def)
next
  case True
  define w where "w = join32 (buf ! 4) (buf ! 5) (buf ! 6) (buf ! 7)"
  have w: "unat w < 2 ^ 32" by (rule unat_u32)
  have le: "5 \<le> w \<longleftrightarrow> 5 \<le> unat w" by (simp add: word_le_nat_alt)
  have eq: "uds_shown buf = (if unat (8 + w) \<le> length buf \<and> 5 \<le> w then map_option Some (rd_run buf 12 (unat (w - 4))) else Some None)"
    using True by (simp add: uds_shown_def rd_def ntohl_of_mem32 w_def Let_def)
  have sub: "unat (w - 4) = unat w - 4" if "5 \<le> unat w" using that by (simp add: unat_sub word_le_nat_alt)
  show ?thesis
  proof (cases "2 ^ 32 - 8 \<le> unat w")
    case wrap: True
    have "(8 + unat w) mod 2 ^ 32 = 8 + unat w - 2 ^ 32"
      using le_mod_geq [of "2 ^ 32" "8 + unat w"] wrap w by simp
    then have "unat (8 + w) = 8 + unat w - 2 ^ 32" by (simp add: unat_word_ariths)
    then have "unat (8 + w) \<le> length buf" using w True by simp
    moreover have "5 \<le> unat w" using wrap by simp
    ultimately show ?thesis using wrap True assms sub by (simp add: eq le rd_run_def w_def [symmetric])
  next
    case no: False
    then have "unat (8 + w) = 8 + unat w" using w by (simp add: unat_word_ariths)
    then show ?thesis using no True sub by (auto simp: eq le rd_run_def w_def [symmetric])
  qed
qed

theorem client_shown_defined_witness:
  "uds_shown ([0x02, 0xFD, 0x80, 0x01, 0xFF, 0xFF, 0xFF, 0xF9] @ replicate 8 0) = None"
  using client_shown_defined [of "[0x02, 0xFD, 0x80, 0x01, 0xFF, 0xFF, 0xFF, 0xF9] @ replicate 8 0"]
  by (simp add: join32_def)

end
