(* ===== verification/Cpp_Stream.thy ===== *)
theory Cpp_Stream
  imports Cpp_Text
begin

text \<open>
  Formatted output to a \<open>std::ostream\<close> in the C locale: the formatting state of a stream, the
  manipulators, and how strings, unsigned integers and doubles are written. A statement
  \<open>os << a << b\<close> is a list of items. The fill character is the blank: no code of the gateway
  changes it on a stream it shares. A printed double is the decimal number nearest to its exact
  value, ties to even, as the C library's \<open>printf\<close> conversions give it.
\<close>

section \<open>Decimal notation of doubles\<close>

text \<open>The ratio \<open>n / d\<close> divided by \<open>10 powi k\<close>, again as a ratio.\<close>

definition scale10 :: "nat \<Rightarrow> nat \<Rightarrow> int \<Rightarrow> nat \<times> nat" where
  "scale10 n d k = (if 0 \<le> k then (n, d * 10 ^ nat k) else (n * 10 ^ nat (- k), d))"

text \<open>The integer part of the decimal logarithm of \<open>n / d\<close>.\<close>

definition ilog10 :: "nat \<Rightarrow> nat \<Rightarrow> int" where
  "ilog10 n d =
     (let k = int (length (show_base 10 n)) - int (length (show_base 10 d)); (n', d') = scale10 n d k
      in if d' \<le> n' then k else k - 1)"

definition pad0 :: "nat \<Rightarrow> string \<Rightarrow> string" where
  "pad0 k s = replicate (k - length s) CHR ''0'' @ s"

definition strip0 :: "string \<Rightarrow> string" where
  "strip0 s = rev (dropWhile (\<lambda>c. c = CHR ''0'') (rev s))"

definition fraction :: "string \<Rightarrow> string" where
  "fraction s = (if s = [] then [] else CHR ''.'' # s)"

text \<open>The conversion \<open>f\<close> with \<open>p\<close> digits behind the point.\<close>

definition show_fixed :: "nat \<Rightarrow> nat \<Rightarrow> nat \<Rightarrow> string" where
  "show_fixed p n d =
     (let q = rne (n * 10 ^ p) d
      in show_base 10 (q div 10 ^ p) @ (if p = 0 then [] else CHR ''.'' # pad0 p (show_base 10 (q mod 10 ^ p))))"

text \<open>
  The first \<open>p\<close> significant digits of a positive ratio as a number \<open>q\<close>, and the decimal exponent
  of its first digit.
\<close>

definition significant :: "nat \<Rightarrow> nat \<Rightarrow> nat \<Rightarrow> nat \<times> int" where
  "significant p n d =
     (let x = ilog10 n d; (n', d') = scale10 n d (x - int p + 1); q = rne n' d'
      in if q = 10 ^ p then (10 ^ (p - 1), x + 1) else (q, x))"

definition show_exponent :: "int \<Rightarrow> string" where
  "show_exponent x = CHR ''e'' # (if x < 0 then CHR ''-'' else CHR ''+'') # pad0 2 (show_base 10 (nat \<bar>x\<bar>))"

text \<open>The conversion \<open>g\<close> with precision \<open>p\<close>.\<close>

definition show_general :: "nat \<Rightarrow> nat \<Rightarrow> nat \<Rightarrow> string" where
  "show_general p n d =
     (if n = 0 then ''0''
      else let p = max 1 p; (q, x) = significant p n d; ds = show_base 10 q in
        if - 4 \<le> x \<and> x < int p then
          (if 0 \<le> x then take (nat x + 1) ds @ fraction (strip0 (drop (nat x + 1) ds))
           else ''0'' @ fraction (replicate (nat (- x) - 1) CHR ''0'' @ strip0 ds))
        else take 1 ds @ fraction (strip0 (drop 1 ds)) @ show_exponent x)"

definition show_double :: "bool \<Rightarrow> nat \<Rightarrow> fp \<Rightarrow> string" where
  "show_double fixed p x =
     (case x of
        NaN s \<Rightarrow> (if s then ''-nan'' else ''nan'')
      | Inf s \<Rightarrow> (if s then ''-inf'' else ''inf'')
      | Fin s m e \<Rightarrow> (if s then ''-'' else []) @
          (let (n, d) = scale_ratio m 1 (- e) in if fixed then show_fixed p n d else show_general p n d))"

section \<open>Streams\<close>

record ostream =
  hexbase :: bool
  adjust_left :: bool
  float_fixed :: bool
  float_prec :: nat
  field_width :: nat
  written :: string

definition new_stream :: ostream where
  "new_stream = \<lparr>hexbase = False, adjust_left = False, float_fixed = False, float_prec = 6, field_width = 0, written = []\<rparr>"

datatype item = Str string | UInt nat | Dbl fp | Hex | Dec | AlignLeft | AlignRight | Fixed | SetPrecision nat | SetW nat

definition put_field :: "string \<Rightarrow> ostream \<Rightarrow> ostream" where
  "put_field s os =
     (let pad = replicate (field_width os - length s) CHR '' ''
      in os\<lparr>written := written os @ (if adjust_left os then s @ pad else pad @ s), field_width := 0\<rparr>)"

fun put_item :: "item \<Rightarrow> ostream \<Rightarrow> ostream" where
  "put_item (Str s) os = put_field s os"
| "put_item (UInt n) os = put_field (show_base (if hexbase os then 16 else 10) n) os"
| "put_item (Dbl x) os = put_field (show_double (float_fixed os) (float_prec os) x) os"
| "put_item Hex os = os\<lparr>hexbase := True\<rparr>"
| "put_item Dec os = os\<lparr>hexbase := False\<rparr>"
| "put_item AlignLeft os = os\<lparr>adjust_left := True\<rparr>"
| "put_item AlignRight os = os\<lparr>adjust_left := False\<rparr>"
| "put_item Fixed os = os\<lparr>float_fixed := True\<rparr>"
| "put_item (SetPrecision p) os = os\<lparr>float_prec := p\<rparr>"
| "put_item (SetW w) os = os\<lparr>field_width := w\<rparr>"

definition os_out :: "item list \<Rightarrow> ostream \<Rightarrow> ostream" where
  "os_out items os = fold put_item items os"

definition endl :: string where "endl = [CHR 0x0A]"

lemma out_simps [simp]: "os_out [] os = os" "os_out (i # is) os = os_out is (put_item i os)" "os_out (is @ js) os = os_out js (os_out is os)"
  by (simp_all add: os_out_def)

section \<open>Reading numbers back\<close>

text \<open>A decimal number as mantissa and exponent, and its value.\<close>

definition read_number :: "string \<Rightarrow> nat \<times> int" where
  "read_number s = (let (ds, k, r) = scan_mantissa 10 s in (digits_val 10 ds, scan_exponent (CHR ''e'') r - int k))"

definition number_value :: "string \<Rightarrow> real" where
  "number_value s = (case read_number s of (m, e) \<Rightarrow> real m * 10 powi e)"

lemma digits_val_foldl: "foldl (\<lambda>a c. b * a + the (digit_val c)) x ds = x * b ^ length ds + digits_val b ds"
  by (induction ds rule: rev_induct) (simp_all add: digits_val_def algebra_simps)

lemma digits_val_append: "digits_val b (xs @ ys) = digits_val b xs * b ^ length ys + digits_val b ys"
  using digits_val_foldl [of b "digits_val b xs" ys] by (simp add: digits_val_def)

lemma digit_val_0 [simp]: "digit_val (CHR ''0'') = Some 0"
  by (simp add: digit_val_def)

lemma digit_char_0 [simp]: "digit_char 0 = CHR ''0''"
  by code_simp

lemma digits_val_zeros [simp]: "digits_val b (replicate k CHR ''0'') = 0"
  by (induction k) (simp_all add: digits_val_def)

lemma is_digit_0 [simp]: "0 < b \<Longrightarrow> is_digit b (CHR ''0'')"
  by (simp add: is_digit_def)

lemma show_base_length:
  assumes "2 \<le> b" shows "n < b ^ length (show_base b n) \<and> (0 < n \<longrightarrow> b ^ (length (show_base b n) - 1) \<le> n)"
  using assms
proof (induction b n rule: show_base.induct)
  case (1 b n)
  show ?case
  proof (cases "n < b")
    case True
    with 1(2) show ?thesis by (simp add: show_base.simps [of b n])
  next
    case False
    let ?l = "length (show_base b (n div b))"
    have IH: "n div b < b ^ ?l" "0 < n div b \<Longrightarrow> b ^ (?l - 1) \<le> n div b" using 1 False by auto
    have pos: "0 < n div b" using False 1(2) by (simp add: div_greater_zero_iff)
    have l: "length (show_base b n) = Suc ?l" using False 1(2) by (simp add: show_base.simps [of b n])
    have "n < b * b ^ ?l" using IH(1) 1(2) by (simp add: div_less_iff_less_mult mult.commute)
    moreover have "b ^ ?l \<le> n"
    proof -
      have "0 < ?l" using IH(1) pos by (cases ?l) auto
      then have "b ^ ?l = b ^ (?l - 1) * b" by (cases ?l) auto
      also have "\<dots> \<le> n div b * b" using IH(2) [OF pos] by simp
      also have "\<dots> \<le> n" by simp
      finally show ?thesis .
    qed
    ultimately show ?thesis by (simp add: l)
  qed
qed

lemma scale10:
  assumes "0 < d" and "scale10 n d k = (n', d')"
  shows "0 < d'" and "real n' / real d' = real n / real d / 10 powi k"
  using assms by (auto simp: scale10_def power_int_def field_simps split: if_splits)

lemma powi_nat: "real (10 ^ k) = 10 powi int k"
  by simp

lemma powi_nat_pred: "0 < k \<Longrightarrow> real (10 ^ (k - 1)) = 10 powi (int k - 1)"
  using powi_nat [of "k - 1"] by (simp add: of_nat_diff)

lemma ilog10_bounds:
  assumes "0 < n" and "0 < d"
  shows "10 powi ilog10 n d \<le> real n / real d" and "real n / real d < 10 powi (ilog10 n d + 1)"
proof -
  let ?a = "length (show_base 10 n)" and ?b = "length (show_base 10 d)"
  define k where "k = int ?a - int ?b"
  obtain n' d' where sc: "scale10 n d k = (n', d')" by fastforce
  note s = scale10 [OF assms(2) sc]
  have l: "0 < ?a" "0 < ?b" using show_base_digits [of 10] by simp_all
  have N: "10 powi (int ?a - 1) \<le> real n" "real n < 10 powi int ?a"
    and D: "10 powi (int ?b - 1) \<le> real d" "real d < 10 powi int ?b"
  proof -
    have "real (10 ^ (?a - 1)) \<le> real n" "real n < real (10 ^ ?a)" "real (10 ^ (?b - 1)) \<le> real d" "real d < real (10 ^ ?b)"
      using show_base_length [of 10 n] show_base_length [of 10 d] assms by (simp_all only: of_nat_less_iff of_nat_le_iff)
    then show "10 powi (int ?a - 1) \<le> real n" "real n < 10 powi int ?a" "10 powi (int ?b - 1) \<le> real d" "real d < 10 powi int ?b"
      unfolding powi_nat_pred [OF l(1)] powi_nat_pred [OF l(2)] unfolding powi_nat by simp_all
  qed
  have lo: "10 powi (k - 1) \<le> real n / real d"
  proof -
    have "10 powi (k - 1) * real d \<le> 10 powi (k - 1) * 10 powi int ?b" using D(2) by (intro mult_left_mono) auto
    also have "\<dots> = 10 powi (k - 1 + int ?b)" by (rule power_int_add [symmetric]) simp
    also have "k - 1 + int ?b = int ?a - 1" by (simp add: k_def)
    finally show ?thesis using N(1) assms(2) by (simp add: pos_le_divide_eq)
  qed
  have hi: "real n / real d < 10 powi (k + 1)"
  proof -
    have "real n < 10 powi int ?a" by (rule N(2))
    also have "int ?a = k + 1 + (int ?b - 1)" by (simp add: k_def)
    also have "10 powi \<dots> = (10 :: real) powi (k + 1) * 10 powi (int ?b - 1)" by (rule power_int_add) simp
    also have "\<dots> \<le> 10 powi (k + 1) * real d" using D(1) by (intro mult_left_mono) auto
    finally show ?thesis using assms(2) by (simp add: pos_divide_less_eq)
  qed
  have cmp: "d' \<le> n' \<longleftrightarrow> 10 powi k \<le> real n / real d"
  proof -
    have "d' \<le> n' \<longleftrightarrow> 1 \<le> real n' / real d'" using s(1) by (simp add: pos_le_divide_eq)
    also have "\<dots> \<longleftrightarrow> 10 powi k \<le> real n / real d" unfolding s(2) by (subst pos_le_divide_eq) simp_all
    finally show ?thesis .
  qed
  have r: "ilog10 n d = (if d' \<le> n' then k else k - 1)" by (simp add: ilog10_def k_def [symmetric] sc Let_def)
  show "10 powi ilog10 n d \<le> real n / real d" "real n / real d < 10 powi (ilog10 n d + 1)"
    using r cmp lo hi by (auto split: if_splits)
qed

lemma rne_error: "0 < d \<Longrightarrow> \<bar>real (rne n d) - real n / real d\<bar> \<le> 1 / 2"
proof -
  assume d: "0 < d"
  have n: "real n = real d * real (n div d) + real (n mod d)" by (metis mult_div_mod_eq of_nat_add of_nat_mult)
  have "real n / real d = real (n div d) + real (n mod d) / real d" using d by (subst n) (simp add: field_simps)
  moreover have "0 \<le> real (n mod d) / real d" "real (n mod d) / real d \<le> 1" using d by (simp_all add: less_imp_le)
  moreover have "2 * (n mod d) \<le> d \<Longrightarrow> real (n mod d) / real d \<le> 1 / 2" using d by (simp add: field_simps)
  moreover have "d \<le> 2 * (n mod d) \<Longrightarrow> 1 / 2 \<le> real (n mod d) / real d" using d by (simp add: field_simps)
  ultimately show ?thesis unfolding rne_def Let_def by (cases "2 * (n mod d) < d \<or> (2 * (n mod d) = d \<and> even (n div d))") auto
qed

lemma rne_between:
  assumes "0 < d" shows "real a \<le> real n / real d \<Longrightarrow> a \<le> rne n d" and "real n / real d < real b \<Longrightarrow> rne n d \<le> b"
proof -
  have "real d * real a \<le> real n \<Longrightarrow> a \<le> n div d" for a
    by (metis assms less_eq_div_iff_mult_less_eq mult.commute of_nat_le_iff of_nat_mult)
  then show "real a \<le> real n / real d \<Longrightarrow> a \<le> rne n d"
    using assms by (force simp: rne_def Let_def pos_le_divide_eq mult.commute)
  assume "real n / real d < real b"
  then have "real n < real (b * d)" using assms by (simp add: pos_divide_less_eq)
  then have "n < b * d" by (simp only: of_nat_less_iff)
  then have "n div d < b" using assms by (simp add: div_less_iff_less_mult)
  then show "rne n d \<le> b" by (simp add: rne_def Let_def)
qed

text \<open>The significant digits: \<open>p\<close> of them, and within half a unit in the last place.\<close>

lemma significant:
  assumes "0 < n" and "0 < d" and "0 < p" and sig: "significant p n d = (q, x)"
  shows "10 ^ (p - 1) \<le> q" and "q < 10 ^ p"
    and "\<bar>real q * 10 powi (x - int p + 1) - real n / real d\<bar> \<le> real n / real d * (10 powi (1 - int p) / 2)"
proof -
  define x0 where "x0 = ilog10 n d"
  define u where "u = (10 :: real) powi (x0 - int p + 1)"
  obtain n' d' where sc: "scale10 n d (x0 - int p + 1) = (n', d')" by fastforce
  note s = scale10 [OF assms(2) sc]
  have u: "0 < u" "real n' / real d' = real n / real d / u" using s(2) by (simp_all add: u_def)
  note b = ilog10_bounds [OF assms(1,2), folded x0_def]
  have pm: "real (10 ^ (p - 1)) = 10 powi x0 / u" "real (10 ^ p) = 10 powi (x0 + 1) / u"
    unfolding powi_nat_pred [OF assms(3)] unfolding powi_nat u_def by (simp_all flip: power_int_diff)
  have lo: "10 ^ (p - 1) \<le> rne n' d'"
    by (rule rne_between(1) [OF s(1)]) (unfold pm(1) u(2), use b(1) u(1) in \<open>intro divide_right_mono, simp_all\<close>)
  have hi: "rne n' d' \<le> 10 ^ p"
    by (rule rne_between(2) [OF s(1)]) (unfold pm(2) u(2), use b(2) u(1) in \<open>intro divide_strict_right_mono, simp_all\<close>)
  have "\<bar>real (rne n' d') - real n / real d / u\<bar> \<le> 1 / 2" using rne_error [OF s(1), of n'] u(2) by simp
  then have "u * \<bar>real (rne n' d') - real n / real d / u\<bar> \<le> u * (1 / 2)" using u(1) by (intro mult_left_mono) simp_all
  moreover have "u * \<bar>real (rne n' d') - real n / real d / u\<bar> = \<bar>real (rne n' d') * u - real n / real d\<bar>"
  proof -
    have "real (rne n' d') * u - real n / real d = u * (real (rne n' d') - real n / real d / u)"
      using u(1) by (simp add: right_diff_distrib mult.commute)
    then show ?thesis using u(1) by (simp only: abs_mult)
  qed
  ultimately have "\<bar>real (rne n' d') * u - real n / real d\<bar> \<le> u / 2" by simp
  also have "u = 10 powi x0 * 10 powi (1 - int p)" by (subst power_int_add [symmetric]) (simp_all add: u_def algebra_simps)
  then have "u / 2 \<le> real n / real d * (10 powi (1 - int p) / 2)" using mult_right_mono [OF b(1), of "10 powi (1 - int p)"] by simp
  finally have err: "\<bar>real (rne n' d') * u - real n / real d\<bar> \<le> real n / real d * (10 powi (1 - int p) / 2)" .
  have qx: "(q, x) = (if rne n' d' = 10 ^ p then (10 ^ (p - 1), x0 + 1) else (rne n' d', x0))"
    using sig by (simp add: significant_def x0_def [symmetric] sc Let_def)
  then have "q * 10 ^ (if rne n' d' = 10 ^ p then 1 else 0) = rne n' d' \<and> x = (if rne n' d' = 10 ^ p then x0 + 1 else x0)"
    using power_minus_mult [OF assms(3), of "10 :: nat"] by (simp split: if_splits)
  moreover have "real (q * 10) * u = real q * 10 powi (x0 + 1 - int p + 1)"
  proof -
    have "10 powi (x0 + 1 - int p + 1) = 10 * u" using power_int_add_1 [of "10 :: real" "x0 - int p + 1"] by (simp add: u_def algebra_simps)
    then show ?thesis by simp
  qed
  ultimately have v: "real q * 10 powi (x - int p + 1) = real (rne n' d') * u"
    by (cases "rne n' d' = 10 ^ p") (simp_all add: u_def)
  show "10 ^ (p - 1) \<le> q" "q < 10 ^ p"
    using qx lo hi assms(3) by (auto split: if_splits)
  show "\<bar>real q * 10 powi (x - int p + 1) - real n / real d\<bar> \<le> real n / real d * (10 powi (1 - int p) / 2)"
    using err v by simp
qed

section \<open>What a printed number reads back as\<close>

lemma digits_val_strip0: "digits_val 10 s = digits_val 10 (strip0 s) * 10 ^ (length s - length (strip0 s)) \<and> length (strip0 s) \<le> length s"
proof (induction s rule: rev_induct)
  case (snoc c s)
  then show ?case
    by (cases "c = CHR ''0''") (simp_all add: strip0_def digits_val_append Suc_diff_le digits_val_def [of 10 "''0''"])
qed (simp add: strip0_def)

lemma strip0_digits: "\<forall>c\<in>set s. P c \<Longrightarrow> \<forall>c\<in>set (strip0 s). P c"
  by (auto simp: strip0_def dest: set_dropWhileD)

lemma no_point [simp]: "\<not> is_digit 10 CHR ''.''" "\<not> is_digit 10 CHR ''e''" "\<not> is_digit 10 CHR ''-''" "\<not> is_digit 10 CHR ''+''"
  by (simp_all add: is_digit_def digit_val_def)

text \<open>Digits, a fraction and an exponent part or nothing behind them.\<close>

lemma scan_mantissa_parts:
  assumes "\<forall>c\<in>set a. is_digit 10 c" and "\<forall>c\<in>set b. is_digit 10 c" and "r = [] \<or> (\<exists>t. r = CHR ''e'' # t)"
  shows "scan_mantissa 10 (a @ fraction b @ r) = (a @ b, length b, r)"
proof (cases "b = []")
  case True
  have "scan_digits 10 (a @ r) = (a, r)" using assms by (intro scan_digits_append) auto
  then show ?thesis using True assms(3) by (auto simp: scan_mantissa_def fraction_def split: list.splits)
next
  case False
  have "scan_digits 10 (a @ CHR ''.'' # b @ r) = (a, CHR ''.'' # b @ r)" using assms by (intro scan_digits_append) auto
  moreover have "scan_digits 10 (b @ r) = (b, r)" using assms by (intro scan_digits_append) auto
  ultimately show ?thesis using False by (simp add: scan_mantissa_def fraction_def)
qed

lemma pad0_digits:
  "(\<forall>c\<in>set (pad0 k (show_base 10 n)). is_digit 10 c) \<and> pad0 k (show_base 10 n) \<noteq> [] \<and> digits_val 10 (pad0 k (show_base 10 n)) = n"
  using show_base_digits [of 10 n] by (auto simp: pad0_def digits_val_append)

lemma scan_exponent_shown: "scan_exponent (CHR ''e'') (show_exponent x) = x"
proof -
  have "scan_digits 10 (pad0 2 (show_base 10 k)) = (pad0 2 (show_base 10 k), [])" for k
    using scan_digits_append [of "pad0 2 (show_base 10 k)" 10 "[]"] pad0_digits [of 2 k] by simp
  then show ?thesis using pad0_digits [of 2]
    by (simp add: scan_exponent_def show_exponent_def lower_def scan_sign_def)
qed

text \<open>A number with \<open>a\<close> before the point and a stripped fraction behind it.\<close>

lemma number_value_parts:
  assumes "\<forall>c\<in>set a. is_digit 10 c" and "\<forall>c\<in>set b. is_digit 10 c"
    and "r = [] \<and> x = 0 \<or> r = show_exponent x"
  shows "number_value (a @ fraction (strip0 b) @ r) = real (digits_val 10 (a @ b)) * 10 powi (x - int (length b))"
proof -
  define k where "k = length b - length (strip0 b)"
  note st = digits_val_strip0 [of b, folded k_def]
  have "read_number (a @ fraction (strip0 b) @ r) = (digits_val 10 (a @ strip0 b), x - int (length (strip0 b)))"
    using assms scan_mantissa_parts [OF assms(1) strip0_digits [OF assms(2)], of r] scan_exponent_shown [of x]
    by (auto simp: read_number_def show_exponent_def scan_exponent_def [of _ "[]"])
  moreover have "digits_val 10 (a @ b) = digits_val 10 (a @ strip0 b) * 10 ^ k"
    using st by (simp add: digits_val_append k_def algebra_simps flip: power_add)
  moreover have "x - int (length b) + int k = x - int (length (strip0 b))" using st by (simp add: k_def)
  then have "10 powi (x - int (length (strip0 b))) = (10 :: real) ^ k * 10 powi (x - int (length b))"
    by (metis mult.commute of_nat_numeral of_nat_power power_int_add powi_nat zero_neq_numeral)
  ultimately show ?thesis by (simp add: number_value_def)
qed

text \<open>The shape of a printed number, which makes it a number of JSON as well.\<close>

definition plain_number :: "string \<Rightarrow> bool" where
  "plain_number s \<longleftrightarrow> (\<exists>a b r. s = a @ fraction b @ r \<and> (\<forall>c\<in>set (a @ b). is_digit 10 c) \<and> a \<noteq> [] \<and> (a = ''0'' \<or> hd a \<noteq> CHR ''0'')
     \<and> (r = [] \<or> (\<exists>x. r = show_exponent x)))"

lemma plain_numberI:
  assumes "\<forall>c\<in>set a. is_digit 10 c" and "\<forall>c\<in>set b. is_digit 10 c" and "a \<noteq> []" and "a = ''0'' \<or> hd a \<noteq> CHR ''0''"
    and "r = [] \<or> r = show_exponent x"
  shows "plain_number (a @ fraction b @ r)"
  unfolding plain_number_def using assms by (intro exI [of _ a] exI [of _ b] exI [of _ r]) auto

lemma plain_numberE:
  assumes "plain_number s"
  obtains a b r x where "s = a @ fraction b @ r" and "\<forall>c\<in>set a. is_digit 10 c" and "\<forall>c\<in>set b. is_digit 10 c"
    and "a \<noteq> []" and "a = ''0'' \<or> hd a \<noteq> CHR ''0''" and "r = [] \<or> r = show_exponent x"
proof -
  obtain a b r where ab: "s = a @ fraction b @ r" "\<forall>c\<in>set (a @ b). is_digit 10 c" "a \<noteq> []" "a = ''0'' \<or> hd a \<noteq> CHR ''0''"
    "r = [] \<or> (\<exists>x. r = show_exponent x)" using assms unfolding plain_number_def by blast
  then obtain x where "r = [] \<or> r = show_exponent x" by blast
  with ab show ?thesis by (intro that [of a b r x]) auto
qed

lemma show_base_hd: "0 < n \<Longrightarrow> hd (show_base 10 n) \<noteq> CHR ''0''"
proof (induction "10 :: nat" n rule: show_base.induct)
  case (1 n)
  show ?case
  proof (cases "n < 10")
    case True
    then have "digit_val (digit_char n) = Some n" by simp
    with 1(2) have "digit_char n \<noteq> CHR ''0''" by auto
    then show ?thesis using True by (simp add: show_base.simps [of 10 n])
  next
    case False
    then have "0 < n div 10" by simp
    with 1(1) False have "hd (show_base 10 (n div 10)) \<noteq> CHR ''0''" by simp
    then show ?thesis using False show_base_digits [of 10 "n div 10"] by (simp add: show_base.simps [of 10 n])
  qed
qed

lemma show_nat_plain: "plain_number (show_base 10 n)"
proof -
  have "show_base 10 n = ''0'' \<or> hd (show_base 10 n) \<noteq> CHR ''0''"
    using show_base_hd [of n] by (cases "n = 0") (simp_all add: show_base.simps [of 10 0])
  then show ?thesis using plain_numberI [of "show_base 10 n" "[]" "[]" 0] show_base_digits [of 10 n] by (simp add: fraction_def)
qed

lemma show_nat_value: "number_value (show_base 10 n) = real n"
  using number_value_parts [of "show_base 10 n" "[]" "[]" 0] show_base_digits [of 10 n] by (simp add: fraction_def strip0_def)

lemma strip0_Nil: "strip0 s = [] \<Longrightarrow> digits_val 10 s = 0"
  using digits_val_strip0 [of s] by (simp add: digits_val_def)

lemma strip0_append: "strip0 s \<noteq> [] \<Longrightarrow> strip0 (t @ s) = t @ strip0 s"
  by (auto simp: strip0_def dropWhile_append)

text \<open>
  The conversion \<open>g\<close> is a number in the grammar above, whose value is the significant digits.
\<close>

lemma show_general_reads:
  assumes "0 < n" and "0 < d" and sig: "significant (max 1 p) n d = (q, x)"
  shows "plain_number (show_general p n d)" and "number_value (show_general p n d) = real q * 10 powi (x - int (max 1 p) + 1)"
proof -
  let ?p = "max 1 p" and ?ds = "show_base 10 q"
  have P: "0 < ?p" by simp
  note q = significant(1,2) [OF assms(1,2) P sig]
  have q0: "0 < q" using q(1) by (metis gr0I le_zero_eq power_not_zero zero_neq_numeral)
  have ds: "\<forall>c\<in>set ?ds. is_digit 10 c" "?ds \<noteq> []" "digits_val 10 ?ds = q" "hd ?ds \<noteq> CHR ''0''"
    using show_base_digits [of 10 q] show_base_hd [OF q0] by simp_all
  have len: "length ?ds = ?p"
  proof -
    have b: "q < 10 ^ length ?ds" "10 ^ (length ?ds - 1) \<le> q" using show_base_length [of 10 q] q0 by simp_all
    have "10 ^ (?p - 1) < (10 :: nat) ^ length ?ds" "10 ^ (length ?ds - 1) < (10 :: nat) ^ ?p" using b q by linarith+
    then have "?p - 1 < length ?ds" "length ?ds - 1 < ?p" by (auto intro: power_less_imp_less_exp [of "10 :: nat"])
    then show ?thesis by linarith
  qed
  have parts: "\<forall>c\<in>set (take k ?ds). is_digit 10 c" "\<forall>c\<in>set (drop k ?ds). is_digit 10 c" for k
    using ds(1) by (auto dest: in_set_takeD in_set_dropD)
  have hd_take: "take (Suc k) ?ds \<noteq> []" "hd (take (Suc k) ?ds) \<noteq> CHR ''0''" for k
    using ds(2,4) by (cases ?ds; simp)+
  have sg: "show_general p n d = (if - 4 \<le> x \<and> x < int ?p then
          (if 0 \<le> x then take (nat x + 1) ?ds @ fraction (strip0 (drop (nat x + 1) ?ds))
           else ''0'' @ fraction (replicate (nat (- x) - 1) CHR ''0'' @ strip0 ?ds))
        else take 1 ?ds @ fraction (strip0 (drop 1 ?ds)) @ show_exponent x)"
    using assms(1) sig by (simp add: show_general_def Let_def)
  consider (point) "0 \<le> x" "x < int ?p" | (small) "-4 \<le> x" "x < 0" | (expo) "x < -4 \<or> int ?p \<le> x" by linarith
  then have "plain_number (show_general p n d) \<and> number_value (show_general p n d) = real q * 10 powi (x - int ?p + 1)"
  proof cases
    case point
    let ?a = "take (Suc (nat x)) ?ds" and ?b = "drop (Suc (nat x)) ?ds"
    have s: "show_general p n d = ?a @ fraction (strip0 ?b) @ []" using point sg by simp
    have e: "0 - int (length ?b) = x - int ?p + 1" using point len by simp
    have "number_value (show_general p n d) = real (digits_val 10 (?a @ ?b)) * 10 powi (0 - int (length ?b))"
      unfolding s by (rule number_value_parts) (use parts in auto)
    then have "number_value (show_general p n d) = real q * 10 powi (x - int ?p + 1)"
      unfolding e append_take_drop_id ds(3) .
    moreover have "plain_number (show_general p n d)"
      unfolding s by (rule plain_numberI) (use parts strip0_digits [OF parts(2)] hd_take in auto)
    ultimately show ?thesis by simp
  next
    case small
    let ?z = "replicate (nat (- x) - 1) CHR ''0''"
    have "strip0 ?ds \<noteq> []" using strip0_Nil [of ?ds] ds(3) q0 by auto
    then have st: "?z @ strip0 ?ds = strip0 (?z @ ?ds)" by (simp add: strip0_append)
    have s: "show_general p n d = ''0'' @ fraction (strip0 (?z @ ?ds)) @ []" using small sg st by simp
    have zd: "\<forall>c\<in>set (?z @ ?ds). is_digit 10 c" using ds(1) by auto
    have e: "0 - int (length (?z @ ?ds)) = x - int ?p + 1" using small len by simp
    have v: "digits_val 10 (''0'' @ ?z @ ?ds) = q" using ds(3) digits_val_zeros [of 10 1] digits_val_append [of 10 "''0''" "?z @ ?ds"] digits_val_append [of 10 ?z ?ds] by simp
    have "number_value (show_general p n d) = real (digits_val 10 (''0'' @ ?z @ ?ds)) * 10 powi (0 - int (length (?z @ ?ds)))"
      unfolding s by (rule number_value_parts [OF _ zd]) auto
    then have "number_value (show_general p n d) = real q * 10 powi (x - int ?p + 1)" unfolding e v .
    moreover have "plain_number (show_general p n d)" unfolding s by (rule plain_numberI) (use strip0_digits [OF zd] in auto)
    ultimately show ?thesis by simp
  next
    case expo
    let ?a = "take (Suc 0) ?ds" and ?b = "drop (Suc 0) ?ds"
    have s: "show_general p n d = ?a @ fraction (strip0 ?b) @ show_exponent x"
    proof -
      have "\<not> (- 4 \<le> x \<and> x < int ?p)" using expo by linarith
      then show ?thesis unfolding sg by (simp only: if_False) simp
    qed
    have e: "x - int (length ?b) = x - int ?p + 1" using len by simp
    have "number_value (show_general p n d) = real (digits_val 10 (?a @ ?b)) * 10 powi (x - int (length ?b))"
      unfolding s by (rule number_value_parts) (use parts in auto)
    then have "number_value (show_general p n d) = real q * 10 powi (x - int ?p + 1)"
      unfolding e append_take_drop_id ds(3) .
    moreover have "plain_number (show_general p n d)"
      unfolding s by (rule plain_numberI) (use parts strip0_digits [OF parts(2)] hd_take in auto)
    ultimately show ?thesis by simp
  qed
  then show "plain_number (show_general p n d)" "number_value (show_general p n d) = real q * 10 powi (x - int ?p + 1)" by simp_all
qed

lemma fval_ratio: "scale_ratio m 1 (- e) = (n, d) \<Longrightarrow> fval (Fin False m e) = real n / real d"
  using scale_ratio(2) [of 1 m "- e" n d] by (simp add: fval_def power_int_minus divide_inverse)

text \<open>
  A finite nonnegative double in the default notation: at least one digit, at most \<open>p\<close>
  significant ones, and the value read back is off by at most half a unit of the last of them.
\<close>

lemma show_general_double:
  assumes "0 < p"
  shows "plain_number (show_double False p (Fin False m e))"
    and "\<bar>number_value (show_double False p (Fin False m e)) - fval (Fin False m e)\<bar> \<le> fval (Fin False m e) * (10 powi (1 - int p) / 2)"
proof -
  obtain n d where nd: "scale_ratio m 1 (- e) = (n, d)" by fastforce
  note sc = scale_ratio(1) [OF _ nd, simplified] and v = fval_ratio [OF nd]
  have s: "show_double False p (Fin False m e) = show_general p n d" by (simp add: show_double_def nd del: One_nat_def)
  have "plain_number (show_general p n d) \<and> \<bar>number_value (show_general p n d) - real n / real d\<bar> \<le> real n / real d * (10 powi (1 - int p) / 2)"
  proof (cases "n = 0")
    case True
    moreover have "show_base 10 0 = ''0''" by (simp add: show_base.simps)
    ultimately show ?thesis using show_nat_plain [of 0] show_nat_value [of 0] by (simp add: show_general_def)
  next
    case False
    obtain q x where sig: "significant p n d = (q, x)" by fastforce
    have "max 1 p = p" using assms by simp
    with show_general_reads [of n d p q x] significant(3) [of n d p q x] sig False sc assms show ?thesis by simp
  qed
  then show "plain_number (show_double False p (Fin False m e))"
    "\<bar>number_value (show_double False p (Fin False m e)) - fval (Fin False m e)\<bar> \<le> fval (Fin False m e) * (10 powi (1 - int p) / 2)"
    using s v by simp_all
qed

text \<open>In fixed notation the value read back is off by at most half a unit of the last digit shown.\<close>

lemma show_fixed_double:
  assumes "0 < p"
  shows "\<bar>number_value (show_double True p (Fin False m e)) - fval (Fin False m e)\<bar> \<le> 1 / (2 * 10 ^ p)"
    and "\<forall>c\<in>set (show_double True p (Fin False m e)). is_digit 10 c \<or> c = CHR ''.''"
proof -
  obtain n d where nd: "scale_ratio m 1 (- e) = (n, d)" by fastforce
  note sc = scale_ratio(1) [OF _ nd, simplified] and v = fval_ratio [OF nd]
  define q where "q = rne (n * 10 ^ p) d"
  let ?a = "show_base 10 (q div 10 ^ p)" and ?b = "pad0 p (show_base 10 (q mod 10 ^ p))"
  have b: "\<forall>c\<in>set ?a. is_digit 10 c" "\<forall>c\<in>set ?b. is_digit 10 c" "?b \<noteq> []" "digits_val 10 ?a = q div 10 ^ p" "digits_val 10 ?b = q mod 10 ^ p"
    using pad0_digits [of p "q mod 10 ^ p"] show_base_digits [of 10 "q div 10 ^ p"] by simp_all
  have len: "length ?b = p"
  proof -
    let ?l = "length (show_base 10 (q mod 10 ^ p))"
    have "?l \<le> p"
    proof (cases "q mod 10 ^ p = 0")
      case True
      then show ?thesis using assms by (simp add: show_base.simps)
    next
      case False
      then have "10 ^ (?l - 1) \<le> q mod 10 ^ p" using show_base_length [of 10 "q mod 10 ^ p"] by simp
      also have "\<dots> < 10 ^ p" by simp
      finally show ?thesis using power_less_imp_less_exp [of "10 :: nat" "?l - 1" p] by simp
    qed
    then show ?thesis by (simp add: pad0_def)
  qed
  have s: "show_double True p (Fin False m e) = ?a @ fraction ?b @ []"
    using assms b(3) by (simp add: show_double_def nd show_fixed_def q_def Let_def fraction_def del: One_nat_def)
  have "read_number (show_double True p (Fin False m e)) = (q, - int p)"
    unfolding s read_number_def scan_mantissa_parts [OF b(1,2), of "[]", simplified] append_Nil2 using len b(4,5)
    by (simp add: scan_mantissa_parts [OF b(1,2), of "[]", simplified] digits_val_append scan_exponent_def div_mult_mod_eq)
  then have nv: "number_value (show_double True p (Fin False m e)) = real q / 10 ^ p"
    by (simp add: number_value_def power_int_minus field_simps)
  have "\<bar>real q - real (n * 10 ^ p) / real d\<bar> \<le> 1 / 2" unfolding q_def by (rule rne_error [OF sc])
  then have "\<bar>(real q / 10 ^ p - real n / real d) * 10 ^ p\<bar> \<le> 1 / 2" by (simp add: left_diff_distrib)
  then have "\<bar>real q / 10 ^ p - real n / real d\<bar> * 10 ^ p \<le> 1 / 2" by (simp only: abs_mult power_abs abs_numeral)
  then have "\<bar>real q / 10 ^ p - real n / real d\<bar> \<le> 1 / 2 / 10 ^ p" by (subst pos_le_divide_eq) simp_all
  then show "\<bar>number_value (show_double True p (Fin False m e)) - fval (Fin False m e)\<bar> \<le> 1 / (2 * 10 ^ p)"
    unfolding nv v by simp
  show "\<forall>c\<in>set (show_double True p (Fin False m e)). is_digit 10 c \<or> c = CHR ''.''" unfolding s using b by (auto simp: fraction_def)
qed

end
