(* ===== verification/Json.thy ===== *)
theory Json
  imports Cpp_Stream
begin

text \<open>
  A reader for the JSON texts of the statistics report (RFC 8259 without arrays, string values
  and escapes): objects, member names and numbers, with blanks between the tokens. It is the
  specification the reporter's output is measured against.
\<close>

section \<open>The reader\<close>

datatype json = JNum string | JObj "(string \<times> json) list"

definition jblank :: "char \<Rightarrow> bool" where
  "jblank c \<longleftrightarrow> c = CHR '' '' \<or> c = CHR 0x09 \<or> c = CHR 0x0A \<or> c = CHR 0x0D"

definition jskip :: "string \<Rightarrow> string" where
  "jskip s = dropWhile jblank s"

definition jchar :: "char \<Rightarrow> bool" where
  "jchar c \<longleftrightarrow> c \<noteq> CHR 0x22 \<and> c \<noteq> CHR 0x5C \<and> (32 :: nat) \<le> of_char c"

definition jname :: "string \<Rightarrow> (string \<times> string) option" where
  "jname s =
     (case s of
        [] \<Rightarrow> None
      | c # r \<Rightarrow>
          (let name = takeWhile jchar r; rest = dropWhile jchar r
           in if c = CHR 0x22 \<and> rest \<noteq> [] \<and> hd rest = CHR 0x22 then Some (name, tl rest) else None))"

text \<open>The grammar of numbers: no leading zeros, digits on both sides of the point.\<close>

definition jfrac :: "string \<Rightarrow> string option" where
  "jfrac s =
     (case s of
        [] \<Rightarrow> Some []
      | c # r \<Rightarrow>
          if c = CHR ''.'' then (let (ds, rest) = scan_digits 10 r in if ds = [] then None else Some rest)
          else Some s)"

definition jexp :: "string \<Rightarrow> string option" where
  "jexp s =
     (case s of
        [] \<Rightarrow> Some []
      | c # r \<Rightarrow>
          if lower c = CHR ''e'' then (let (ds, rest) = scan_digits 10 (snd (scan_sign r)) in if ds = [] then None else Some rest)
          else Some s)"

definition jnumber :: "string \<Rightarrow> (string \<times> string) option" where
  "jnumber s = do {
     let t = (if s \<noteq> [] \<and> hd s = CHR ''-'' then tl s else s);
     let (ds, r) = scan_digits 10 t;
     if ds = [] \<or> (hd ds = CHR ''0'' \<and> 1 < length ds) then None
     else do {
       r \<leftarrow> jfrac r;
       r \<leftarrow> jexp r;
       Some (take (length s - length r) s, r) } }"

text \<open>Values and member lists; the fuel bounds the nesting and the number of members.\<close>

fun jvalue :: "nat \<Rightarrow> string \<Rightarrow> (json \<times> string) option"
  and jmembers :: "nat \<Rightarrow> string \<Rightarrow> ((string \<times> json) list \<times> string) option" where
  "jvalue 0 s = None"
| "jvalue (Suc k) s =
     (let t = jskip s in
      if t \<noteq> [] \<and> hd t = CHR ''{'' then
        (let u = jskip (tl t) in
         if u \<noteq> [] \<and> hd u = CHR ''}'' then Some (JObj [], tl u)
         else do { (ms, r) \<leftarrow> jmembers k (tl t); Some (JObj ms, r) })
      else do { (n, r) \<leftarrow> jnumber t; Some (JNum n, r) })"
| "jmembers 0 s = None"
| "jmembers (Suc k) s = do {
     (name, r) \<leftarrow> jname (jskip s);
     let r = jskip r;
     if r \<noteq> [] \<and> hd r = CHR '':'' then do {
       (v, r) \<leftarrow> jvalue k (tl r);
       let r = jskip r;
       if r \<noteq> [] \<and> hd r = CHR '','' then do { (ms, r) \<leftarrow> jmembers k (tl r); Some ((name, v) # ms, r) }
       else if r \<noteq> [] \<and> hd r = CHR ''}'' then Some ([(name, v)], tl r)
       else None }
     else None }"

definition read_json :: "string \<Rightarrow> json option" where
  "read_json s = (case jvalue (length s) s of Some (v, r) \<Rightarrow> if jskip r = [] then Some v else None | None \<Rightarrow> None)"

section \<open>Reading printed tokens\<close>

lemma jskip_blanks: "\<forall>c\<in>set w. jblank c \<Longrightarrow> jskip (w @ s) = jskip s"
  by (simp add: jskip_def dropWhile_append)

lemma jskip_id: "s = [] \<or> \<not> jblank (hd s) \<Longrightarrow> jskip s = s"
  by (cases s) (auto simp: jskip_def)

lemma jname_read: "\<forall>c\<in>set name. jchar c \<Longrightarrow> jname (CHR 0x22 # name @ CHR 0x22 # r) = Some (name, r)"
  by (simp add: jname_def takeWhile_append dropWhile_append jchar_def)

definition ends_number :: "string \<Rightarrow> bool" where
  "ends_number r \<longleftrightarrow> r = [] \<or> (\<not> is_digit 10 (hd r) \<and> hd r \<noteq> CHR ''.'' \<and> lower (hd r) \<noteq> CHR ''e'')"

lemma jexp_read: "r = [] \<or> r = show_exponent x \<Longrightarrow> ends_number t \<Longrightarrow> jexp (r @ t) = Some t"
proof (elim disjE)
  assume "ends_number t" and "r = []"
  then show ?thesis by (cases t) (auto simp: jexp_def ends_number_def)
next
  assume t: "ends_number t" and r: "r = show_exponent x"
  have "scan_digits 10 (pad0 2 (show_base 10 k) @ t) = (pad0 2 (show_base 10 k), t)" for k
    using pad0_digits [of 2 k] t by (intro scan_digits_append) (auto simp: ends_number_def)
  then show ?thesis using pad0_digits [of 2] by (simp add: r show_exponent_def jexp_def lower_def scan_sign_def)
qed

lemma jfrac_read:
  assumes "\<forall>c\<in>set b. is_digit 10 c" and "u = [] \<or> (\<not> is_digit 10 (hd u) \<and> hd u \<noteq> CHR ''.'')"
  shows "jfrac (fraction b @ u) = Some u"
proof (cases "b = []")
  case True
  then show ?thesis using assms(2) by (cases u) (simp_all add: fraction_def jfrac_def)
next
  case False
  have "scan_digits 10 (b @ u) = (b, u)" using assms by (intro scan_digits_append) auto
  then show ?thesis using False by (simp add: fraction_def jfrac_def)
qed

lemma jnumber_read:
  assumes "plain_number s" and "ends_number t"
  shows "jnumber (s @ t) = Some (s, t)"
proof -
  obtain a b r x where s: "s = a @ fraction b @ r" and ab: "\<forall>c\<in>set a. is_digit 10 c" "\<forall>c\<in>set b. is_digit 10 c"
    and a: "a \<noteq> []" "a = ''0'' \<or> hd a \<noteq> CHR ''0''" and r: "r = [] \<or> r = show_exponent x"
    using assms(1) by (rule plain_numberE)
  have u: "r @ t = [] \<or> (\<not> is_digit 10 (hd (r @ t)) \<and> hd (r @ t) \<noteq> CHR ''.'')"
    using r assms(2) by (auto simp: show_exponent_def ends_number_def)
  have fu: "fraction b @ r @ t = [] \<or> \<not> is_digit 10 (hd (fraction b @ r @ t))" using u by (auto simp: fraction_def)
  have "scan_digits 10 (a @ fraction b @ r @ t) = (a, fraction b @ r @ t)" using ab(1) fu by (rule scan_digits_append)
  moreover have "hd a \<noteq> CHR ''-''" using ab(1) a(1) by (cases a) auto
  moreover have "\<not> (hd a = CHR ''0'' \<and> 1 < length a)" using a by auto
  ultimately show ?thesis using a(1) jfrac_read [OF ab(2) u] jexp_read [OF r assms(2)]
    by (simp add: jnumber_def s)
qed

section \<open>Texts of a value\<close>

text \<open>
  When a text is a rendering of a value: objects with any blanks between the tokens. The closing
  brace belongs to the members.
\<close>

definition blanks :: "string \<Rightarrow> bool" where
  "blanks w \<longleftrightarrow> (\<forall>c\<in>set w. jblank c)"

definition member_text :: "string \<Rightarrow> string \<Rightarrow> string \<Rightarrow> string \<Rightarrow> string \<Rightarrow> string" where
  "member_text w1 name w2 s w3 = w1 @ CHR 0x22 # name @ CHR 0x22 # CHR '':'' # w2 @ s @ w3"

inductive renders :: "json \<Rightarrow> string \<Rightarrow> bool" and renders_members :: "(string \<times> json) list \<Rightarrow> string \<Rightarrow> bool" where
  render_num: "plain_number s \<Longrightarrow> renders (JNum s) s"
| render_empty: "blanks w \<Longrightarrow> renders (JObj []) (CHR ''{'' # w @ ''}'')"
| render_obj: "renders_members ms s \<Longrightarrow> renders (JObj ms) (CHR ''{'' # s)"
| render_last: "renders v s \<Longrightarrow> \<forall>c\<in>set name. jchar c \<Longrightarrow> blanks w1 \<Longrightarrow> blanks w2 \<Longrightarrow> blanks w3 \<Longrightarrow>
     renders_members [(name, v)] (member_text w1 name w2 s w3 @ ''}'')"
| render_more: "renders v s \<Longrightarrow> \<forall>c\<in>set name. jchar c \<Longrightarrow> blanks w1 \<Longrightarrow> blanks w2 \<Longrightarrow> blanks w3 \<Longrightarrow>
     renders_members ms u \<Longrightarrow> renders_members ((name, v) # ms) (member_text w1 name w2 s w3 @ CHR '','' # u)"

lemma no_blank [simp]: "\<not> jblank CHR ''{''" "\<not> jblank CHR ''}''" "\<not> jblank CHR 0x22" "\<not> jblank CHR '':''" "\<not> jblank CHR '',''"
  by (simp_all add: jblank_def)

lemma digit_no_token: "is_digit 10 c \<Longrightarrow> \<not> jblank c \<and> c \<noteq> CHR ''{''"
  by (auto simp: is_digit_def digit_val_def jblank_def Let_def split: if_splits)

lemma jskip_token: "blanks w \<Longrightarrow> \<not> jblank c \<Longrightarrow> jskip (w @ c # r) = c # r"
  by (simp add: blanks_def jskip_blanks jskip_id)

lemma plain_number_hd: "plain_number s \<Longrightarrow> s \<noteq> [] \<and> is_digit 10 (hd s)"
  by (erule plain_numberE) (auto simp: neq_Nil_conv)

lemma blank_ends: "jblank c \<Longrightarrow> \<not> is_digit 10 c \<and> c \<noteq> CHR ''.'' \<and> lower c \<noteq> CHR ''e''"
  unfolding jblank_def by (elim disjE) (simp_all add: is_digit_def digit_val_def lower_def)

lemma separator_ends:
  "\<not> is_digit 10 CHR '',''" "lower CHR '','' \<noteq> CHR ''e''" "\<not> is_digit 10 CHR ''}''" "lower CHR ''}'' \<noteq> CHR ''e''"
  by (simp_all add: is_digit_def digit_val_def lower_def)

lemma blanks_end: "blanks w \<Longrightarrow> w \<noteq> [] \<or> c \<in> {CHR '','', CHR ''}''} \<Longrightarrow> ends_number (w @ c # r)"
proof (cases w)
  case Nil
  assume "w \<noteq> [] \<or> c \<in> {CHR '','', CHR ''}''}"
  with Nil show ?thesis by (auto simp: ends_number_def separator_ends)
next
  case (Cons d v)
  assume "blanks w"
  with Cons show ?thesis by (simp add: blanks_def ends_number_def blank_ends)
qed

lemma member_prefix:
  assumes "\<forall>c\<in>set name. jchar c" and "blanks w1"
  shows "jname (jskip (member_text w1 name w2 s w3 @ r)) = Some (name, CHR '':'' # w2 @ s @ w3 @ r)"
  using jskip_token [OF assms(2), of "CHR 0x22"] jname_read [OF assms(1), of "CHR '':'' # w2 @ s @ w3 @ r"]
  by (simp add: member_text_def)

text \<open>Every rendering is read back, in any context and with fuel for its length.\<close>

lemma renders_read:
  "renders v s \<Longrightarrow> \<forall>k w t. length s \<le> k \<longrightarrow> blanks w \<longrightarrow> ends_number t \<longrightarrow> jvalue k (w @ s @ t) = Some (v, t)"
  "renders_members ms s \<Longrightarrow> (\<forall>k t. length s \<le> k \<longrightarrow> jmembers k (s @ t) = Some (ms, t)) \<and> (\<forall>t. jskip (s @ t) \<noteq> [] \<and> hd (jskip (s @ t)) = CHR 0x22)"
proof (induction rule: renders_renders_members.inducts)
  case (render_num s)
  show ?case
  proof (intro allI impI)
    fix k w t assume k: "length s \<le> k" and w: "blanks w" and t: "ends_number t"
    obtain c r where s: "s = c # r" and c: "is_digit 10 c" using plain_number_hd [OF render_num] by (cases s) auto
    then obtain k' where k': "k = Suc k'" using k by (cases k) auto
    have "jskip (w @ s @ t) = s @ t" using jskip_token [OF w, of c "r @ t"] digit_no_token [OF c] s by simp
    then show "jvalue k (w @ s @ t) = Some (JNum s, t)"
      using jnumber_read [OF render_num t] digit_no_token [OF c] s k' by simp
  qed
next
  case (render_empty w0)
  show ?case
  proof (intro allI impI)
    fix k w t assume k: "length (CHR ''{'' # w0 @ ''}'') \<le> k" and w: "blanks w"
    then obtain k' where k': "k = Suc k'" by (cases k) auto
    show "jvalue k (w @ (CHR ''{'' # w0 @ ''}'') @ t) = Some (JObj [], t)"
      using jskip_token [OF w, of "CHR ''{''"] jskip_token [OF render_empty, of "CHR ''}''"] by (simp add: k')
  qed
next
  case (render_obj ms s)
  show ?case
  proof (intro allI impI)
    fix k w t assume k: "length (CHR ''{'' # s) \<le> k" and w: "blanks w"
    then obtain k' where k': "k = Suc k'" "length s \<le> k'" by (cases k) auto
    have "hd (jskip (s @ t)) \<noteq> CHR ''}''" using render_obj.IH by auto
    moreover have "jmembers k' (s @ t) = Some (ms, t)" using render_obj.IH k'(2) by blast
    ultimately show "jvalue k (w @ (CHR ''{'' # s) @ t) = Some (JObj ms, t)"
      using jskip_token [OF w, of "CHR ''{''"] by (simp add: k'(1))
  qed
next
  case (render_last v s name w1 w2 w3)
  note pre = member_prefix [OF render_last(2,3)]
  have "jmembers k ((member_text w1 name w2 s w3 @ ''}'') @ t) = Some ([(name, v)], t)"
    if k: "length (member_text w1 name w2 s w3 @ ''}'') \<le> k" for k t
  proof -
    obtain k' where k': "k = Suc k'" "length s \<le> k'" using k by (cases k) (auto simp: member_text_def)
    have "ends_number (w3 @ CHR ''}'' # t)" by (rule blanks_end [OF render_last(5)]) simp
    with render_last.IH k'(2) render_last(4) have v: "jvalue k' (w2 @ s @ w3 @ CHR ''}'' # t) = Some (v, w3 @ CHR ''}'' # t)" by blast
    show ?thesis using pre [of w2 s w3 "CHR ''}'' # t"] v jskip_token [OF render_last(5), of "CHR ''}''" t] by (simp add: k' jskip_id)
  qed
  moreover have "jskip (member_text w1 name w2 s w3 @ t) = CHR 0x22 # name @ CHR 0x22 # CHR '':'' # w2 @ s @ w3 @ t" for t
    using jskip_token [OF render_last(3), of "CHR 0x22"] by (simp add: member_text_def)
  ultimately show ?case by simp
next
  case (render_more v s name w1 w2 w3 ms u)
  note pre = member_prefix [OF render_more(2,3)]
  have "jmembers k ((member_text w1 name w2 s w3 @ CHR '','' # u) @ t) = Some ((name, v) # ms, t)"
    if k: "length (member_text w1 name w2 s w3 @ CHR '','' # u) \<le> k" for k t
  proof -
    obtain k' where k': "k = Suc k'" "length s \<le> k'" "length u \<le> k'" using k by (cases k) (auto simp: member_text_def)
    have "ends_number (w3 @ CHR '','' # u @ t)" by (rule blanks_end [OF render_more(5)]) simp
    with render_more.IH(1) k'(2) render_more(4)
    have v: "jvalue k' (w2 @ s @ w3 @ CHR '','' # u @ t) = Some (v, w3 @ CHR '','' # u @ t)" by blast
    have "jmembers k' (u @ t) = Some (ms, t)" using render_more.IH(2) k'(3) by blast
    then show ?thesis using pre [of w2 s w3 "CHR '','' # u @ t"] v jskip_token [OF render_more(5), of "CHR '',''" "u @ t"] by (simp add: k' jskip_id)
  qed
  moreover have "jskip (member_text w1 name w2 s w3 @ t) = CHR 0x22 # name @ CHR 0x22 # CHR '':'' # w2 @ s @ w3 @ t" for t
    using jskip_token [OF render_more(3), of "CHR 0x22"] by (simp add: member_text_def)
  ultimately show ?case by simp
qed

theorem read_json_renders:
  assumes "renders v s" and "blanks w" shows "read_json (s @ w) = Some v"
proof -
  have "ends_number w" using assms(2) by (cases w) (simp_all add: blanks_def ends_number_def blank_ends)
  moreover have "jskip w = []" using assms(2) by (simp add: jskip_def blanks_def)
  ultimately show ?thesis using renders_read(1) [OF assms(1), rule_format, of "length (s @ w)" "[]" w] by (simp add: read_json_def blanks_def)
qed

end
