(* ===== verification/Stats_Reporter.thy ===== *)
theory Stats_Reporter
  imports Benchmark Json
begin

text \<open>
  The statistics reporter (\<^verbatim>\<open>src/utils/stats_reporter.hpp\<close>, \<^verbatim>\<open>stats_reporter.cpp\<close>):
  the latency table on the console and the JSON report. The order in which a loop over the
  collector's hash table meets its entries is an argument, \<open>iter\<close>; \<open>W\<close> is the width of \<open>size_t\<close>.
  The console is a stream whose formatting state outlives the report. The box-drawing characters
  are their three UTF-8 bytes.
\<close>

section \<open>Names of the events\<close>

type_synonym iteration = "(string \<rightharpoonup> histogram) \<Rightarrow> (string \<times> histogram) list"

definition event_names :: "iteration \<Rightarrow> collector \<Rightarrow> string list" where
  "event_names iter c = map fst (iter (histograms c))"

text \<open>A loop over a map meets every entry exactly once.\<close>

definition iterates :: "iteration \<Rightarrow> (string \<rightharpoonup> histogram) \<Rightarrow> bool" where
  "iterates iter m \<longleftrightarrow> distinct (map fst (iter m)) \<and> map_of (iter m) = m"

section \<open>The table\<close>

definition box_char :: "nat \<Rightarrow> string" where
  "box_char k = [CHR 0xE2, CHR 0x95, char_of k]"

definition vbar :: string where "vbar = box_char 0x91"

definition frame_line :: "nat \<Rightarrow> nat \<Rightarrow> item list" where
  "frame_line l r = [Str (box_char l @ concat (replicate 46 (box_char 0x90))), Str (concat (replicate 22 (box_char 0x90)) @ box_char r @ endl)]"

definition table_head :: "item list" where
  "table_head =
     [Str endl] @ frame_line 0x94 0x97 @
     [Str (vbar @ ''           AUTOMOTIVE GATEWAY LATENCY REPORT''), Str (''                      '' @ vbar @ endl)] @
     frame_line 0xA0 0xA3 @
     [Str (vbar @ '' ''), AlignLeft, SetW 20, Str ''Event'', AlignRight, SetW 8, Str ''Count'', SetW 8, Str ''Min'', SetW 8, Str ''Mean'',
      SetW 8, Str ''P50'', SetW 8, Str ''P95'', SetW 8, Str ''P99'', SetW 8, Str ''Max'', Str (''  '' @ vbar @ endl)] @
     [Str (vbar @ '' ''), AlignLeft, SetW 20, Str [], AlignRight, SetW 8, Str [], SetW 8, Str ''us'', SetW 8, Str ''us'',
      SetW 8, Str ''us'', SetW 8, Str ''us'', SetW 8, Str ''us'', SetW 8, Str ''us'', Str (''  '' @ vbar @ endl)] @
     frame_line 0xA0 0xA3"

definition table_row :: "nat \<Rightarrow> string \<Rightarrow> histogram \<Rightarrow> item list option" where
  "table_row W name h = do {
     a \<leftarrow> p50 W h; b \<leftarrow> p95 W h; c \<leftarrow> p99 W h;
     Some [Str (vbar @ '' ''), AlignLeft, SetW 20, Str name, AlignRight, Fixed, SetPrecision 1,
       SetW 8, UInt (hist_count h), SetW 8, UInt (unat (hist_min h)), SetW 8, Dbl (hist_mean h),
       SetW 8, UInt (unat a), SetW 8, UInt (unat b), SetW 8, UInt (unat c), SetW 8, UInt (unat (hist_max h)),
       Str (''  '' @ vbar @ endl)] }"

fun table_rows :: "nat \<Rightarrow> collector \<Rightarrow> string list \<Rightarrow> ostream \<Rightarrow> ostream option" where
  "table_rows W c [] os = Some os"
| "table_rows W c (name # names) os =
     (case bench_get c name of
        None \<Rightarrow> table_rows W c names os
      | Some h \<Rightarrow>
          if hist_count h = 0 then table_rows W c names os
          else do { row \<leftarrow> table_row W name h; table_rows W c names (os_out row os) })"

definition table_foot :: "nat \<Rightarrow> item list" where
  "table_foot msgs =
     frame_line 0xA0 0xA3 @
     [Str (vbar @ '' Total messages processed: ''), AlignLeft, SetW 43, UInt msgs, Str (vbar @ endl)] @
     [Str (box_char 0x9A @ concat (replicate 46 (box_char 0x90))), Str (concat (replicate 22 (box_char 0x90)) @ box_char 0x9D @ endl @ endl)]"

definition print_table :: "nat \<Rightarrow> iteration \<Rightarrow> collector \<Rightarrow> ostream \<Rightarrow> ostream option" where
  "print_table W iter c os = do {
     os \<leftarrow> table_rows W c (event_names iter c) (os_out table_head os);
     Some (os_out (table_foot (total_messages c)) os) }"

section \<open>The JSON report\<close>

definition quoted :: "string \<Rightarrow> string" where
  "quoted s = CHR 0x22 # s @ [CHR 0x22]"

definition json_hist :: "nat \<Rightarrow> string \<Rightarrow> histogram \<Rightarrow> item list option" where
  "json_hist W name h = do {
     a \<leftarrow> p50 W h; b \<leftarrow> p95 W h; c \<leftarrow> p99 W h;
     Some (
       [Str (''    '' @ [CHR 0x22]), Str name, Str (CHR 0x22 # '': {'' @ endl)] @
       [Str (''      '' @ quoted ''count'' @ '': ''), UInt (hist_count h), Str ('','' @ endl)] @
       [Str (''      '' @ quoted ''min_us'' @ '': ''), UInt (unat (hist_min h)), Str ('','' @ endl)] @
       [Str (''      '' @ quoted ''mean_us'' @ '': ''), Dbl (hist_mean h), Str ('','' @ endl)] @
       [Str (''      '' @ quoted ''p50_us'' @ '': ''), UInt (unat a), Str ('','' @ endl)] @
       [Str (''      '' @ quoted ''p95_us'' @ '': ''), UInt (unat b), Str ('','' @ endl)] @
       [Str (''      '' @ quoted ''p99_us'' @ '': ''), UInt (unat c), Str ('','' @ endl)] @
       [Str (''      '' @ quoted ''max_us'' @ '': ''), UInt (unat (hist_max h)), Str endl] @
       [Str ''    }'']) }"

text \<open>The loop over the names, from index \<open>i\<close> of \<open>n\<close>.\<close>

fun json_entries :: "nat \<Rightarrow> collector \<Rightarrow> nat \<Rightarrow> nat \<Rightarrow> string list \<Rightarrow> ostream \<Rightarrow> ostream option" where
  "json_entries W c n i [] os = Some os"
| "json_entries W c n i (name # names) os =
     (case bench_get c name of
        None \<Rightarrow> json_entries W c n (i + 1) names os
      | Some h \<Rightarrow> do {
          entry \<leftarrow> json_hist W name h;
          let os = os_out entry os;
          let os = (if i < n - 1 then os_out [Str '',''] os else os);
          json_entries W c n (i + 1) names (os_out [Str endl] os) })"

definition to_json :: "nat \<Rightarrow> iteration \<Rightarrow> collector \<Rightarrow> string option" where
  "to_json W iter c = do {
     let oss = os_out [Str (''{'' @ endl)] new_stream;
     let oss = os_out [Str (''  '' @ quoted ''total_messages'' @ '': ''), UInt (total_messages c), Str ('','' @ endl)] oss;
     let oss = os_out [Str (''  '' @ quoted ''latency'' @ '': {'' @ endl)] oss;
     let names = event_names iter c;
     oss \<leftarrow> json_entries W c (length names) 0 names oss;
     let oss = os_out [Str (''  }'' @ endl)] oss;
     let oss = os_out [Str (''}'' @ endl)] oss;
     Some (written oss) }"

section \<open>Streams with the default format\<close>

definition plain_stream :: "ostream \<Rightarrow> bool" where
  "plain_stream os \<longleftrightarrow> \<not> hexbase os \<and> \<not> float_fixed os \<and> float_prec os = 6 \<and> field_width os = 0"

fun item_text :: "item \<Rightarrow> string" where
  "item_text (Str s) = s"
| "item_text (UInt n) = show_base 10 n"
| "item_text (Dbl x) = show_double False 6 x"
| "item_text _ = []"

fun is_text :: "item \<Rightarrow> bool" where
  "is_text (Str s) = True"
| "is_text (UInt n) = True"
| "is_text (Dbl x) = True"
| "is_text _ = False"

lemma os_out_plain:
  "plain_stream os \<Longrightarrow> list_all is_text items \<Longrightarrow> os_out items os = os\<lparr>written := written os @ concat (map item_text items)\<rparr>"
proof (induction items arbitrary: os)
  case (Cons i items)
  have "put_item i os = os\<lparr>written := written os @ item_text i\<rparr>"
    using Cons.prems by (cases i) (simp_all add: put_field_def plain_stream_def Let_def)
  moreover have "plain_stream (os\<lparr>written := written os @ item_text i\<rparr>)" using Cons.prems by (simp add: plain_stream_def)
  ultimately show ?case using Cons by simp
qed simp

lemma plain_written [simp]: "plain_stream (os\<lparr>written := s\<rparr>) = plain_stream os"
  by (simp add: plain_stream_def)

section \<open>The report as JSON\<close>

definition hist_fields :: "histogram \<Rightarrow> u64 \<Rightarrow> u64 \<Rightarrow> u64 \<Rightarrow> (string \<times> string) list" where
  "hist_fields h a b c =
     [(''count'', show_base 10 (hist_count h)), (''min_us'', show_base 10 (unat (hist_min h))),
      (''mean_us'', show_double False 6 (hist_mean h)), (''p50_us'', show_base 10 (unat a)), (''p95_us'', show_base 10 (unat b)),
      (''p99_us'', show_base 10 (unat c)), (''max_us'', show_base 10 (unat (hist_max h)))]"

definition hist_fields_of :: "nat \<Rightarrow> histogram \<Rightarrow> (string \<times> string) list" where
  "hist_fields_of W h = hist_fields h (the (p50 W h)) (the (p95 W h)) (the (p99 W h))"

definition fields_json :: "(string \<times> string) list \<Rightarrow> json" where
  "fields_json fs = JObj (map (\<lambda>(k, s). (k, JNum s)) fs)"

fun fields_text :: "(string \<times> string) list \<Rightarrow> string" where
  "fields_text [] = []"
| "fields_text [(k, s)] = member_text (endl @ ''      '') k '' '' s (endl @ ''    '') @ ''}''"
| "fields_text ((k, s) # f # fs) = member_text (endl @ ''      '') k '' '' s [] @ CHR '','' # fields_text (f # fs)"

lemma blanks_lit [simp]: "blanks []" "blanks (c # w) \<longleftrightarrow> jblank c \<and> blanks w" "blanks (v @ w) \<longleftrightarrow> blanks v \<and> blanks w"
  "blanks endl" "jblank CHR '' ''"
  by (auto simp: blanks_def jblank_def endl_def)

lemma fields_render:
  "fs \<noteq> [] \<Longrightarrow> \<forall>(k, s)\<in>set fs. plain_number s \<and> (\<forall>c\<in>set k. jchar c) \<Longrightarrow> renders (fields_json fs) (CHR ''{'' # fields_text fs)"
proof -
  have "fs \<noteq> [] \<Longrightarrow> \<forall>(k, s)\<in>set fs. plain_number s \<and> (\<forall>c\<in>set k. jchar c) \<Longrightarrow>
      renders_members (map (\<lambda>(k, s). (k, JNum s)) fs) (fields_text fs)"
  proof (induction fs rule: fields_text.induct)
    case (2 k s)
    then show ?case by (auto intro!: render_last render_num)
  next
    case (3 k s f fs)
    then show ?case by (auto intro!: render_more render_num)
  qed simp
  then show "fs \<noteq> [] \<Longrightarrow> \<forall>(k, s)\<in>set fs. plain_number s \<and> (\<forall>c\<in>set k. jchar c) \<Longrightarrow> renders (fields_json fs) (CHR ''{'' # fields_text fs)"
    unfolding fields_json_def by (intro render_obj)
qed

text \<open>The entries, each behind a newline, with the newline and the brace that follow the last.\<close>

fun entries_text :: "(string \<times> (string \<times> string) list) list \<Rightarrow> string" where
  "entries_text [] = endl @ ''  }''"
| "entries_text [(k, fs)] = member_text (endl @ ''    '') k '' '' (CHR ''{'' # fields_text fs) (endl @ ''  '') @ ''}''"
| "entries_text ((k, fs) # e # es) = member_text (endl @ ''    '') k '' '' (CHR ''{'' # fields_text fs) [] @ CHR '','' # entries_text (e # es)"

definition entry_ok :: "string \<times> (string \<times> string) list \<Rightarrow> bool" where
  "entry_ok e \<longleftrightarrow> (\<forall>c\<in>set (fst e). jchar c) \<and> snd e \<noteq> [] \<and> (\<forall>(k, s)\<in>set (snd e). plain_number s \<and> (\<forall>c\<in>set k. jchar c))"

lemma entries_render:
  assumes "\<forall>e\<in>set es. entry_ok e"
  shows "renders (JObj (map (\<lambda>(k, fs). (k, fields_json fs)) es)) (CHR ''{'' # entries_text es)"
proof (cases "es = []")
  case True
  then show ?thesis using render_empty [of "endl @ ''  ''"] by simp
next
  case False
  have "es \<noteq> [] \<Longrightarrow> \<forall>e\<in>set es. entry_ok e \<Longrightarrow> renders_members (map (\<lambda>(k, fs). (k, fields_json fs)) es) (entries_text es)"
  proof (induction es rule: entries_text.induct)
    case (2 k fs)
    then show ?case by (auto simp: entry_ok_def intro!: render_last fields_render)
  next
    case (3 k fs e es)
    then show ?case by (auto simp: entry_ok_def intro!: render_more fields_render)
  qed simp
  with False assms show ?thesis by (intro render_obj)
qed

text \<open>A histogram whose percentiles are defined: any with fewer samples than \<open>size_t\<close> and doubles count exactly.\<close>

definition hist_small :: "nat \<Rightarrow> histogram \<Rightarrow> bool" where
  "hist_small W h \<longleftrightarrow> length (samples h) < 2 ^ 53 \<and> length (samples h) < 2 ^ W"

lemma percentiles_defined:
  assumes "hist_small W h"
  obtains a b c where "p50 W h = Some a" and "p95 W h = Some b" and "p99 W h = Some c"
proof (cases "samples h = []")
  case True
  then show ?thesis using that [of 0 0 0] by (simp add: p50_def p95_def p99_def percentile_def)
next
  case False
  have d: "length (samples h) < 2 ^ 53" "length (samples h) < 2 ^ W" using assms by (simp_all add: hist_small_def)
  note index = percentile_index [OF False d]
  have "\<exists>a. p50 W h = Some a" "\<exists>b. p95 W h = Some b" "\<exists>c. p99 W h = Some c"
    using index [OF percent_quotients(1)] index [OF percent_quotients(2)] index [OF percent_quotients(3)]
    by (simp_all add: p50_def p95_def p99_def percent_fvals)
  then show ?thesis using that by blast
qed

lemma json_hist_text:
  assumes "hist_small W h" and "plain_stream os"
  shows "\<exists>items. json_hist W name h = Some items \<and>
     os_out items os = os\<lparr>written := written os @ ''    '' @ quoted name @ '': {'' @ fields_text (hist_fields_of W h)\<rparr>"
proof -
  obtain a b c where p: "p50 W h = Some a" "p95 W h = Some b" "p99 W h = Some c" using percentiles_defined [OF assms(1)] .
  show ?thesis using assms(2)
    by (simp add: json_hist_def p os_out_plain hist_fields_of_def hist_fields_def member_text_def quoted_def del: out_simps)
qed

text \<open>The mean is a nonnegative finite number.\<close>

lemma round_fin:
  assumes "0 < d" and "real n / real d \<le> 2 ^ 64"
  shows "\<exists>m e. round_ratio binary64 False n d = Fin False m e \<and> fval (Fin False m e) \<le> 2 ^ 64"
proof (cases "n = 0")
  case True
  then show ?thesis by (simp add: round_ratio_def fval_def)
next
  case False
  then have n: "0 < n" by simp
  have "rval binary64 (2 ^ 64) 1 = real (2 ^ 64) / real 1"
    by (rule rval_exact [where m = 1 and e = 64]) (simp_all add: binary64_def)
  moreover have "rval binary64 n d \<le> rval binary64 (2 ^ 64) 1" using assms n by (intro rval_mono) (simp_all add: binary64_def)
  ultimately have le: "rval binary64 n d \<le> 2 ^ 64" by simp
  also have "(2 :: real) ^ 64 < 2 powi (emax binary64 + int (prec binary64))"
  proof -
    have "(2 :: real) ^ 64 = 2 powi 64" by (simp add: power_int_def)
    also have "\<dots> < 2 powi (emax binary64 + int (prec binary64))" by (simp add: binary64_def)
    finally show ?thesis .
  qed
  finally obtain m e where "round_ratio binary64 False n d = Fin False m e" "real m * 2 powi e = rval binary64 n d"
    using round_ratio_value [OF fmt_ok_formats(1) n assms(1), of False] by auto
  then show ?thesis using le by (auto simp: fval_def)
qed

lemma hist_mean_finite:
  assumes "length (samples h) < 2 ^ 53" obtains m e where "hist_mean h = Fin False m e"
proof (cases "samples h = []")
  case True
  then show ?thesis using that by (simp add: hist_mean_def)
next
  case False
  define S where "S = foldl (+) 0 (samples h)"
  have "unat S < 2 ^ 64" using unsigned_less [where 'a = nat, of S] by simp
  then have "real (unat S) < real (2 ^ 64)" by (simp only: of_nat_less_iff)
  then have "real (unat S) / real 1 \<le> 2 ^ 64" by simp
  from round_fin [OF zero_less_one this] obtain a e where a: "round_ratio binary64 False (unat S) 1 = Fin False a e" "fval (Fin False a e) \<le> 2 ^ 64"
    by blast
  have i: "fp_of_int binary64 (uint S) = Fin False a e" using a(1) by (simp add: fp_of_int_def not_less)
  obtain b f where b: "fp_of_int binary64 (int (length (samples h))) = Fin False b f" "fval (Fin False b f) = real (length (samples h))"
    using count_exact [OF assms] .
  have b0: "0 < b" using b(2) False by (cases b) (simp_all add: fval_def)
  obtain n d where r: "round_scaled binary64 False a b (e - f) = round_ratio binary64 False n d" "0 < d"
    "real n / real d = real a / real b * 2 powi (e - f)"
    using round_scaled_ratio [OF b0] by metis
  have "real n / real d = fval (Fin False a e) / fval (Fin False b f)" using r(3) by (simp add: fval_def power_int_diff)
  also have "\<dots> \<le> fval (Fin False a e)"
  proof -
    have k: "1 \<le> real (length (samples h))" using False by (cases "samples h") simp_all
    then have "fval (Fin False a e) * 1 \<le> fval (Fin False a e) * real (length (samples h))"
      by (intro mult_left_mono) (simp_all add: fval_def)
    then show ?thesis unfolding b(2) using k by (subst pos_divide_le_eq) linarith+
  qed
  finally have "real n / real d \<le> 2 ^ 64" using a(2) by linarith
  from round_fin [OF r(2) this] obtain m g where "round_ratio binary64 False n d = Fin False m g" by blast
  then have "hist_mean h = Fin False m g" using False i b(1) b0 r(1) by (simp add: hist_mean_def S_def [symmetric] Let_def)
  then show ?thesis by (rule that)
qed

lemma hist_fields_ok:
  assumes "hist_small W h" and "\<forall>c\<in>set name. jchar c" shows "entry_ok (name, hist_fields_of W h)"
proof -
  obtain m e where "hist_mean h = Fin False m e" using hist_mean_finite assms(1) by (auto simp: hist_small_def)
  then have "plain_number (show_double False 6 (hist_mean h))" using show_general_double(1) [of 6 m e] by simp
  moreover have "\<forall>k\<in>{''count'', ''min_us'', ''mean_us'', ''p50_us'', ''p95_us'', ''p99_us'', ''max_us''}. \<forall>c\<in>set k. jchar c"
    by (simp add: jchar_def)
  ultimately show ?thesis using assms(2) by (simp add: entry_ok_def hist_fields_of_def hist_fields_def show_nat_plain)
qed

text \<open>The loop writes the entries, a comma behind all but the last.\<close>

lemma json_entries_text:
  assumes "\<forall>name\<in>set names. \<exists>h. histograms c name = Some h \<and> hist_small W h"
  shows "plain_stream os \<Longrightarrow> n = i + length names \<Longrightarrow>
     \<exists>os'. json_entries W c n i names os = Some os' \<and> plain_stream os' \<and>
       endl @ written os' @ ''  }'' = endl @ written os @ tl (entries_text (map (\<lambda>name. (name, hist_fields_of W (the (histograms c name)))) names))"
  using assms
proof (induction names arbitrary: os i)
  case Nil
  then show ?case by (simp add: endl_def)
next
  case (Cons name names)
  let ?e = "\<lambda>name. (name, hist_fields_of W (the (histograms c name)))"
  obtain h where h: "histograms c name = Some h" "hist_small W h" using Cons.prems(3) by auto
  from json_hist_text [OF h(2) Cons.prems(1), of name] obtain items where items: "json_hist W name h = Some items"
    "os_out items os = os\<lparr>written := written os @ ''    '' @ quoted name @ '': {'' @ fields_text (hist_fields_of W h)\<rparr>" by blast
  define os1 where "os1 = os\<lparr>written := written os @ ''    '' @ quoted name @ '': {'' @ fields_text (hist_fields_of W h)
    @ (if names = [] then [] else '','') @ endl\<rparr>"
  have p1: "plain_stream os1" using Cons.prems(1) by (simp add: os1_def)
  have "i < n - 1 \<longleftrightarrow> names \<noteq> []" using Cons.prems(2) by (cases names) auto
  then have step: "json_entries W c n i (name # names) os = json_entries W c n (i + 1) names os1"
    using Cons.prems(1) by (simp add: bench_get_def h items os1_def Let_def os_out_plain del: out_simps)
  from Cons.IH [OF p1, of "i + 1"] Cons.prems(2,3) obtain os' where os': "json_entries W c n (i + 1) names os1 = Some os'" "plain_stream os'"
    "endl @ written os' @ ''  }'' = endl @ written os1 @ tl (entries_text (map ?e names))" by auto
  have "endl @ written os' @ ''  }'' = endl @ written os @ tl (entries_text (map ?e (name # names)))"
  proof (cases names)
    case Nil
    with os'(3) h show ?thesis by (simp add: os1_def member_text_def quoted_def endl_def)
  next
    case (Cons n2 ns)
    have "entries_text (map ?e (n2 # ns)) = endl @ tl (entries_text (map ?e (n2 # ns)))"
      by (cases ns) (simp_all add: member_text_def endl_def)
    with os'(3) h Cons show ?thesis by (simp add: os1_def member_text_def quoted_def endl_def)
  qed
  with step os'(1,2) show ?case by auto
qed

definition report_json :: "nat \<Rightarrow> iteration \<Rightarrow> collector \<Rightarrow> json" where
  "report_json W iter c = JObj
     [(''total_messages'', JNum (show_base 10 (total_messages c))),
      (''latency'', JObj (map (\<lambda>(name, h). (name, fields_json (hist_fields_of W h))) (iter (histograms c))))]"

lemma to_json_reads:
  assumes "iterates iter (histograms c)"
    and "\<forall>name h. histograms c name = Some h \<longrightarrow> hist_small W h \<and> (\<forall>x\<in>set name. jchar x)"
  shows "\<exists>s. to_json W iter c = Some s \<and> read_json s = Some (report_json W iter c)"
proof -
  let ?names = "event_names iter c"
  let ?es = "map (\<lambda>name. (name, hist_fields_of W (the (histograms c name)))) ?names"
  have mem: "(name, h) \<in> set (iter (histograms c)) \<Longrightarrow> histograms c name = Some h" for name h
    using assms(1) by (metis iterates_def map_of_is_SomeI)
  have ok: "\<forall>name\<in>set ?names. \<exists>h. histograms c name = Some h \<and> hist_small W h"
    using mem assms(2) by (fastforce simp: event_names_def)
  define os0 where "os0 = new_stream\<lparr>written := ''{'' @ endl @ ''  '' @ quoted ''total_messages'' @ '': '' @ show_base 10 (total_messages c)
    @ '','' @ endl @ ''  '' @ quoted ''latency'' @ '': {'' @ endl\<rparr>"
  have w0: "written new_stream = []" by (simp add: new_stream_def)
  have p0: "plain_stream new_stream" by (simp add: plain_stream_def new_stream_def)
  then have p: "plain_stream os0" by (simp add: os0_def)
  from json_entries_text [OF ok p, of "length ?names" 0] obtain os' where os': "json_entries W c (length ?names) 0 ?names os0 = Some os'" "plain_stream os'"
    "endl @ written os' @ ''  }'' = endl @ written os0 @ tl (entries_text ?es)" by auto
  have "to_json W iter c = Some (written os' @ ''  }'' @ endl @ ''}'' @ endl)"
    using os'(1,2) p0 by (simp add: to_json_def Let_def os_out_plain os0_def w0 del: out_simps)
  moreover have "entries_text es = endl @ tl (entries_text es)" for es
    by (cases es rule: entries_text.cases) (simp_all add: member_text_def endl_def)
  ultimately have s: "to_json W iter c = Some ((CHR ''{'' # member_text (endl @ ''  '') ''total_messages'' '' '' (show_base 10 (total_messages c)) []
      @ CHR '','' # member_text (endl @ ''  '') ''latency'' '' '' (CHR ''{'' # entries_text ?es) endl @ ''}'') @ endl)"
    using os'(3) by (simp add: os0_def member_text_def quoted_def)
  have es: "\<forall>e\<in>set ?es. entry_ok e" using ok assms(2) hist_fields_ok by fastforce
  have eq: "map (\<lambda>(k, fs). (k, fields_json fs)) ?es = map (\<lambda>(name, h). (name, fields_json (hist_fields_of W h))) (iter (histograms c))"
    using mem by (auto simp: event_names_def)
  have "renders (report_json W iter c) (CHR ''{'' # member_text (endl @ ''  '') ''total_messages'' '' '' (show_base 10 (total_messages c)) []
      @ CHR '','' # member_text (endl @ ''  '') ''latency'' '' '' (CHR ''{'' # entries_text ?es) endl @ ''}'')"
    unfolding report_json_def eq [symmetric]
    by (intro render_obj render_more render_last render_num show_nat_plain entries_render es) (simp_all add: jchar_def)
  from read_json_renders [OF this, of endl] s show ?thesis by auto
qed

text \<open>The number a member has, as a reader sees it.\<close>

definition json_num :: "(string \<times> json) list \<Rightarrow> string \<Rightarrow> real option" where
  "json_num ms k = (case map_of ms k of Some (JNum s) \<Rightarrow> Some (number_value s) | _ \<Rightarrow> None)"

definition hist_reported :: "nat \<Rightarrow> histogram \<Rightarrow> (string \<times> json) list \<Rightarrow> bool" where
  "hist_reported W h fs \<longleftrightarrow>
     json_num fs ''count'' = Some (real (hist_count h)) \<and> json_num fs ''min_us'' = Some (real (unat (hist_min h)))
     \<and> json_num fs ''max_us'' = Some (real (unat (hist_max h)))
     \<and> (\<exists>a b c. p50 W h = Some a \<and> p95 W h = Some b \<and> p99 W h = Some c
          \<and> json_num fs ''p50_us'' = Some (real (unat a)) \<and> json_num fs ''p95_us'' = Some (real (unat b))
          \<and> json_num fs ''p99_us'' = Some (real (unat c)))
     \<and> (\<exists>v. json_num fs ''mean_us'' = Some v \<and> \<bar>v - fval (hist_mean h)\<bar> \<le> fval (hist_mean h) * (5 / 10 ^ 6))"

lemma hist_fields_reported:
  assumes "hist_small W h" shows "hist_reported W h (map (\<lambda>(k, s). (k, JNum s)) (hist_fields_of W h))"
proof -
  obtain a b c where p: "p50 W h = Some a" "p95 W h = Some b" "p99 W h = Some c" using percentiles_defined [OF assms] .
  obtain m e where m: "hist_mean h = Fin False m e" using hist_mean_finite assms by (auto simp: hist_small_def)
  have "\<bar>number_value (show_double False 6 (hist_mean h)) - fval (hist_mean h)\<bar> \<le> fval (hist_mean h) * (5 / 10 ^ 6)"
    using show_general_double(2) [of 6 m e] by (simp add: m power_int_def power_divide)
  then show ?thesis by (simp add: hist_reported_def hist_fields_of_def hist_fields_def json_num_def p show_nat_value)
qed

section \<open>The text of the table\<close>

definition padl :: "nat \<Rightarrow> string \<Rightarrow> string" where
  "padl w s = replicate (w - length s) CHR '' '' @ s"

definition padr :: "nat \<Rightarrow> string \<Rightarrow> string" where
  "padr w s = s @ replicate (w - length s) CHR '' ''"

definition row_text :: "nat \<Rightarrow> string \<Rightarrow> histogram \<Rightarrow> u64 \<Rightarrow> u64 \<Rightarrow> u64 \<Rightarrow> string" where
  "row_text base name h a b c =
     (vbar @ '' '') @ padr 20 name @ padl 8 (show_base base (hist_count h)) @ padl 8 (show_base base (unat (hist_min h)))
     @ padl 8 (show_double True 1 (hist_mean h)) @ padl 8 (show_base base (unat a)) @ padl 8 (show_base base (unat b))
     @ padl 8 (show_base base (unat c)) @ padl 8 (show_base base (unat (hist_max h))) @ ''  '' @ vbar @ endl"

definition base_of :: "ostream \<Rightarrow> nat" where
  "base_of os = (if hexbase os then 16 else 10)"

lemma table_row_text:
  assumes "hist_small W h" and "field_width os = 0"
  shows "\<exists>a b c row. p50 W h = Some a \<and> p95 W h = Some b \<and> p99 W h = Some c \<and> table_row W name h = Some row
     \<and> os_out row os = os\<lparr>written := written os @ row_text (base_of os) name h a b c, adjust_left := False, float_fixed := True, float_prec := 1\<rparr>"
proof -
  obtain a b c where p: "p50 W h = Some a" "p95 W h = Some b" "p99 W h = Some c" using percentiles_defined [OF assms(1)] .
  then show ?thesis using assms(2)
    by (cases os) (simp add: table_row_def put_field_def row_text_def padl_def padr_def base_of_def)
qed

lemma frame_line_out: "field_width os = 0 \<Longrightarrow> os_out (frame_line l r) os = os\<lparr>written := written os @ concat (map item_text (frame_line l r))\<rparr>"
  by (cases os) (simp add: frame_line_def put_field_def)

definition head_text :: string where
  "head_text = written (os_out table_head new_stream)"

definition foot_text :: "nat \<Rightarrow> nat \<Rightarrow> string" where
  "foot_text base n =
     concat (map item_text (frame_line 0xA0 0xA3)) @ vbar @ '' Total messages processed: '' @ padr 43 (show_base base n) @ vbar @ endl
     @ box_char 0x9A @ concat (replicate 46 (box_char 0x90)) @ concat (replicate 22 (box_char 0x90)) @ box_char 0x9D @ endl @ endl"

lemma table_head_out:
  assumes "field_width os = 0"
  shows "os_out table_head os = os\<lparr>written := written os @ head_text, adjust_left := False\<rparr>"
  using assms by (cases os) (simp add: head_text_def table_head_def frame_line_out new_stream_def put_field_def)

lemma table_foot_out:
  assumes "field_width os = 0"
  shows "os_out (table_foot n) os = os\<lparr>written := written os @ foot_text (base_of os) n, adjust_left := True\<rparr>"
  using assms by (cases os) (simp add: foot_text_def table_foot_def frame_line_out put_field_def padr_def base_of_def)

section \<open>Reading the table\<close>

text \<open>The cells of a row: the name in 20 columns and seven numbers in eight columns each.\<close>

definition cell :: "string \<Rightarrow> nat \<Rightarrow> string" where
  "cell row i = dropWhile isspace (take 8 (drop (24 + 8 * i) row))"

definition row_shows :: "nat \<Rightarrow> nat \<Rightarrow> string \<Rightarrow> histogram \<Rightarrow> string \<Rightarrow> bool" where
  "row_shows base W name h row \<longleftrightarrow>
     take 20 (drop 4 row) = padr 20 name
     \<and> digits_val base (cell row 0) = hist_count h \<and> digits_val base (cell row 1) = unat (hist_min h)
     \<and> \<bar>number_value (cell row 2) - fval (hist_mean h)\<bar> \<le> 1 / 20
     \<and> Some (digits_val base (cell row 3)) = map_option unat (p50 W h) \<and> Some (digits_val base (cell row 4)) = map_option unat (p95 W h)
     \<and> Some (digits_val base (cell row 5)) = map_option unat (p99 W h) \<and> digits_val base (cell row 6) = unat (hist_max h)"

text \<open>The values of a histogram that fit their columns.\<close>

definition row_fits :: "nat \<Rightarrow> string \<Rightarrow> histogram \<Rightarrow> bool" where
  "row_fits W name h \<longleftrightarrow> hist_small W h \<and> length name \<le> 20 \<and> hist_count h < 10 ^ 8 \<and> unat (hist_max h) < 10 ^ 8 \<and> fval (hist_mean h) < 999999"

lemma show_base_short:
  assumes "2 \<le> b" and "n < b ^ k" and "0 < k" shows "length (show_base b n) \<le> k"
proof (cases "n = 0")
  case True
  then show ?thesis using assms(1,3) by (simp add: show_base.simps)
next
  case False
  then have "b ^ (length (show_base b n) - 1) < b ^ k" using show_base_length [OF assms(1), of n] assms(2) by linarith
  then show ?thesis using power_less_imp_less_exp [of b "length (show_base b n) - 1" k] assms(1) by simp
qed

lemma show_base_column:
  assumes "n < 10 ^ 8" and "base = 10 \<or> base = 16" shows "length (show_base base n) \<le> 8"
proof -
  have "n < base ^ 8" using assms by auto
  then show ?thesis using assms(2) by (intro show_base_short) auto
qed

lemma cells:
  assumes "length p = 24" and "\<forall>s\<in>set cs. length s \<le> 8" and "i < length cs"
  shows "cell (p @ concat (map (padl 8) cs) @ r) i = dropWhile isspace (cs ! i)"
proof -
  have l: "length (padl 8 s) = 8" if "s \<in> set cs" for s using that assms(2) by (auto simp: padl_def)
  have "take 8 (drop (8 * i) (concat (map (padl 8) cs) @ r)) = padl 8 (cs ! i)"
    using assms(3) l
  proof (induction cs arbitrary: i)
    case (Cons s cs)
    then show ?case by (cases i) (auto simp: drop_append)
  qed simp
  moreover have "drop (24 + 8 * i) (p @ concat (map (padl 8) cs) @ r) = drop (8 * i) (concat (map (padl 8) cs) @ r)"
    using assms(1) by simp
  moreover have "dropWhile isspace (padl 8 s) = dropWhile isspace s" for s
    by (simp add: padl_def dropWhile_append)
  ultimately show ?thesis by (simp add: cell_def)
qed

lemma fixed1_short:
  assumes "fval (Fin False m e) < 999999" shows "length (show_double True 1 (Fin False m e)) \<le> 8"
proof -
  obtain n d where nd: "scale_ratio m 1 (- e) = (n, d)" by fastforce
  have d: "0 < d" using scale_ratio(1) [OF _ nd] by simp
  define q where "q = rne (n * 10 ^ 1) d"
  have "real (n * 10 ^ 1) / real d = 10 * (real n / real d)" by simp
  then have "real (n * 10 ^ 1) / real d < real 9999990" using assms unfolding fval_ratio [OF nd] by linarith
  then have "q \<le> 9999990" unfolding q_def by (rule rne_between(2) [OF d])
  then have "q div 10 < 10 ^ 6" by simp
  then have 1: "length (show_base 10 (q div 10)) \<le> 6" by (intro show_base_short) simp_all
  have "length (show_base 10 (q mod 10)) \<le> 1" by (intro show_base_short) simp_all
  then have "length (pad0 1 (show_base 10 (q mod 10))) \<le> 1" by (simp add: pad0_def)
  with 1 show ?thesis by (simp add: show_double_def nd show_fixed_def q_def Let_def del: One_nat_def)
qed

lemma hist_values_le_max:
  assumes "hist_small W h" and "p50 W h = Some a" and "p95 W h = Some b" and "p99 W h = Some c"
  shows "hist_min h \<le> hist_max h" and "a \<le> hist_max h" and "b \<le> hist_max h" and "c \<le> hist_max h"
proof -
  have le: "v \<le> hist_max h" if prem: "percentile W h p = Some v" for p v
  proof (cases "samples h = []")
    case True
    with prem show ?thesis by (simp add: percentile_def)
  next
    case False
    then obtain k where "v = sort (samples h) ! (if length (samples h) \<le> k then length (sort (samples h)) - 1 else k)"
      using prem by (auto simp: percentile_def Let_def Option.bind_eq_Some_conv)
    moreover have "(if length (samples h) \<le> k then length (sort (samples h)) - 1 else k) < length (samples h)" using False by auto
    ultimately show ?thesis using sorted_nth_bounds(2) [OF False] False by (simp add: hist_max_def)
  qed
  show "a \<le> hist_max h" "b \<le> hist_max h" "c \<le> hist_max h" using assms(2-4) le by (simp_all add: p50_def p95_def p99_def)
  show "hist_min h \<le> hist_max h"
  proof (cases "samples h")
    case (Cons x xs)
    then have "Min (set (samples h)) \<le> x" "x \<le> Max (set (samples h))" by simp_all
    then have "Min (set (samples h)) \<le> Max (set (samples h))" by (rule order_trans)
    then show ?thesis using Cons by (simp add: hist_min_def hist_max_def min_element_Min max_element_Max del: Min_le_iff Max_ge_iff)
  qed (simp add: hist_min_def hist_max_def)
qed

definition row_cells :: "nat \<Rightarrow> histogram \<Rightarrow> u64 \<Rightarrow> u64 \<Rightarrow> u64 \<Rightarrow> string list" where
  "row_cells base h a b c = [show_base base (hist_count h), show_base base (unat (hist_min h)), show_double True 1 (hist_mean h),
     show_base base (unat a), show_base base (unat b), show_base base (unat c), show_base base (unat (hist_max h))]"

lemma row_text_cells:
  "row_text base name h a b c = ((vbar @ '' '') @ padr 20 name) @ concat (map (padl 8) (row_cells base h a b c)) @ ''  '' @ vbar @ endl"
  by (simp add: row_text_def row_cells_def)

lemma row_cells_short:
  assumes "row_fits W name h" and "base = 10 \<or> base = 16" and p: "p50 W h = Some a" "p95 W h = Some b" "p99 W h = Some c"
  shows "\<forall>s\<in>set (row_cells base h a b c). length s \<le> 8"
proof -
  have small: "hist_small W h" using assms(1) by (simp add: row_fits_def)
  obtain m e where m: "hist_mean h = Fin False m e" using hist_mean_finite small by (auto simp: hist_small_def)
  have "unat (hist_min h) \<le> unat (hist_max h)" "unat a \<le> unat (hist_max h)" "unat b \<le> unat (hist_max h)" "unat c \<le> unat (hist_max h)"
    using hist_values_le_max [OF small p] by (simp_all add: word_le_nat_alt)
  then show ?thesis
    using assms(1,2) fixed1_short [of m e] by (auto simp: row_fits_def row_cells_def m intro!: show_base_column)
qed

lemma row_shown:
  assumes "row_fits W name h" and "base = 10 \<or> base = 16" and p: "p50 W h = Some a" "p95 W h = Some b" "p99 W h = Some c"
  shows "row_shows base W name h (row_text base name h a b c)"
proof -
  obtain m e where m: "hist_mean h = Fin False m e"
    using hist_mean_finite assms(1) by (auto simp: row_fits_def hist_small_def)
  let ?f = "show_double True 1 (Fin False m e)"
  have lp: "length ((vbar @ '' '') @ padr 20 name) = 24" using assms(1) by (simp add: row_fits_def padr_def vbar_def box_char_def)
  note cell = cells [OF lp row_cells_short [OF assms], of _ "''  '' @ vbar @ endl", folded row_text_cells]
  have skip: "dropWhile isspace (show_base base n) = show_base base n" for n
    using scan_shown(1) [of base "[]" n] assms(2) by auto
  have val: "digits_val base (show_base base n) = n" for n using show_base_digits [of base n] assms(2) by auto
  have f: "\<forall>x\<in>set ?f. is_digit 10 x \<or> x = CHR ''.''" and fv: "\<bar>number_value ?f - fval (Fin False m e)\<bar> \<le> 1 / 20"
    using show_fixed_double [of 1 m e] by simp_all
  have skip_f: "dropWhile isspace ?f = ?f"
    using f digit_not_special(1) [of 10] by (cases ?f) (auto simp: isspace_def)
  have "take 20 (drop 4 (row_text base name h a b c)) = padr 20 name"
    unfolding row_text_cells using assms(1) by (simp add: row_fits_def padr_def vbar_def box_char_def)
  then show ?thesis unfolding row_shows_def
    using cell [of 0] cell [of 1] cell [of 2] cell [of 3] cell [of 4] cell [of 5] cell [of 6] fv p
    by (simp add: row_cells_def skip skip_f val m del: One_nat_def)
qed

definition shown_names :: "collector \<Rightarrow> string list \<Rightarrow> string list" where
  "shown_names c names = filter (\<lambda>name. case histograms c name of None \<Rightarrow> False | Some h \<Rightarrow> hist_count h \<noteq> 0) names"

lemma table_rows_text:
  assumes "\<forall>name h. histograms c name = Some h \<longrightarrow> row_fits W name h"
  shows "field_width os = 0 \<Longrightarrow>
     \<exists>os' rows. table_rows W c names os = Some os' \<and> field_width os' = 0 \<and> hexbase os' = hexbase os \<and> written os' = written os @ concat rows
       \<and> list_all2 (\<lambda>name row. row_shows (base_of os) W name (the (histograms c name)) row) (shown_names c names) rows"
proof (induction names arbitrary: os)
  case Nil
  then show ?case by (intro exI [of _ os] exI [of _ "[]"]) (simp add: shown_names_def)
next
  case (Cons name names)
  show ?case
  proof (cases "\<exists>h. histograms c name = Some h \<and> hist_count h \<noteq> 0")
    case False
    then have "table_rows W c (name # names) os = table_rows W c names os" "shown_names c (name # names) = shown_names c names"
      by (auto simp: bench_get_def shown_names_def split: option.splits)
    then show ?thesis using Cons.IH [OF Cons.prems] by simp
  next
    case True
    then obtain h where h: "histograms c name = Some h" "hist_count h \<noteq> 0" by blast
    have fits: "row_fits W name h" using assms h(1) by blast
    then have small: "hist_small W h" by (simp add: row_fits_def)
    from table_row_text [OF small Cons.prems, of name] obtain a b d row where
      row: "p50 W h = Some a" "p95 W h = Some b" "p99 W h = Some d" "table_row W name h = Some row"
      "os_out row os = os\<lparr>written := written os @ row_text (base_of os) name h a b d, adjust_left := False, float_fixed := True, float_prec := 1\<rparr>"
      by blast
    let ?os = "os_out row os"
    have "field_width ?os = 0" using row(5) Cons.prems by simp
    from Cons.IH [OF this] obtain os' rows where r: "table_rows W c names ?os = Some os'" "field_width os' = 0" "hexbase os' = hexbase ?os"
      "written os' = written ?os @ concat rows" "list_all2 (\<lambda>name row. row_shows (base_of ?os) W name (the (histograms c name)) row) (shown_names c names) rows"
      by blast
    have "base_of ?os = base_of os" using row(5) by (simp add: base_of_def)
    moreover have "row_shows (base_of os) W name h (row_text (base_of os) name h a b d)"
      by (rule row_shown [OF fits _ row(1-3)]) (simp add: base_of_def)
    moreover have "shown_names c (name # names) = name # shown_names c names" using h by (simp add: shown_names_def)
    moreover have "table_rows W c (name # names) os = Some os'" using h row(4) r(1) by (simp add: bench_get_def)
    ultimately show ?thesis using r h(1) row(5)
      by (intro exI [of _ os'] exI [of _ "row_text (base_of os) name h a b d # rows"]) simp
  qed
qed

section \<open>Properties\<close>

text \<open>
  The JSON report is valid and tells the truth. For every collector whose event names need
  no escapes and whose histograms hold fewer than \<open>2 ^ 53\<close> samples, and for every iteration order of
  the hash table, \<open>to_json\<close> is defined and a JSON reader finds in its text the number of messages
  and exactly one object per event, with the count, minimum, maximum and the three percentiles
  exactly and the mean within five millionths.
\<close>

theorem json_report_reads:
  assumes "iterates iter (histograms c)"
    and "\<forall>name h. histograms c name = Some h \<longrightarrow> hist_small W h \<and> (\<forall>x\<in>set name. jchar x)"
  shows "\<exists>s ms es. to_json W iter c = Some s \<and> read_json s = Some (JObj ms) \<and> map fst ms = [''total_messages'', ''latency'']
     \<and> json_num ms ''total_messages'' = Some (real (total_messages c)) \<and> map_of ms ''latency'' = Some (JObj es) \<and> distinct (map fst es)
     \<and> (\<forall>name. (histograms c name = None \<longrightarrow> map_of es name = None)
          \<and> (\<forall>h. histograms c name = Some h \<longrightarrow> (\<exists>fs. map_of es name = Some (JObj fs) \<and> hist_reported W h fs)))"
proof -
  from to_json_reads [OF assms] obtain s where s: "to_json W iter c = Some s" "read_json s = Some (report_json W iter c)" by blast
  define es where "es = map (\<lambda>(name, h). (name, fields_json (hist_fields_of W h))) (iter (histograms c))"
  have d: "distinct (map fst es)" using assms(1) by (simp add: es_def iterates_def case_prod_unfold comp_def)
  define ms where "ms = [(''total_messages'', JNum (show_base 10 (total_messages c))), (''latency'', JObj es)]"
  have look: "map_of es name = map_option (\<lambda>h. fields_json (hist_fields_of W h)) (histograms c name)" for name
    using assms(1) map_of_map [of "\<lambda>h. fields_json (hist_fields_of W h)" "iter (histograms c)"]
    by (simp add: es_def iterates_def fun_eq_iff)
  have "\<exists>fs. map_of es name = Some (JObj fs) \<and> hist_reported W h fs" if "histograms c name = Some h" for name h
    using hist_fields_reported assms(2) that look by (auto simp: fields_json_def)
  moreover have "read_json s = Some (JObj ms)" using s(2) by (simp add: report_json_def ms_def es_def)
  moreover have "map fst ms = [''total_messages'', ''latency'']" "json_num ms ''total_messages'' = Some (real (total_messages c))"
    "map_of ms ''latency'' = Some (JObj es)" by (simp_all add: ms_def json_num_def show_nat_value)
  moreover have "map_of es name = None" if "histograms c name = None" for name using that look by simp
  ultimately show ?thesis using s(1) d by - (rule exI [of _ s], rule exI [of _ ms], rule exI [of _ es], blast)
qed

text \<open>The gateway's events in a fixed order, and a collector after one frame.\<close>

definition gw_events :: "string list" where
  "gw_events = [''dbc_lookup'', ''signal_decode'', ''someip_publish'', ''end_to_end'']"

definition iter_events :: iteration where
  "iter_events m = map (\<lambda>k. (k, the (m k))) (filter (\<lambda>k. m k \<noteq> None) gw_events)"

definition demo_collector :: collector where
  "demo_collector = record_all 64 BenchmarkCollector [(''dbc_lookup'', 3), (''signal_decode'', 9), (''someip_publish'', 40), (''end_to_end'', 52)]"

lemma iter_events: "dom m \<subseteq> set gw_events \<Longrightarrow> iterates iter_events m"
proof -
  assume d: "dom m \<subseteq> set gw_events"
  have "distinct (map fst (iter_events m))"
    by (simp add: iter_events_def comp_def) (simp add: gw_events_def)
  moreover have "map_of (iter_events m) k = m k" for k
  proof (cases "m k")
    case None
    then show ?thesis by (simp add: iter_events_def map_of_eq_None_iff image_iff)
  next
    case (Some h)
    then have "k \<in> set gw_events" using d by auto
    with Some show ?thesis by (simp add: iter_events_def map_of_map_restrict)
  qed
  ultimately show ?thesis by (simp add: iterates_def fun_eq_iff)
qed

lemma demo_collector_ok:
  "dom (histograms demo_collector) \<subseteq> set gw_events"
  "\<forall>name h. histograms demo_collector name = Some h \<longrightarrow> hist_small 64 h \<and> (\<forall>x\<in>set name. jchar x)"
proof -
  have h: "histograms demo_collector = [''dbc_lookup'' \<mapsto> \<lparr>samples = [3], max_samples = 10000, total_count = 1\<rparr>,
     ''signal_decode'' \<mapsto> \<lparr>samples = [9], max_samples = 10000, total_count = 1\<rparr>,
     ''someip_publish'' \<mapsto> \<lparr>samples = [40], max_samples = 10000, total_count = 1\<rparr>,
     ''end_to_end'' \<mapsto> \<lparr>samples = [52], max_samples = 10000, total_count = 1\<rparr>]"
    by (simp add: demo_collector_def record_all_def bench_record_def BenchmarkCollector_def LatencyHistogram_def hist_record_def Let_def)
  show "dom (histograms demo_collector) \<subseteq> set gw_events" by (simp add: h gw_events_def)
  show "\<forall>name h. histograms demo_collector name = Some h \<longrightarrow> hist_small 64 h \<and> (\<forall>x\<in>set name. jchar x)"
    unfolding h by (auto simp: hist_small_def jchar_def split: if_splits)
qed

theorem json_report_reads_witness:
  "\<exists>s ms. to_json 64 iter_events demo_collector = Some s \<and> read_json s = Some (JObj ms) \<and> json_num ms ''total_messages'' = Some 4"
proof -
  have "total_messages demo_collector = 4" by (simp add: demo_collector_def record_all_total BenchmarkCollector_def)
  then show ?thesis
    using json_report_reads [OF iter_events [OF demo_collector_ok(1)] demo_collector_ok(2)] by auto
qed

text \<open>
  The table shows the statistics in the number base of the console. For every iteration order
  of the hash table, every console state and every collector whose values fit the columns,
  the table has one row per recorded event, from whose cells the count, the extremes and the three
  percentiles read back exactly and the mean to the nearest tenth, all integers in the base the
  console was left in; the table leaves the base as it was, and the console left-aligned.
\<close>

theorem table_reports:
  assumes "iterates iter (histograms c)" and "\<forall>name h. histograms c name = Some h \<longrightarrow> row_fits W name h" and "field_width os = 0"
  shows "\<exists>os' rows. print_table W iter c os = Some os' \<and> written os' = written os @ head_text @ concat rows @ foot_text (base_of os) (total_messages c)
     \<and> hexbase os' = hexbase os \<and> adjust_left os' \<and> field_width os' = 0
     \<and> list_all2 (\<lambda>name row. row_shows (base_of os) W name (the (histograms c name)) row) (shown_names c (event_names iter c)) rows
     \<and> distinct (shown_names c (event_names iter c))
     \<and> set (shown_names c (event_names iter c)) = {name. \<exists>h. histograms c name = Some h \<and> hist_count h \<noteq> 0}"
proof -
  let ?os = "os\<lparr>written := written os @ head_text, adjust_left := False\<rparr>"
  have "field_width ?os = 0" using assms(3) by simp
  from table_rows_text [OF assms(2) this, of "event_names iter c"] obtain os1 rows where
    r: "table_rows W c (event_names iter c) ?os = Some os1" "field_width os1 = 0" "hexbase os1 = hexbase os" "written os1 = written os @ head_text @ concat rows"
    "list_all2 (\<lambda>name row. row_shows (base_of ?os) W name (the (histograms c name)) row) (shown_names c (event_names iter c)) rows" by auto
  have b: "base_of ?os = base_of os" "base_of os1 = base_of os" using r(3) by (simp_all add: base_of_def)
  have "print_table W iter c os = Some (os1\<lparr>written := written os1 @ foot_text (base_of os1) (total_messages c), adjust_left := True\<rparr>)"
    using r(1,2) assms(3) by (simp add: print_table_def table_head_out table_foot_out)
  moreover have "distinct (shown_names c (event_names iter c))" using assms(1) by (simp add: shown_names_def event_names_def iterates_def)
  moreover have "set (shown_names c (event_names iter c)) = {name. \<exists>h. histograms c name = Some h \<and> hist_count h \<noteq> 0}"
  proof -
    have "set (event_names iter c) = dom (map_of (iter (histograms c)))" by (simp add: event_names_def dom_map_of_conv_image_fst)
    then have "set (event_names iter c) = dom (histograms c)" using assms(1) by (simp add: iterates_def)
    then show ?thesis by (auto simp: shown_names_def split: option.splits)
  qed
  ultimately show ?thesis using r b by auto
qed

lemma demo_rows_fit: "\<forall>name h. histograms demo_collector name = Some h \<longrightarrow> row_fits 64 name h"
proof (intro allI impI)
  fix name h assume "histograms demo_collector name = Some h"
  then have "\<exists>v\<in>{3, 9, 40, 52}. h = \<lparr>samples = [v], max_samples = 10000, total_count = 1\<rparr> \<and> length name \<le> 20"
    by (auto simp: demo_collector_def record_all_def bench_record_def BenchmarkCollector_def LatencyHistogram_def hist_record_def Let_def split: if_splits)
  then obtain v :: u64 where v: "v \<in> {3, 9, 40, 52}" "h = \<lparr>samples = [v], max_samples = 10000, total_count = 1\<rparr>" "length name \<le> 20" by blast
  have "fval (hist_mean \<lparr>samples = [v], max_samples = 10000, total_count = 1\<rparr>) < 999999"
    using v(1) by (elim insertE emptyE) (simp_all add: hist_mean_def fp_eval fval_def power_int_def power_divide)
  moreover have "unat v < 10 ^ 8" using v(1) by auto
  ultimately show "row_fits 64 name h"
    using v(2,3) by (simp add: row_fits_def hist_small_def hist_count_def hist_max_def max_element_def)
qed

theorem table_reports_witness:
  "\<exists>os' rows. print_table 64 iter_events demo_collector new_stream = Some os' \<and> length rows = 4
     \<and> row_shows 10 64 ''end_to_end'' (the (histograms demo_collector ''end_to_end'')) (rows ! 3)"
proof -
  have "shown_names demo_collector (event_names iter_events demo_collector) = gw_events"
    by (simp add: shown_names_def event_names_def iter_events_def gw_events_def demo_collector_def record_all_def bench_record_def
        BenchmarkCollector_def LatencyHistogram_def hist_record_def Let_def hist_count_def)
  with table_reports [OF iter_events [OF demo_collector_ok(1)] demo_rows_fit, of new_stream] obtain os' rows
    where r: "print_table 64 iter_events demo_collector new_stream = Some os'"
      "list_all2 (\<lambda>name row. row_shows 10 64 name (the (histograms demo_collector name)) row) gw_events rows"
    by (auto simp: new_stream_def base_of_def)
  have "length rows = 4" using list_all2_lengthD [OF r(2)] by (simp add: gw_events_def)
  moreover have "row_shows 10 64 (gw_events ! 3) (the (histograms demo_collector (gw_events ! 3))) (rows ! 3)"
    using list_all2_nthD [OF r(2), of 3] by (simp add: gw_events_def)
  ultimately show ?thesis using r(1) by (auto simp: gw_events_def)
qed

text \<open>
  The frame of the table is narrower than its rows: in characters (bytes that do not continue a
  UTF-8 sequence, the newline not counted) a horizontal line has 70, a row whose values fit has 81.
\<close>

definition chars :: "string \<Rightarrow> nat" where
  "chars s = length (filter (\<lambda>c. \<not> (128 \<le> (of_char c :: nat) \<and> (of_char c :: nat) < 192)) s)"

theorem table_not_aligned:
  assumes "row_fits W name h" and "base = 10 \<or> base = 16" and "p50 W h = Some a" and "p95 W h = Some b" and "p99 W h = Some c"
    and "\<forall>x\<in>set name. (of_char x :: nat) < 128"
  shows "chars (concat (map item_text (frame_line 0xA0 0xA3))) = 70 + 1 \<and> chars (row_text base name h a b c) = 81 + 1"
proof -
  have app: "chars (s @ t) = chars s + chars t" for s t by (simp add: chars_def)
  have box: "chars (box_char k) = 1" if "k \<in> {0x90, 0x91, 0xA0, 0xA3}" for k using that by (auto simp: chars_def box_char_def)
  have rep: "chars (concat (replicate n (box_char 0x90))) = n" for n by (induction n) (simp_all add: app box, simp add: chars_def)
  have ascii: "chars s = length s" if "\<forall>x\<in>set s. (of_char x :: nat) < 128" for s
    using that unfolding chars_def by (subst filter_True) (auto simp: not_le)
  obtain m e where m: "hist_mean h = Fin False m e"
    using hist_mean_finite assms(1) by (auto simp: row_fits_def hist_small_def)
  have digit: "(of_char x :: nat) < 128" if "is_digit k x" for x k
    using that by (auto simp: is_digit_def digit_val_def Let_def split: if_splits)
  have "\<forall>x\<in>set s. (of_char x :: nat) < 128" if "s \<in> set (row_cells base h a b c)" for s
  proof -
    have "\<forall>x\<in>set s. (\<exists>k. is_digit k x) \<or> x = CHR ''.''"
      using that show_base_digits [of base] show_fixed_double(2) [of 1 m e] assms(2) by (auto simp: row_cells_def m) blast+
    then show ?thesis using digit by auto
  qed
  then have "chars (padl 8 s) = 8" if "s \<in> set (row_cells base h a b c)" for s
    using that row_cells_short [OF assms(1-5)] by (subst ascii) (auto simp: padl_def)
  then have cs: "chars (concat (map (padl 8) (row_cells base h a b c))) = 56" by (simp add: row_cells_def app)
  have "chars (padr 20 name) = 20" using assms(1,6) by (subst ascii) (auto simp: padr_def row_fits_def)
  moreover have "chars (CHR '' '' # s) = Suc (chars s)" "chars endl = 1" for s by (simp_all add: chars_def endl_def)
  ultimately show ?thesis using cs by (simp add: frame_line_def row_text_cells vbar_def app box rep)
qed

end
