(* ===== verification/Console.thy ===== *)
theory Console
  imports Doip_Stream Event_Loop Stats_Reporter
begin

text \<open>
  What the diagnostic components and the main program write to \<open>std::cout\<close>, as items for the
  shared console stream (\<^verbatim>\<open>src/doip/uds_handler.cpp\<close>, \<^verbatim>\<open>src/doip/doip_server.cpp\<close>, the
  statistics part of \<^verbatim>\<open>src/main.cpp\<close> and its signal handler). The formatting flags that one
  statement sets stay set for the next. \<open>None\<close> is an access out of bounds, as in the handlers.
\<close>

section \<open>The UDS handler\<close>

definition em_dash :: string where
  "em_dash = [CHR 0xE2, CHR 0x80, CHR 0x94]"

definition negative_response_log :: "byte \<Rightarrow> byte \<Rightarrow> item list" where
  "negative_response_log service_id nrc =
     [Str ''[UDS] Negative response service=0x'', Hex, UInt (unat service_id), Str '' NRC=0x'', UInt (unat nrc), Dec, Str endl]"

definition session_control_log :: "byte list \<Rightarrow> nat \<Rightarrow> item list option" where
  "session_control_log req len =
     (if len < 2 then Some (negative_response_log UDS_SESSION_CONTROL UDS_NRC_REQUEST_OUT_OF_RANGE)
      else do {
        session_type \<leftarrow> rd req 1;
        Some [Str ''[UDS] SessionControl type=0x'', Hex, UInt (unat session_type), Dec, Str endl] })"

definition dtc_log :: "dtc \<Rightarrow> item list" where
  "dtc_log d =
     [Str ''[UDS]   DTC 0x'', Hex, UInt (unat (dtc_code d)), Str '' status=0x'', UInt (unat (dtc_status d)),
      Str '' ('', Str (dtc_description d), Str ('')'' @ endl)]"

definition read_dtc_log :: "uds_handler \<Rightarrow> byte list \<Rightarrow> nat \<Rightarrow> item list option" where
  "read_dtc_log u req len =
     (if len < 2 then Some (negative_response_log UDS_READ_DTC UDS_NRC_REQUEST_OUT_OF_RANGE)
      else do {
        sub_func \<leftarrow> rd req 1;
        Some ([Str ''[UDS] ReadDTC subFunction=0x'', Hex, UInt (unat sub_func), Dec, Str ('' '' @ em_dash @ '' ''),
               UInt (length (dtcs u)), Str ('' DTCs stored'' @ endl)]
              @ concat (map dtc_log (dtcs u))) })"

definition read_data_by_id_log :: "byte list \<Rightarrow> nat \<Rightarrow> item list option" where
  "read_data_by_id_log req len =
     (if len < 3 then Some (negative_response_log UDS_READ_DATA_BY_ID UDS_NRC_REQUEST_OUT_OF_RANGE)
      else do {
        hi \<leftarrow> rd req 1;
        lo \<leftarrow> rd req 2;
        let did = join16 hi lo;
        let first = [Str ''[UDS] ReadDataByID DID=0x'', Hex, UInt (unat did), Dec, Str endl];
        Some (first @
          (if did = 0xF190 then [Str ''[UDS]   VIN: '', Str ''BBB0000000000001'', Str endl]
           else if did = 0xF18C then [Str ''[UDS]   ECU Serial: '', Str ''ECU-BBB-2024-001'', Str endl]
           else if did = 0xF187 then [Str ''[UDS]   SW Version: '', Str ''v1.0.0-automotive-gateway'', Str endl]
           else [Str ''[UDS]   Unknown DID 0x'', Hex, UInt (unat did), Dec, Str endl]
                @ negative_response_log UDS_READ_DATA_BY_ID UDS_NRC_REQUEST_OUT_OF_RANGE)) })"

definition ecu_reset_log :: "byte list \<Rightarrow> nat \<Rightarrow> item list option" where
  "ecu_reset_log req len =
     (if len < 2 then Some (negative_response_log UDS_ECU_RESET UDS_NRC_REQUEST_OUT_OF_RANGE)
      else do {
        reset_type \<leftarrow> rd req 1;
        Some [Str ''[UDS] ECUReset type=0x'', Hex, UInt (unat reset_type), Dec,
              Str ('' (simulated '' @ em_dash @ '' not actually resetting)'' @ endl)] })"

definition uds_log :: "uds_handler \<Rightarrow> byte list \<Rightarrow> nat \<Rightarrow> item list option" where
  "uds_log u req len =
     (if len < 1 then Some (negative_response_log 0x00 UDS_NRC_SERVICE_NOT_SUPPORTED)
      else do {
        service_id \<leftarrow> rd req 0;
        let first = [Str ''[UDS] Service=0x'', Hex, UInt (unat service_id), Dec, Str endl];
        rest \<leftarrow>
          (if service_id = UDS_SESSION_CONTROL then session_control_log req len
           else if service_id = UDS_READ_DTC then read_dtc_log u req len
           else if service_id = UDS_READ_DATA_BY_ID then read_data_by_id_log req len
           else if service_id = UDS_ECU_RESET then ecu_reset_log req len
           else Some ([Str ''[UDS] Unknown service 0x'', Hex, UInt (unat service_id), Dec, Str endl]
                      @ negative_response_log service_id UDS_NRC_SERVICE_NOT_SUPPORTED));
        Some (first @ rest) })"

section \<open>The DoIP server\<close>

definition routing_activation_log :: "byte list \<Rightarrow> nat \<Rightarrow> item list option" where
  "routing_activation_log payload len =
     (if len < 2 then Some []
      else do {
        p0 \<leftarrow> rd payload 0;
        p1 \<leftarrow> rd payload 1;
        Some [Str ''[DOIP] Routing activation from tester 0x'', Hex, UInt (unat (join16 p0 p1)), Dec, Str endl,
              Str (''[DOIP] Routing activated '' @ em_dash @ '' ready for UDS'' @ endl)] })"

definition diagnostic_message_log :: "uds_handler \<Rightarrow> doip_connection \<Rightarrow> byte list \<Rightarrow> nat \<Rightarrow> item list option" where
  "diagnostic_message_log u conn payload len =
     (if \<not> activated conn then Some [Str (''[DOIP] Not activated '' @ em_dash @ '' rejecting'' @ endl)]
      else if len < 4 then Some []
      else do {
        p0 \<leftarrow> rd payload 0; p1 \<leftarrow> rd payload 1;
        p2 \<leftarrow> rd payload 2; p3 \<leftarrow> rd payload 3;
        let src_addr = join16 p0 p1;
        let tgt_addr = join16 p2 p3;
        let first = [Str ''[DOIP] Diagnostic message src=0x'', Hex, UInt (unat src_addr), Str '' tgt=0x'', UInt (unat tgt_addr), Dec, Str endl];
        rest \<leftarrow> uds_log u (drop 4 payload) (len - 4);
        Some (first @ rest) })"

definition doip_message_log :: "uds_handler \<Rightarrow> doip_connection \<Rightarrow> doip_header \<Rightarrow> byte list \<Rightarrow> nat \<Rightarrow> item list option" where
  "doip_message_log u conn hdr payload len = do {
     let first = [Str ''[DOIP] Message type=0x'', Hex, UInt (unat (payload_type hdr)), Dec, Str '' len='', UInt len, Str endl];
     rest \<leftarrow>
       (if payload_type hdr = DOIP_ROUTING_ACTIVATION_REQ then routing_activation_log payload len
        else if payload_type hdr = DOIP_DIAGNOSTIC_MESSAGE then diagnostic_message_log u conn payload len
        else if payload_type hdr = DOIP_ALIVE_CHECK_REQ then Some []
        else Some [Str ''[DOIP] Unknown payload type 0x'', Hex, UInt (unat (payload_type hdr)), Dec, Str endl]);
     Some (first @ rest) }"

section \<open>The main program\<close>

text \<open>The end of the frame callback, when the counter is a multiple of ten.\<close>

definition stats_log :: "nat \<Rightarrow> iteration \<Rightarrow> nat \<Rightarrow> collector \<Rightarrow> ostream \<Rightarrow> ostream option" where
  "stats_log W iter n c os = print_table W iter c (os_out [Str ''[GW] '', UInt n, Str ('' frames processed'' @ endl)] os)"

text \<open>The handler of SIGINT: the collector and the loop exist from some point of start-up on.\<close>

definition handle_sigint :: "nat \<Rightarrow> iteration \<Rightarrow> collector option \<Rightarrow> 'cb event_loop option \<Rightarrow> ostream \<Rightarrow> (ostream \<times> 'cb event_loop option) option" where
  "handle_sigint W iter g_bench g_loop os = do {
     let os = os_out [Str (endl @ ''[MAIN] Shutting down...'' @ endl)] os;
     os \<leftarrow> (case g_bench of
             None \<Rightarrow> Some os
           | Some c \<Rightarrow> do {
               os \<leftarrow> print_table W iter c os;
               report \<leftarrow> to_json W iter c;
               Some (os_out [Str report] os) });
     Some (os, map_option stop g_loop) }"

section \<open>The number base the console is left in\<close>

fun base_after :: "item list \<Rightarrow> bool \<Rightarrow> bool" where
  "base_after [] b = b"
| "base_after (Hex # items) b = base_after items True"
| "base_after (Dec # items) b = base_after items False"
| "base_after (_ # items) b = base_after items b"

lemma hexbase_os_out: "hexbase (os_out items os) = base_after items (hexbase os)"
proof (induction items arbitrary: os)
  case (Cons i items)
  then show ?case by (cases i) (simp_all add: put_field_def Let_def)
qed simp

lemma base_after_append: "base_after (xs @ ys) b = base_after ys (base_after xs b)"
  by (induction xs b rule: base_after.induct) simp_all

lemma base_after_dtcs: "base_after (concat (map dtc_log ds)) b \<longleftrightarrow> (if ds = [] then b else True)"
  by (induction ds arbitrary: b) (simp_all add: dtc_log_def base_after_append)

definition lists_dtcs :: "uds_handler \<Rightarrow> byte list \<Rightarrow> nat \<Rightarrow> bool" where
  "lists_dtcs u req len \<longleftrightarrow> 2 \<le> len \<and> req ! 0 = UDS_READ_DTC \<and> dtcs u \<noteq> []"

lemma uds_log_base:
  assumes "len \<le> length req"
  shows "\<exists>items. uds_log u req len = Some items \<and> (base_after items b \<longleftrightarrow> lists_dtcs u req len)"
proof -
  have rd: "rd req i = Some (req ! i)" if "i < len" for i using that assms by (simp add: rd_def)
  consider "len = 0" | "len = 1" | "len = 2" | "3 \<le> len" by linarith
  then show ?thesis
    by cases (auto simp: uds_log_def session_control_log_def read_dtc_log_def read_data_by_id_log_def ecu_reset_log_def negative_response_log_def
        rd base_after_append base_after_dtcs lists_dtcs_def uds_consts Let_def)
qed

text \<open>A DoIP message that makes the server list its trouble codes.\<close>

definition asks_for_dtcs :: "uds_handler \<Rightarrow> doip_connection \<Rightarrow> doip_header \<Rightarrow> byte list \<Rightarrow> nat \<Rightarrow> bool" where
  "asks_for_dtcs u conn hdr payload len \<longleftrightarrow>
     payload_type hdr = DOIP_DIAGNOSTIC_MESSAGE \<and> activated conn \<and> 4 \<le> len \<and> lists_dtcs u (drop 4 payload) (len - 4)"

lemma doip_message_log_base:
  assumes "len \<le> length payload"
  shows "\<exists>items. doip_message_log u conn hdr payload len = Some items \<and> (\<forall>b. base_after items b \<longleftrightarrow> asks_for_dtcs u conn hdr payload len)"
proof -
  have rd: "rd payload i = Some (payload ! i)" if "i < len" for i using that assms by (simp add: rd_def)
  show ?thesis
  proof (cases "payload_type hdr = DOIP_DIAGNOSTIC_MESSAGE \<and> activated conn \<and> 4 \<le> len")
    case True
    have "len - 4 \<le> length (drop 4 payload)" using assms by simp
    then have l: "\<exists>items. uds_log u (drop 4 payload) (len - 4) = Some items \<and> (base_after items b \<longleftrightarrow> lists_dtcs u (drop 4 payload) (len - 4))" for b
      by (rule uds_log_base)
    then obtain items where items: "uds_log u (drop 4 payload) (len - 4) = Some items" by blast
    with l have "base_after items b \<longleftrightarrow> lists_dtcs u (drop 4 payload) (len - 4)" for b by (metis option.inject)
    then show ?thesis using True items rd
      by (simp add: doip_message_log_def diagnostic_message_log_def asks_for_dtcs_def doip_consts base_after_append)
  next
    case False
    then show ?thesis using rd
      by (auto simp: doip_message_log_def diagnostic_message_log_def routing_activation_log_def asks_for_dtcs_def doip_consts base_after_append)
  qed
qed

text \<open>Without \<open>setw\<close> no field width is pending at the end.\<close>

fun is_setw :: "item \<Rightarrow> bool" where
  "is_setw (SetW w) = True"
| "is_setw _ = False"

lemma field_width_os_out: "\<forall>i\<in>set items. \<not> is_setw i \<Longrightarrow> field_width os = 0 \<Longrightarrow> field_width (os_out items os) = 0"
proof (induction items arbitrary: os)
  case (Cons i items)
  then show ?case by (cases i) (simp_all add: put_field_def Let_def)
qed simp

lemma uds_log_no_setw: "uds_log u req len = Some items \<Longrightarrow> \<forall>i\<in>set items. \<not> is_setw i"
  by (auto simp: uds_log_def session_control_log_def read_dtc_log_def read_data_by_id_log_def ecu_reset_log_def negative_response_log_def
      dtc_log_def Let_def Option.bind_eq_Some_conv split: if_splits)

lemma doip_message_log_no_setw: "doip_message_log u conn hdr payload len = Some items \<Longrightarrow> \<forall>i\<in>set items. \<not> is_setw i"
  using uds_log_no_setw
  by (auto simp: doip_message_log_def diagnostic_message_log_def routing_activation_log_def Let_def Option.bind_eq_Some_conv split: if_splits)

section \<open>Properties\<close>

lemma stats_log_base:
  assumes "iterates iter (histograms c)" and "\<forall>name h. histograms c name = Some h \<longrightarrow> row_fits W name h" and "field_width os = 0"
  shows "\<exists>os' rows. stats_log W iter n c os = Some os' \<and> written os' = written os @ ''[GW] '' @ show_base (base_of os) n @ '' frames processed'' @ endl
       @ head_text @ concat rows @ foot_text (base_of os) (total_messages c)
     \<and> list_all2 (\<lambda>name row. row_shows (base_of os) W name (the (histograms c name)) row) (shown_names c (event_names iter c)) rows"
proof -
  define os1 where "os1 = os\<lparr>written := written os @ ''[GW] '' @ show_base (base_of os) n @ '' frames processed'' @ endl\<rparr>"
  have "os_out [Str ''[GW] '', UInt n, Str ('' frames processed'' @ endl)] os = os1"
    using assms(3) by (cases os) (simp add: put_field_def base_of_def os1_def)
  then have eq: "stats_log W iter n c os = print_table W iter c os1" by (simp only: stats_log_def)
  have w: "field_width os1 = 0" "base_of os1 = base_of os" "written os1 = written os @ ''[GW] '' @ show_base (base_of os) n @ '' frames processed'' @ endl"
    using assms(3) by (simp_all add: os1_def base_of_def)
  from table_reports [OF assms(1,2) w(1)] show ?thesis unfolding eq w(2,3) by (simp only: append_assoc) blast
qed

text \<open>
  C24: Listing the trouble codes leaves the console in hexadecimal. Whatever the console state, a
  DoIP message handled inside its memory is logged, and the statistics that follow are in base 16
  if the message was a \<open>ReadDTC\<close> request that listed stored codes, and in base 10 for every other
  message: the frame counter, the cells of the table and the total.
\<close>

theorem statistics_base:
  assumes "len \<le> length payload" and "field_width os = 0" and "iterates iter (histograms c)"
    and "\<forall>name h. histograms c name = Some h \<longrightarrow> row_fits W name h"
    and base: "base = (if asks_for_dtcs u conn hdr payload len then 16 else 10)"
  shows "\<exists>items os' rows. doip_message_log u conn hdr payload len = Some items \<and> stats_log W iter n c (os_out items os) = Some os'
     \<and> written os' = written (os_out items os) @ ''[GW] '' @ show_base base n @ '' frames processed'' @ endl
          @ head_text @ concat rows @ foot_text base (total_messages c)
     \<and> list_all2 (\<lambda>name row. row_shows base W name (the (histograms c name)) row) (shown_names c (event_names iter c)) rows"
proof -
  from doip_message_log_base [OF assms(1)] obtain items where items: "doip_message_log u conn hdr payload len = Some items"
    "\<forall>b. base_after items b \<longleftrightarrow> asks_for_dtcs u conn hdr payload len" by blast
  have w: "field_width (os_out items os) = 0" using doip_message_log_no_setw [OF items(1)] assms(2) by (intro field_width_os_out)
  have "base_of (os_out items os) = base" using items(2) base by (simp add: base_of_def hexbase_os_out)
  with stats_log_base [OF assms(3,4) w, of n] items(1) show ?thesis by auto
qed

definition dtc_request :: "byte list" where
  "dtc_request = [0x0E, 0x00, 0xE0, 0x00, 0x19, 0x02]"

theorem statistics_base_witness:
  "\<exists>items os' rows. doip_message_log UdsHandler (DoIpConnection\<lparr>activated := True\<rparr>) (DoIpHeader\<lparr>payload_type := DOIP_DIAGNOSTIC_MESSAGE\<rparr>) dtc_request 6 = Some items
     \<and> stats_log 64 iter_events 10 demo_collector (os_out items new_stream) = Some os'
     \<and> written os' = written (os_out items new_stream) @ ''[GW] a frames processed'' @ endl @ head_text @ concat rows @ foot_text 16 4"
proof -
  have ask: "16 = (if asks_for_dtcs UdsHandler (DoIpConnection\<lparr>activated := True\<rparr>) (DoIpHeader\<lparr>payload_type := DOIP_DIAGNOSTIC_MESSAGE\<rparr>) dtc_request 6
     then 16 else 10 :: nat)"
    by (simp add: asks_for_dtcs_def lists_dtcs_def dtc_request_def UdsHandler_def UDS_READ_DTC_def)
  have "show_base 16 10 = ''a''" by (simp add: show_base.simps [of 16 10] digit_char_def) code_simp
  moreover have "total_messages demo_collector = 4" by (simp add: demo_collector_def record_all_total BenchmarkCollector_def)
  ultimately show ?thesis
    using statistics_base [OF _ _ iter_events [OF demo_collector_ok(1)] demo_rows_fit ask, of new_stream 10] by (auto simp: dtc_request_def new_stream_def)
qed

end
