(* ===== verification/Gateway_Report.thy ===== *)
theory Gateway_Report
  imports Gateway_Run Console
begin

text \<open>
  The statistics of the whole program: what the callbacks record, and what the handler of SIGINT
  reports in every state the program can reach.
\<close>

section \<open>What the callbacks record\<close>

definition bench_inv :: "gateway \<Rightarrow> bool" where
  "bench_inv gw \<longleftrightarrow>
     (\<forall>name h. histograms (gw_bench gw) name = Some h \<longrightarrow>
        name \<in> set gw_events \<and> length (samples h) \<le> 10000 \<and> max_samples h = 10000)
     \<and> total_messages (gw_bench gw) = (4 * frame_count gw) mod 2 ^ 64"

lemma hist_record_bounded:
  "length (samples h) \<le> 10000 \<and> max_samples h = 10000 \<Longrightarrow>
   length (samples (hist_record W h v)) \<le> 10000 \<and> max_samples (hist_record W h v) = 10000"
  by (auto simp: hist_record_def Let_def)

lemma record_all_bounded:
  assumes "\<forall>name h. histograms c name = Some h \<longrightarrow> name \<in> N \<and> length (samples h) \<le> 10000 \<and> max_samples h = 10000"
    and "fst ` set recs \<subseteq> N"
  shows "\<forall>name h. histograms (record_all W c recs) name = Some h \<longrightarrow> name \<in> N \<and> length (samples h) \<le> 10000 \<and> max_samples h = 10000"
  using assms
proof (induction recs arbitrary: c)
  case Nil
  then show ?case by (simp add: record_all_def)
next
  case (Cons r recs)
  let ?c = "bench_record W c (fst r) (snd r)"
  have "\<forall>name h. histograms ?c name = Some h \<longrightarrow> name \<in> N \<and> length (samples h) \<le> 10000 \<and> max_samples h = 10000"
  proof (intro allI impI)
    fix name h assume h: "histograms ?c name = Some h"
    show "name \<in> N \<and> length (samples h) \<le> 10000 \<and> max_samples h = 10000"
    proof (cases "name = fst r")
      case False
      with h Cons.prems(1) show ?thesis by (simp add: bench_record_def Let_def)
    next
      case True
      define h0 where "h0 = (case histograms c name of None \<Rightarrow> LatencyHistogram 10000 | Some h \<Rightarrow> h)"
      have "length (samples h0) \<le> 10000 \<and> max_samples h0 = 10000"
        using Cons.prems(1) by (auto simp: h0_def LatencyHistogram_def split: option.splits)
      moreover have "h = hist_record W h0 (snd r)" using h True by (simp add: bench_record_def Let_def h0_def)
      ultimately show ?thesis using hist_record_bounded [of h0 W "snd r"] True Cons.prems(2) by simp
    qed
  qed
  moreover have "fst ` set recs \<subseteq> N" using Cons.prems(2) by simp
  ultimately have "\<forall>name h. histograms (record_all W ?c recs) name = Some h \<longrightarrow> name \<in> N \<and> length (samples h) \<le> 10000 \<and> max_samples h = 10000"
    by (rule Cons.IH)
  moreover have "record_all W c (r # recs) = record_all W ?c recs" by (simp add: record_all_def case_prod_unfold)
  ultimately show ?case by (simp only:)
qed

lemma after_publish_count:
  "after_publish W inet now gw = Some (gw', out') \<Longrightarrow> frame_count gw' = (frame_count gw + 1) mod 2 ^ W"
  by (auto simp: after_publish_def watchdog_check_def periodic_offer_def Let_def Option.bind_eq_Some_conv split: if_splits prod.splits)

lemma on_frame_bench:
  assumes "on_frame 64 inet buf clk f gw = Some (gw', out')" and "length buf = SOMEIP_MAX_SIZE" and "bench_inv gw"
  shows "bench_inv gw'"
proof (cases "find_message (gw_dbc gw) (masked_id f)")
  case None
  with assms(1,3) show ?thesis by (auto simp: on_frame_unknown bench_inv_def)
next
  case (Some msg)
  obtain ds where "decode f msg = Some ds"
    using assms(1) Some by (cases "decode f msg") (simp_all add: on_frame_def masked_id_def)
  note known = on_frame_known [OF Some this assms(2)]
  let ?gw = "gw\<lparr>gw_wd := feed (gw_wd gw) (clk_feed clk), gw_bench := record_all 64 (gw_bench gw) (frame_samples clk),
    gw_pub := fst (published buf (gw_pub gw) ds)\<rparr>"
  obtain out1 where 1: "after_publish 64 inet (clk_check clk) ?gw = Some (gw', out1)"
    using assms(1) unfolding known by (auto simp: Option.bind_eq_Some_conv)
  have b: "gw_bench gw' = record_all 64 (gw_bench gw) (frame_samples clk)"
    using after_publish_total [of 64 inet "clk_check clk" ?gw] 1 by auto
  have n: "frame_count gw' = (frame_count gw + 1) mod 2 ^ 64" using after_publish_count [OF 1] by simp
  have "total_messages (gw_bench gw') = (total_messages (gw_bench gw) + 4) mod 2 ^ 64"
    unfolding b by (subst record_all_total) (simp_all add: frame_samples_def add.commute)
  also have "\<dots> = (4 * frame_count gw + 4) mod 2 ^ 64" using assms(3) by (simp add: bench_inv_def mod_simps)
  also have "\<dots> = (4 * frame_count gw') mod 2 ^ 64" unfolding n by (simp add: mod_mult_right_eq add.commute)
  finally have t: "total_messages (gw_bench gw') = (4 * frame_count gw') mod 2 ^ 64" .
  have "fst ` set (frame_samples clk) \<subseteq> set gw_events" by (simp add: frame_samples_def gw_events_def)
  with record_all_bounded [of "gw_bench gw" "set gw_events" "frame_samples clk" 64] assms(3) t show ?thesis
    unfolding bench_inv_def b by blast
qed

lemma gw_call_bench:
  assumes "gw_call 64 fuel inet cb x (l, gw, out) = Some (b, l', gw', out')" and "input_ok x" and "bench_inv gw"
  shows "bench_inv gw'"
proof (cases cb)
  case CanReader
  obtain r where r: "can_on_readable True (in_can x) = Some r" using assms(1) CanReader by (auto simp: gw_call_def split: Option.bind_splits)
  show ?thesis
  proof (cases r)
    case None
    with assms(1,3) r CanReader show ?thesis by (auto simp: gw_call_def)
  next
    case (Some f)
    then obtain out1 where "on_frame 64 inet (in_stack x) (in_clocks x) f gw = Some (gw', out1)"
      using assms(1) r CanReader by (auto simp: gw_call_def split: Option.bind_splits)
    then show ?thesis by (rule on_frame_bench) (use assms(2,3) in \<open>simp_all add: input_ok_def\<close>)
  qed
qed (use assms(1,3) in \<open>auto simp: gw_call_def bench_inv_def Let_def split: Option.bind_splits sum.splits prod.splits option.splits\<close>)

interpretation gw_stats: callbacks_also "gw_call 64 4097 inet" gw_inv input_ok "\<lambda>st. bench_inv (fst (snd st))" "\<lambda>_. True" for inet
proof
  fix st st' :: gw_state and cb x thrown
  assume a: "bench_inv (fst (snd st))" "input_ok x" "gw_call 64 4097 inet cb x st = Some (thrown, st')"
  obtain l gw out l' gw' out' where st: "st = (l, gw, out)" "st' = (l', gw', out')" by (cases st, cases st') auto
  from gw_call_bench [OF a(3) [unfolded st] a(2)] a(1) show "bench_inv (fst (snd st'))" by (simp add: st)
qed simp

lemma initial_bench: "bench_inv (initial_gateway s ip routes ms)"
  by (simp add: bench_inv_def initial_gateway_def BenchmarkCollector_def)

lemma run_keeps_bench:
  assumes "dbc_defined (snd (dbc_parse Map.empty vehicle))" and "\<forall>r\<in>set rs. wait_ok input_ok r"
    and "gw_main 64 4097 inet s args conf vehicle rs = Some (StillRunning st)"
  shows "bench_inv (fst (snd st))"
proof -
  let ?I = "\<lambda>st. gw_inv st \<and> bench_inv (fst (snd st))"
  have "\<exists>res. gw_main 64 4097 inet s args conf vehicle rs = Some res \<and> True \<and> (\<forall>st. res = StillRunning st \<longrightarrow> ?I st)"
  proof (rule gw_main_result)
    fix st assume st: "gw_start 64 inet s args conf vehicle = Inr st"
    have "?I ((fst st)\<lparr>running := True\<rparr>, snd st)"
      using start_inv [OF st assms(1)] start_state [OF st] initial_bench by simp
    then show "\<exists>res. loop_run (gw_call 64 4097 inet) rs st = Some res \<and> ?I (result_state res)"
      unfolding loop_run_def by (rule gw_stats.both.loop_inv) (use assms(2) in simp)
  qed simp_all
  with assms(3) show ?thesis by (simp del: split_paired_All)
qed

section \<open>The report at any time\<close>

lemma table_rows_defined:
  assumes "\<forall>name h. histograms c name = Some h \<longrightarrow> hist_small W h"
  shows "field_width os = 0 \<Longrightarrow> \<exists>os'. table_rows W c names os = Some os' \<and> field_width os' = 0"
proof (induction names arbitrary: os)
  case (Cons name names)
  show ?case
  proof (cases "\<exists>h. histograms c name = Some h \<and> hist_count h \<noteq> 0")
    case False
    then have "table_rows W c (name # names) os = table_rows W c names os" by (auto simp: bench_get_def split: option.splits)
    then show ?thesis using Cons by simp
  next
    case True
    then obtain h where h: "histograms c name = Some h" "hist_count h \<noteq> 0" by blast
    then have "hist_small W h" using assms by blast
    from table_row_text [OF this Cons.prems, of name] obtain row t where row: "table_row W name h = Some row"
      "os_out row os = os\<lparr>written := t, adjust_left := False, float_fixed := True, float_prec := 1\<rparr>" by blast
    then have "field_width (os_out row os) = 0" using Cons.prems by simp
    from Cons.IH [OF this] h row(1) show ?thesis by (simp add: bench_get_def)
  qed
qed simp

lemma print_table_defined:
  assumes "\<forall>name h. histograms c name = Some h \<longrightarrow> hist_small W h" and "field_width os = 0"
  shows "\<exists>os'. print_table W iter c os = Some os' \<and> field_width os' = 0"
proof -
  have "field_width (os_out table_head os) = 0" using assms(2) by (simp add: table_head_out)
  from table_rows_defined [OF assms(1) this, of "event_names iter c"] show ?thesis by (auto simp: print_table_def table_foot_out)
qed

lemma event_names_plain: "name \<in> set gw_events \<Longrightarrow> \<forall>x\<in>set name. jchar x"
  by (auto simp: gw_events_def jchar_def)

lemma bench_inv_small: "bench_inv gw \<Longrightarrow> histograms (gw_bench gw) name = Some h \<Longrightarrow> hist_small 64 h \<and> (\<forall>x\<in>set name. jchar x)"
proof -
  assume "bench_inv gw" and "histograms (gw_bench gw) name = Some h"
  then have h: "name \<in> set gw_events" "length (samples h) \<le> 10000" by (auto simp: bench_inv_def)
  then show ?thesis using event_names_plain [OF h(1)] by (simp add: hist_small_def)
qed

section \<open>Properties\<close>

text \<open>
  C9: The report at shutdown. In every state in which the program waits, whatever happened before,
  the handler of SIGINT asks the loop to stop and its output ends with valid JSON: the number of
  messages is four times the number of frames forwarded (modulo \<open>2 ^ 64\<close>), and there is one object
  per recorded event with its count, extremes and percentiles exactly and its mean within five
  millionths.
\<close>

theorem sigint_report:
  assumes "dbc_defined (snd (dbc_parse Map.empty vehicle))" and "\<forall>r\<in>set rs. wait_ok input_ok r"
    and "gw_main 64 4097 inet s args conf vehicle rs = Some (StillRunning (l, gw, sent))"
    and "iterates iter (histograms (gw_bench gw))" and "field_width os = 0"
  shows "\<exists>os' before report ms es. handle_sigint 64 iter (Some (gw_bench gw)) (Some l) os = Some (os', Some (stop l)) \<and> \<not> running (stop l)
     \<and> written os' = before @ report \<and> read_json report = Some (JObj ms)
     \<and> json_num ms ''total_messages'' = Some (real ((4 * frame_count gw) mod 2 ^ 64)) \<and> map_of ms ''latency'' = Some (JObj es)
     \<and> (\<forall>name. (histograms (gw_bench gw) name = None \<longrightarrow> map_of es name = None)
          \<and> (\<forall>h. histograms (gw_bench gw) name = Some h \<longrightarrow> (\<exists>fs. map_of es name = Some (JObj fs) \<and> hist_reported 64 h fs)))"
proof -
  have inv: "bench_inv gw" using run_keeps_bench [OF assms(1-3)] by simp
  then have small: "\<forall>name h. histograms (gw_bench gw) name = Some h \<longrightarrow> hist_small 64 h \<and> (\<forall>x\<in>set name. jchar x)"
    using bench_inv_small by blast
  have total: "total_messages (gw_bench gw) = (4 * frame_count gw) mod 2 ^ 64" using inv by (simp add: bench_inv_def)
  from json_report_reads [OF assms(4) small] obtain report ms es where j: "to_json 64 iter (gw_bench gw) = Some report"
    "read_json report = Some (JObj ms)" "json_num ms ''total_messages'' = Some (real (total_messages (gw_bench gw)))"
    "map_of ms ''latency'' = Some (JObj es)"
    "\<forall>name. (histograms (gw_bench gw) name = None \<longrightarrow> map_of es name = None)
      \<and> (\<forall>h. histograms (gw_bench gw) name = Some h \<longrightarrow> (\<exists>fs. map_of es name = Some (JObj fs) \<and> hist_reported 64 h fs))" by blast
  let ?os = "os_out [Str (endl @ ''[MAIN] Shutting down...'' @ endl)] os"
  have "field_width ?os = 0" using assms(5) by (simp add: put_field_def Let_def)
  with print_table_defined [of "gw_bench gw" 64 ?os iter] small obtain os1 where
    t: "print_table 64 iter (gw_bench gw) ?os = Some os1" "field_width os1 = 0" by blast
  have "handle_sigint 64 iter (Some (gw_bench gw)) (Some l) os = Some (os_out [Str report] os1, Some (stop l))"
    using t(1) j(1) by (simp add: handle_sigint_def Let_def del: out_simps)
  moreover have "written (os_out [Str report] os1) = written os1 @ report" using t(2) by (simp add: put_field_def Let_def)
  moreover have "\<not> running (stop l)" by (simp add: stop_def)
  ultimately show ?thesis using j(2-5) unfolding total by blast
qed

theorem sigint_report_witness:
  "\<exists>l gw sent os' before report ms. gw_main 64 4097 (\<lambda>_. 0) demo_startup [] (Some demo_conf) (Some (lf_file [brake_header, brake_line])) []
       = Some (StillRunning (l, gw, sent))
     \<and> handle_sigint 64 iter_events (Some (gw_bench gw)) (Some l) new_stream = Some (os', Some (stop l))
     \<and> written os' = before @ report \<and> read_json report = Some (JObj ms) \<and> json_num ms ''total_messages'' = Some 0"
proof -
  let ?gw = "initial_gateway demo_startup 0 (snd (config_load 64 [] (Some demo_conf))) (snd (dbc_parse Map.empty (Some (lf_file [brake_header, brake_line]))))"
  have run: "gw_main 64 4097 (\<lambda>_. 0) demo_startup [] (Some demo_conf) (Some (lf_file [brake_header, brake_line])) []
       = Some (StillRunning ((initial_loop demo_startup)\<lparr>running := True\<rparr>, ?gw, [first_offer (\<lambda>_. 0) []]))"
    using gw_start_succeeds [of 64 "Some demo_conf" "Some (lf_file [brake_header, brake_line])" demo_startup "\<lambda>_. 0" "[]"] demo_sys_ok
    by (simp add: gw_main_def loop_run_def demo_config demo_dbc)
  have empty: "histograms (gw_bench ?gw) = Map.empty" "frame_count ?gw = 0" by (simp_all add: initial_gateway_def BenchmarkCollector_def)
  have "iterates iter_events (histograms (gw_bench ?gw))" by (rule iter_events) (simp add: empty)
  from sigint_report [OF demo_vehicle_defined _ run this, of new_stream] empty(2) run show ?thesis by (auto simp: new_stream_def)
qed

end
