(* ===== verification/Gateway_Traffic.thy ===== *)
theory Gateway_Traffic
  imports Gateway_Run
begin

text \<open>
  The traffic of the whole program: a type for each kind of output, and that every output of
  every run has its type.
\<close>

section \<open>Types of outputs\<close>

text \<open>A notification: a message of 20 bytes for a service and method of the routes.\<close>

definition notification_typed :: "(string \<rightharpoonup> u16 \<times> u16) \<Rightarrow> byte list \<Rightarrow> bool" where
  "notification_typed routes d \<longleftrightarrow> length d = 20 \<and> (\<exists>m. someip_next d = Some (m, 20) \<and> msg_type m = SOMEIP_MSG_NOTIFICATION
     \<and> return_code m = SOMEIP_RET_OK \<and> payload_size m = 4 \<and> (service_id m, method_id m) \<in> ran routes)"

text \<open>Discovery traffic: the offer of the own services for the group, or one acknowledgement.\<close>

definition sd_typed :: "(string \<Rightarrow> u32) \<Rightarrow> u32 \<Rightarrow> sd_out \<Rightarrow> bool" where
  "sd_typed inet ip x = (case x of
      SendDatagram dest d \<Rightarrow>
        (\<exists>sess. d = someip_bytes (sd_someip (offers_message (own_services ip)) sess)
           \<and> dest = \<lparr>sin_port = htons SOMEIP_SD_PORT, sin_addr = inet SOMEIP_SD_MULTICAST\<rparr>)
        \<or> (\<exists>sess req. d = ack_bytes sess req)
    | OnSubscribe _ \<Rightarrow> True)"

text \<open>Diagnostic traffic: a framed response of one of the four kinds.\<close>

definition doip_typed :: "doip_out \<Rightarrow> bool" where
  "doip_typed x = (case x of
      SendTo fd d \<Rightarrow> \<exists>ty pl. d = doip_frame ty pl
        \<and> ty \<in> {DOIP_ROUTING_ACTIVATION_RES, DOIP_DIAGNOSTIC_ACK, DOIP_DIAGNOSTIC_MESSAGE, DOIP_ALIVE_CHECK_RES}
    | CloseFd fd \<Rightarrow> True)"

definition output_typed :: "(string \<Rightarrow> u32) \<Rightarrow> u32 \<Rightarrow> (string \<rightharpoonup> u16 \<times> u16) \<Rightarrow> gw_out \<Rightarrow> bool" where
  "output_typed inet ip routes x = (case x of
      Notify d \<Rightarrow> notification_typed routes d
    | SdOut y \<Rightarrow> sd_typed inet ip y
    | DoipOut y \<Rightarrow> doip_typed y
    | BusSilent \<Rightarrow> True
    | StatsTable n \<Rightarrow> STATS_EVERY_N dvd n)"

section \<open>Each component\<close>

lemma notifications_messages:
  "d \<in> set (notifications sess rs) \<Longrightarrow> \<exists>s m v sess'. (s, m, v) \<in> set rs \<and> d = someip_bytes (float_message s m sess' v)"
  by (induction sess rs rule: notifications.induct) auto

lemma routed_ran: "(s, m, v) \<in> set (routed p ds) \<Longrightarrow> (s, m) \<in> ran (signal_map p)"
  by (auto simp: routed_def ran_def split: option.splits)

lemma published_typed:
  assumes "d \<in> set (snd (published buf p ds))"
  shows "notification_typed (signal_map p) d"
proof -
  obtain s m v sess where "(s, m, v) \<in> set (routed p ds)" and d: "d = someip_bytes (float_message s m sess v)"
    using assms notifications_messages by (fastforce simp: published_routed)
  then have "(s, m) \<in> ran (signal_map p)" using routed_ran by blast
  then show ?thesis unfolding notification_typed_def d
    by (simp add: float_message_next payload_size_def) (simp add: float_message_def someip_consts)
qed

lemma send_offers_typed:
  assumes "send_offers inet sd = Some (sd', out)" and "offered sd = own_services ip"
  shows "offered sd' = own_services ip \<and> (\<forall>x\<in>set out. sd_typed inet ip x)"
  using assms by (auto simp: send_offers_spec [where W = 64] sd_typed_def split: if_splits)

lemma ack_typed: "sd_typed inet ip (SendDatagram dest (ack_bytes sess req))"
  unfolding sd_typed_def sd_out.case by blast

lemma accept_typed: "x \<in> set (snd (accept_request from_addr sd req)) \<Longrightarrow> sd_typed inet ip x"
  by (auto simp: accept_request_def Let_def ack_typed sd_typed_def [of _ _ "OnSubscribe _"] split: if_splits)

lemma accept_run_typed: "x \<in> set (snd (run_steps (accept_request from_addr) sd reqs)) \<Longrightarrow> sd_typed inet ip x"
proof (induction reqs arbitrary: sd)
  case (Cons req reqs)
  then show ?case using accept_typed [of x from_addr sd req] by (auto split: prod.splits) (metis snd_conv)+
qed simp

lemma sd_readable_typed:
  assumes "sd_on_readable W sd r = Some (sd', out)"
  shows "offered sd' = offered sd \<and> (\<forall>x\<in>set out. sd_typed inet ip x)"
proof (cases r)
  case (Some p)
  obtain bytes from_addr where p: "p = (bytes, from_addr)" by (cases p)
  have "run_steps (accept_request from_addr) sd (sd_requests W bytes) = (sd', out)"
    using assms Some p by (simp add: sd_on_readable_def handle_sd_spec)
  with accept_run [OF this] accept_run_typed [of _ from_addr sd "sd_requests W bytes" inet ip] show ?thesis by simp
qed (use assms in \<open>simp add: sd_on_readable_def\<close>)

lemma frame_typed:
  "ty \<in> {DOIP_ROUTING_ACTIVATION_RES, DOIP_DIAGNOSTIC_ACK, DOIP_DIAGNOSTIC_MESSAGE, DOIP_ALIVE_CHECK_RES}
   \<Longrightarrow> doip_typed (SendTo fd (doip_frame ty pl))"
  unfolding doip_typed_def doip_out.case by blast

lemma handle_doip_message_typed:
  "handle_doip_message uds conn hdr pl n = Some (conn', out) \<Longrightarrow> x \<in> set out \<Longrightarrow> doip_typed x"
  by (auto simp: handle_doip_message_def handle_routing_activation_def handle_diagnostic_message_def send_to_client_def
      make_doip_message_frame frame_typed Let_def Option.bind_eq_Some_conv split: if_splits)

lemma rx_loop_typed: "rx_loop W uds fuel conn = Inr (conn', out) \<Longrightarrow> x \<in> set out \<Longrightarrow> doip_typed x"
proof (induction fuel arbitrary: conn conn' out)
  case 0
  then show ?case by (simp add: rx_loop.simps)
next
  case (Suc fuel)
  from Suc.prems show ?case
    by (auto simp: rx_loop.simps(2) Let_def dest: handle_doip_message_typed Suc.IH
        split: if_splits option.splits prod.splits sum.splits)
qed

lemma on_client_data_typed: "on_client_data W fuel srv fd r = Inr (srv', out) \<Longrightarrow> x \<in> set out \<Longrightarrow> doip_typed x"
  by (auto simp: on_client_data_def Let_def doip_typed_def [of "CloseFd _"] dest: rx_loop_typed
      split: if_splits option.splits prod.splits sum.splits)

section \<open>The callbacks\<close>

lemma periodic_offer_typed:
  assumes "periodic_offer W inet gw = Some (gw', out)" and "offered (gw_sd gw) = own_services ip"
  shows "offered (gw_sd gw') = own_services ip \<and> (\<forall>x\<in>set out. output_typed inet ip routes x)"
proof (cases "gw' = gw \<and> out = []")
  case False
  then obtain sd1 out1 where 1: "send_offers inet (gw_sd gw) = Some (sd1, out1)" "gw_sd gw' = sd1" "out = map SdOut out1"
    using assms(1) by (auto simp: periodic_offer_def Option.bind_eq_Some_conv split: if_splits)
  from send_offers_typed [OF 1(1) assms(2)] 1(2,3) show ?thesis by (auto simp: output_typed_def)
qed (use assms(2) in simp)

lemma after_publish_typed:
  assumes "after_publish W inet now gw = Some (gw', out)" and "offered (gw_sd gw) = own_services ip"
  shows "offered (gw_sd gw') = own_services ip \<and> (\<forall>x\<in>set out. output_typed inet ip routes x)"
proof -
  let ?gw1 = "gw\<lparr>frame_count := (frame_count gw + 1) mod 2 ^ W\<rparr>"
  let ?gw2 = "fst (watchdog_check now ?gw1)"
  have alarm: "\<forall>x\<in>set (snd (watchdog_check now ?gw1)). output_typed inet ip routes x"
    by (simp add: watchdog_check_def output_typed_def)
  obtain offers where 3: "periodic_offer W inet ?gw2 = Some (gw', offers)"
    and out: "out = snd (watchdog_check now ?gw1) @ offers
      @ (if frame_count gw' mod STATS_EVERY_N = 0 then [StatsTable (frame_count gw')] else [])"
    using assms(1) by (auto simp: after_publish_def case_prod_unfold Let_def Option.bind_eq_Some_conv)
  have "offered (gw_sd ?gw2) = own_services ip" using assms(2) by (simp add: watchdog_check_frame)
  then have "offered (gw_sd gw') = own_services ip \<and> (\<forall>x\<in>set offers. output_typed inet ip routes x)"
    by (rule periodic_offer_typed [OF 3])
  with alarm show ?thesis unfolding out by (auto simp: output_typed_def [of _ _ _ "StatsTable _"] dvd_eq_mod_eq_0)
qed

lemma on_frame_typed:
  assumes "on_frame W inet buf clk f gw = Some (gw', out)" and "length buf = SOMEIP_MAX_SIZE" and "offered (gw_sd gw) = own_services ip"
  shows "offered (gw_sd gw') = own_services ip \<and> (\<forall>x\<in>set out. output_typed inet ip (signal_map (gw_pub gw)) x)"
proof (cases "find_message (gw_dbc gw) (masked_id f)")
  case None
  with assms(1,3) show ?thesis by (auto simp: on_frame_unknown)
next
  case (Some msg)
  obtain ds where "decode f msg = Some ds"
    using assms(1) Some by (cases "decode f msg") (simp_all add: on_frame_def masked_id_def)
  note known = on_frame_known [OF Some this assms(2)]
  let ?gw = "gw\<lparr>gw_wd := feed (gw_wd gw) (clk_feed clk), gw_bench := record_all W (gw_bench gw) (frame_samples clk),
    gw_pub := fst (published buf (gw_pub gw) ds)\<rparr>"
  obtain out1 where 1: "after_publish W inet (clk_check clk) ?gw = Some (gw', out1)" "out = map Notify (snd (published buf (gw_pub gw) ds)) @ out1"
    using assms(1) unfolding known by (auto simp: Option.bind_eq_Some_conv)
  have "offered (gw_sd ?gw) = own_services ip" using assms(3) by simp
  from after_publish_typed [OF 1(1) this] show ?thesis
    unfolding 1(2) using published_typed by (auto simp: output_typed_def [of _ _ _ "Notify _"])
qed

definition traffic_inv :: "(string \<Rightarrow> u32) \<Rightarrow> u32 \<Rightarrow> (string \<rightharpoonup> u16 \<times> u16) \<Rightarrow> gw_state \<Rightarrow> bool" where
  "traffic_inv inet ip routes st \<longleftrightarrow> (case st of (l, gw, out) \<Rightarrow>
     offered (gw_sd gw) = own_services ip \<and> signal_map (gw_pub gw) = routes \<and> (\<forall>x\<in>set out. output_typed inet ip routes x))"

lemma gw_call_typed:
  assumes "gw_call W fuel inet cb x (l, gw, out) = Some (b, l', gw', out')" and "input_ok x" and "traffic_inv inet ip routes (l, gw, out)"
  shows "traffic_inv inet ip routes (l', gw', out')"
proof -
  have inv: "offered (gw_sd gw) = own_services ip" "signal_map (gw_pub gw) = routes" "\<forall>x\<in>set out. output_typed inet ip routes x"
    using assms(3) by (simp_all add: traffic_inv_def)
  have map: "signal_map (gw_pub gw') = routes" using gw_call_keeps [OF assms(1,2)] inv(2) by simp
  have "offered (gw_sd gw') = own_services ip \<and> (\<forall>x\<in>set out'. output_typed inet ip routes x)"
  proof (cases cb)
    case SdReader
    with assms(1) obtain sd1 out1 where 1: "sd_on_readable W (gw_sd gw) (in_sd x) = Some (sd1, out1)" "gw_sd gw' = sd1" "out' = out @ map SdOut out1"
      by (auto simp: gw_call_def Option.bind_eq_Some_conv)
    from sd_readable_typed [OF 1(1), of inet ip] 1(2,3) inv(1,3) show ?thesis by (auto simp: output_typed_def [of _ _ _ "SdOut _"])
  next
    case CanReader
    then consider "gw' = gw" "out' = out"
      | f out1 where "on_frame W inet (in_stack x) (in_clocks x) f gw = Some (gw', out1)" "out' = out @ out1"
      using assms(1) by (auto simp: gw_call_def Option.bind_eq_Some_conv split: option.splits)
    then show ?thesis
    proof cases
      case 2
      from on_frame_typed [OF 2(1) _ inv(1)] assms(2) 2(2) inv(2,3) show ?thesis by (auto simp: input_ok_def)
    qed (use inv in simp)
  next
    case DoipListener
    with assms(1) inv show ?thesis by (auto simp: gw_call_def Let_def split: option.splits prod.splits)
  next
    case (DoipClient fd)
    with assms(1) obtain srv' out1 where 1: "on_client_data W fuel (gw_doip gw) fd (map_option (take (room (gw_doip gw) fd)) (in_stream x)) = Inr (srv', out1)"
      "gw' = gw\<lparr>gw_doip := srv'\<rparr>" "out' = out @ map DoipOut out1" by (auto simp: gw_call_def split: sum.splits)
    from on_client_data_typed [OF 1(1)] 1(2,3) inv(1,3) show ?thesis by (auto simp: output_typed_def [of _ _ _ "DoipOut _"])
  qed
  with map show ?thesis by (simp add: traffic_inv_def)
qed

interpretation gw_traffic: callbacks_also "gw_call 64 4097 inet" gw_inv input_ok "traffic_inv inet ip routes" "\<lambda>_. True" for inet ip routes
proof
  fix st st' :: gw_state and cb x thrown
  assume a: "traffic_inv inet ip routes st" "input_ok x" "gw_call 64 4097 inet cb x st = Some (thrown, st')"
  obtain l gw out l' gw' out' where st: "st = (l, gw, out)" "st' = (l', gw', out')" by (cases st, cases st') auto
  from gw_call_typed [OF a(3) [unfolded st] a(2) a(1) [unfolded st]] show "traffic_inv inet ip routes st'" by (simp add: st)
qed (simp add: traffic_inv_def)

section \<open>Properties\<close>

lemma first_offer_typed: "output_typed inet (inet (own_address args)) routes (first_offer inet args)"
  by (auto simp: first_offer_def output_typed_def sd_typed_def SOMEIP_SD_PORT_def)

text \<open>
  C8: Everything the program puts out is well formed. Whatever the events, and whether start-up
  fails, the program ends or waits: each notification is a SOME/IP message of 20 bytes, of type
  notification and with a payload of four bytes, for a service and method of the configured
  routes; each discovery datagram is the offer of the three own services to the multicast group
  or an acknowledgement; everything sent to a diagnostic client is a DoIP frame of one of the
  four response types; and the statistics appear at multiples of ten frames.
\<close>

theorem gw_outputs_typed:
  assumes "dbc_defined (snd (dbc_parse Map.empty vehicle))" and "\<forall>r\<in>set rs. wait_ok input_ok r"
  shows "\<exists>res. gw_main 64 4097 inet s args conf vehicle rs = Some res
     \<and> (\<forall>x\<in>set (outputs res). output_typed inet (inet (own_address args)) (route_map (snd (config_load 64 [] conf))) x)"
proof -
  let ?ip = "inet (own_address args)" and ?routes = "route_map (snd (config_load 64 [] conf))"
  let ?I = "\<lambda>st. gw_inv st \<and> traffic_inv inet ?ip ?routes st"
  have "\<exists>res. gw_main 64 4097 inet s args conf vehicle rs = Some res \<and> (\<forall>x\<in>set (outputs res). output_typed inet ?ip ?routes x)
      \<and> (\<forall>st. res = StillRunning st \<longrightarrow> ?I st)"
  proof (rule gw_main_result)
    fix st assume st: "gw_start 64 inet s args conf vehicle = Inr st"
    have "?I ((fst st)\<lparr>running := True\<rparr>, snd st)"
      using start_inv [OF st assms(1)] start_state [OF st] first_offer_typed by (simp add: traffic_inv_def initial_gateway_def)
    then show "\<exists>res. loop_run (gw_call 64 4097 inet) rs st = Some res \<and> ?I (result_state res)"
      unfolding loop_run_def by (rule gw_traffic.both.loop_inv) (use assms(2) in simp)
  next
    fix e out assume "gw_start 64 inet s args conf vehicle = Inl (e, out)"
    then show "\<forall>x\<in>set out. output_typed inet ?ip ?routes x" using start_failed first_offer_typed by fastforce
  qed (auto simp: traffic_inv_def)
  then show ?thesis by blast
qed

theorem gw_outputs_typed_witness:
  "\<exists>res. gw_main 64 4097 (\<lambda>_. 0) demo_startup [] (Some demo_conf) (Some (lf_file [brake_header, brake_line])) demo_events = Some res
     \<and> (\<forall>x\<in>set (outputs res). output_typed (\<lambda>_. 0) 0 [''BrakeActive'' \<mapsto> (0x0103, 0x8002)] x)"
  using gw_outputs_typed [OF demo_vehicle_defined demo_events_ok, of "\<lambda>_. 0" demo_startup "[]" "Some demo_conf"]
  by (simp add: demo_config route_map_def)

end
