(* ===== verification/Gateway_Shutdown.thy ===== *)
theory Gateway_Shutdown
  imports Gateway_Run
begin

text \<open>
  The end of the program: the destructors of the objects of \<open>main\<close>, which run in the reverse order
  of construction when the loop returns or throws, and the descriptors they close.
\<close>

section \<open>Destructors\<close>

definition SomeIpPublisher_destroy :: "int \<Rightarrow> int list" where
  "SomeIpPublisher_destroy fd = (if fd \<ge> 0 then [fd] else [])"

definition EventLoop_destroy :: "int \<Rightarrow> int list" where
  "EventLoop_destroy fd = (if fd \<ge> 0 then [fd] else [])"

definition SomeIpSdService_destroy :: "int \<Rightarrow> int list" where
  "SomeIpSdService_destroy fd = (if fd \<ge> 0 then [fd] else [])"

definition closed_fds :: "doip_out list \<Rightarrow> int list" where
  "closed_fds out = [fd. CloseFd fd \<leftarrow> out]"

text \<open>The descriptors closed when \<open>main\<close> leaves its block; \<open>fds\<close> are the keys of the connection map as it is iterated.\<close>

definition gw_shutdown :: "startup \<Rightarrow> gateway \<Rightarrow> int list \<Rightarrow> int list" where
  "gw_shutdown s gw fds =
     closed_fds (DoIpServer_destroy (gw_doip gw) fds) @ SomeIpSdService_destroy (sd_fd s)
     @ CanSocket_destroy (can_fd s) @ EventLoop_destroy (epoll_fd s) @ SomeIpPublisher_destroy (pub_fd s)"

section \<open>What the callbacks keep of the descriptors\<close>

definition own_fds :: "startup \<Rightarrow> int list" where
  "own_fds s = [doip_fd s, sd_fd s, can_fd s, epoll_fd s, pub_fd s]"

text \<open>\<open>accept\<close> returns no descriptor the program has open from its start on.\<close>

definition accept_ok :: "startup \<Rightarrow> gw_input \<Rightarrow> bool" where
  "accept_ok s x \<longleftrightarrow> (\<forall>fd. in_accept x = Some fd \<longrightarrow> 0 \<le> fd \<and> fd \<notin> set (own_fds s))"

definition fds_inv :: "startup \<Rightarrow> doip_server \<Rightarrow> bool" where
  "fds_inv s srv \<longleftrightarrow> listen_fd srv = doip_fd s \<and> (\<forall>fd\<in>dom (connections srv). 0 \<le> fd \<and> fd \<notin> set (own_fds s))"

lemma closed_fds_simps [simp]:
  "closed_fds [] = []" "closed_fds (CloseFd fd # out) = fd # closed_fds out" "closed_fds (SendTo fd bs # out) = closed_fds out"
  "closed_fds (xs @ ys) = closed_fds xs @ closed_fds ys" "closed_fds (map CloseFd fds) = fds"
  by (simp_all add: closed_fds_def comp_def)

lemma handle_doip_message_no_close: "handle_doip_message uds conn hdr pl n = Some (conn', out) \<Longrightarrow> closed_fds out = []"
  by (auto simp: handle_doip_message_def handle_routing_activation_def handle_diagnostic_message_def send_to_client_def Let_def
      Option.bind_eq_Some_conv split: if_splits)

lemma rx_loop_no_close: "rx_loop W uds fuel conn = Inr (conn', out) \<Longrightarrow> closed_fds out = []"
proof (induction fuel arbitrary: conn conn' out)
  case 0
  then show ?case by (simp add: rx_loop.simps)
next
  case (Suc fuel)
  from Suc.prems show ?case
    by (auto simp: rx_loop.simps(2) Let_def dest: Suc.IH handle_doip_message_no_close
        split: if_splits option.splits prod.splits sum.splits)
qed

text \<open>A connection ends exactly when its descriptor is closed.\<close>

lemma on_client_data_closes:
  assumes "on_client_data W fuel srv fd r = Inr (srv', out)"
  shows "listen_fd srv' = listen_fd srv \<and> dom (connections srv') = dom (connections srv) - set (closed_fds out)
     \<and> set (closed_fds out) \<subseteq> dom (connections srv) \<and> distinct (closed_fds out)"
  using assms
  by (auto simp: on_client_data_def Let_def dest: rx_loop_no_close split: if_splits option.splits prod.splits sum.splits)

lemma on_frame_doip: "on_frame W inet buf clk f gw = Some (gw', out) \<Longrightarrow> gw_doip gw' = gw_doip gw"
proof -
  have after: "gw_doip gw2 = gw_doip gw1" if "after_publish W inet now gw1 = Some (gw2, out1)" for now gw1 gw2 out1
    using that after_publish_total [of W inet now gw1] by auto
  show "on_frame W inet buf clk f gw = Some (gw', out) \<Longrightarrow> gw_doip gw' = gw_doip gw"
    by (auto simp: on_frame_def Let_def Option.bind_eq_Some_conv split: option.splits prod.splits dest!: after)
qed

lemma gw_call_fds:
  assumes "gw_call W fuel inet cb x (l, gw, out) = Some (b, l', gw', out')" and "accept_ok s x" and "fds_inv s (gw_doip gw)"
  shows "fds_inv s (gw_doip gw')"
proof (cases cb)
  case SdReader
  with assms(1,3) show ?thesis by (auto simp: gw_call_def split: Option.bind_splits)
next
  case CanReader
  then have "gw_doip gw' = gw_doip gw"
    using assms(1) by (auto simp: gw_call_def on_frame_doip split: Option.bind_splits option.splits)
  with assms(3) show ?thesis by simp
next
  case DoipListener
  with assms show ?thesis
    by (auto simp: gw_call_def on_new_connection_def fds_inv_def accept_ok_def Let_def split: option.splits prod.splits if_splits)
next
  case (DoipClient fd)
  with assms(1) obtain srv' out1 where "on_client_data W fuel (gw_doip gw) fd (map_option (take (room (gw_doip gw) fd)) (in_stream x)) = Inr (srv', out1)"
    "gw_doip gw' = srv'" by (auto simp: gw_call_def split: sum.splits)
  with on_client_data_closes [OF this(1)] assms(3) show ?thesis by (auto simp: fds_inv_def)
qed

interpretation gw_fds: callbacks_also "gw_call 64 4097 inet" gw_inv input_ok "\<lambda>st. fds_inv s (gw_doip (fst (snd st)))" "accept_ok s" for inet s
proof
  fix st st' :: gw_state and cb x thrown
  assume a: "fds_inv s (gw_doip (fst (snd st)))" "input_ok x" "accept_ok s x" "gw_call 64 4097 inet cb x st = Some (thrown, st')"
  obtain l gw out l' gw' out' where st: "st = (l, gw, out)" "st' = (l', gw', out')" by (cases st, cases st') auto
  from gw_call_fds [OF a(4) [unfolded st] a(3)] a(1) show "fds_inv s (gw_doip (fst (snd st')))" by (simp add: st)
qed simp

lemma running_started: "gw_main W fuel inet s args conf vehicle rs = Some (StillRunning st) \<Longrightarrow> sys_ok s"
  using gw_start_fails [of W conf vehicle s inet args] by (cases "sys_ok s") (auto simp: gw_main_def)

lemma run_keeps_fds:
  assumes "dbc_defined (snd (dbc_parse Map.empty vehicle))" and "\<forall>r\<in>set rs. wait_ok (\<lambda>x. input_ok x \<and> accept_ok s x) r"
    and "gw_main 64 4097 inet s args conf vehicle rs = Some (StillRunning st)"
  shows "fds_inv s (gw_doip (fst (snd st)))"
proof -
  let ?I = "\<lambda>st. gw_inv st \<and> fds_inv s (gw_doip (fst (snd st)))"
  have "\<exists>res. gw_main 64 4097 inet s args conf vehicle rs = Some res \<and> True \<and> (\<forall>st. res = StillRunning st \<longrightarrow> ?I st)"
  proof (rule gw_main_result)
    fix st assume st: "gw_start 64 inet s args conf vehicle = Inr st"
    have "?I ((fst st)\<lparr>running := True\<rparr>, snd st)"
      using start_inv [OF st assms(1)] start_state [OF st] by (simp add: fds_inv_def initial_gateway_def)
    then show "\<exists>res. loop_run (gw_call 64 4097 inet) rs st = Some res \<and> ?I (result_state res)"
      unfolding loop_run_def by (rule gw_fds.both.loop_inv) (rule assms(2))
  qed simp_all
  with assms(3) show ?thesis by (simp del: split_paired_All)
qed

section \<open>Properties\<close>

text \<open>
  C23: Descriptors are released exactly once. In every state in which the program waits, leaving
  \<open>main\<close> closes its five own descriptors and those of the connected clients, each once and no
  other, in whatever order the connection map is iterated; and before that a client's descriptor
  is closed exactly when its connection is given up, so none is closed twice or forgotten. The
  kernel is assumed to hand out descriptors that are not open.
\<close>

theorem gw_releases_descriptors:
  assumes "dbc_defined (snd (dbc_parse Map.empty vehicle))" and "\<forall>r\<in>set rs. wait_ok (\<lambda>x. input_ok x \<and> accept_ok s x) r"
    and "gw_main 64 4097 inet s args conf vehicle rs = Some (StillRunning (l, gw, sent))"
    and "distinct (own_fds s)" and "distinct fds" and "set fds = dom (connections (gw_doip gw))"
  shows "distinct (gw_shutdown s gw fds) \<and> set (gw_shutdown s gw fds) = set (own_fds s) \<union> dom (connections (gw_doip gw))
     \<and> (\<forall>fd r srv out. on_client_data 64 4097 (gw_doip gw) fd r = Inr (srv, out) \<longrightarrow>
          dom (connections srv) = dom (connections (gw_doip gw)) - set (closed_fds out)
          \<and> set (closed_fds out) \<subseteq> dom (connections (gw_doip gw)) \<and> distinct (closed_fds out))"
proof -
  have inv: "listen_fd (gw_doip gw) = doip_fd s" "\<forall>fd\<in>set fds. 0 \<le> fd \<and> fd \<notin> set (own_fds s)"
    using run_keeps_fds [OF assms(1-3)] assms(6) by (simp_all add: fds_inv_def)
  have pos: "\<forall>fd\<in>set (own_fds s). 0 \<le> fd" using running_started [OF assms(3)] by (simp add: sys_ok_def own_fds_def)
  have "filter (\<lambda>fd. 0 \<le> fd) fds = fds" using inv(2) by (simp add: filter_id_conv)
  then have eq: "gw_shutdown s gw fds = fds @ own_fds s"
    using inv(1) pos by (simp add: gw_shutdown_def DoIpServer_destroy_def SomeIpSdService_destroy_def CanSocket_destroy_def
        EventLoop_destroy_def SomeIpPublisher_destroy_def own_fds_def)
  have "distinct (fds @ own_fds s)" using assms(4,5) inv(2) by auto
  then show ?thesis unfolding eq using assms(6) on_client_data_closes by auto
qed

theorem gw_releases_descriptors_witness:
  "\<exists>l gw sent. gw_main 64 4097 (\<lambda>_. 0) demo_startup [] (Some demo_conf) (Some (lf_file [brake_header, brake_line])) [Ready [(7, True, demo_input)]]
       = Some (StillRunning (l, gw, sent)) \<and> gw_shutdown demo_startup gw [11] = [11, 7, 6, 5, 4, 3] \<and> distinct (gw_shutdown demo_startup gw [11])"
proof -
  let ?gw = "initial_gateway demo_startup 0 (snd (config_load 64 [] (Some demo_conf))) (snd (dbc_parse Map.empty (Some (lf_file [brake_header, brake_line]))))"
  let ?srv = "fst (on_new_connection (gw_doip ?gw) (Some 11))"
  have run: "gw_main 64 4097 (\<lambda>_. 0) demo_startup [] (Some demo_conf) (Some (lf_file [brake_header, brake_line])) [Ready [(7, True, demo_input)]]
       = Some (StillRunning (\<lparr>readers = (readers (initial_loop demo_startup))(11 \<mapsto> DoipClient 11), running = True\<rparr>, ?gw\<lparr>gw_doip := ?srv\<rparr>, [first_offer (\<lambda>_. 0) []]))"
    using gw_start_succeeds [of 64 "Some demo_conf" "Some (lf_file [brake_header, brake_line])" demo_startup "\<lambda>_. 0" "[]"] demo_sys_ok
    by (simp add: gw_main_def loop_run_def demo_config demo_dbc initial_loop_def demo_startup_def gw_call_def demo_input_def
        on_new_connection_def add_reader_def dispatch_def Let_def)
  have conns: "connections (gw_doip (?gw\<lparr>gw_doip := ?srv\<rparr>)) = [11 \<mapsto> DoIpConnection\<lparr>conn_fd := 11, activated := False\<rparr>]"
    by (simp add: initial_gateway_def on_new_connection_def)
  have ok: "\<forall>r\<in>set [Ready [(7, True, demo_input)]]. wait_ok (\<lambda>x. input_ok x \<and> accept_ok demo_startup x) r"
    by (simp add: demo_input_def input_ok_def accept_ok_def own_fds_def demo_startup_def)
  have "distinct (own_fds demo_startup)" by (simp add: own_fds_def demo_startup_def)
  from gw_releases_descriptors [OF demo_vehicle_defined ok run this, of "[11]"] conns
  have "distinct (gw_shutdown demo_startup (?gw\<lparr>gw_doip := ?srv\<rparr>) [11])" by simp
  moreover have "gw_shutdown demo_startup (?gw\<lparr>gw_doip := ?srv\<rparr>) [11] = [11, 7, 6, 5, 4, 3]"
    by (simp add: gw_shutdown_def DoIpServer_destroy_def SomeIpSdService_destroy_def CanSocket_destroy_def
        EventLoop_destroy_def SomeIpPublisher_destroy_def demo_startup_def initial_gateway_def on_new_connection_def)
  ultimately show ?thesis using run by blast
qed

end
