(* ===== verification/Spec2Isabelle.thy ===== *)
theory Spec2Isabelle
  imports Gateway_Sim Someip_Tools Doip_Client Gateway_Report Gateway_Traffic Gateway_Shutdown
begin

text \<open>
  A verification of the automotive gateway: a program that reads CAN frames, decodes them with a
  DBC database, publishes the signals as SOME/IP notifications, offers its services by SOME/IP
  service discovery and answers diagnostic requests over DoIP.

  \<^bold>\<open>The parts and their theories.\<close> One process runs one epoll loop; every part is called from it.

  \<^item> \<^verbatim>\<open>Gw_Prelude\<close>: bytes, words and byte order (\<open>rd\<close>, \<open>put\<close>: access to a buffer, \<open>None\<close>
    out of bounds; \<open>htons\<close>, \<open>htonl\<close> of a little-endian host), and the interfaces the components
    share as locales: \<open>fixed_codec\<close> (an encoding of fixed length and its decoder),
    \<open>frame_stream\<close> (framing of a byte stream), \<open>machine_refinement\<close> (a component that implements
    an abstract machine), \<open>session_numbering\<close> (messages stamped with a counter).
  \<^item> \<^verbatim>\<open>Cpp_Text\<close>, \<^verbatim>\<open>Ieee_Fp\<close>: what the code uses of the C++ library and the language:
    \<open>getline\<close>, stream extraction, \<open>stoi\<close>, \<open>stoul\<close>, \<open>stod\<close>; binary64 and binary32 arithmetic
    with rounding to nearest even, comparison, \<open>min\<close> and \<open>max\<close>, conversion, object
    representation. Rounding is shown monotone, and exact where the result is representable.
  \<^item> \<^verbatim>\<open>Uds_Handler\<close> (\<^verbatim>\<open>src/doip/uds_handler\<close>), \<^verbatim>\<open>Doip_Message\<close>
    (\<^verbatim>\<open>src/doip/doip_message\<close>), \<^verbatim>\<open>Doip_Server\<close> and \<^verbatim>\<open>Doip_Stream\<close>
    (\<^verbatim>\<open>src/doip/doip_server\<close>): the diagnostic server. The server is proved against a
    specification without buffers for every way TCP cuts the stream.
  \<^item> \<^verbatim>\<open>Dbc_Parser\<close>, \<^verbatim>\<open>Signal_Decoder\<close>, \<^verbatim>\<open>Can_Socket\<close> (\<^verbatim>\<open>src/can\<close>,
    \<^verbatim>\<open>src/utils/can_printer.hpp\<close>): the database, the decoder, the CAN socket. The decoder is
    proved equal to reading a field of the frame as one 64-bit word, in range, and exact.
  \<^item> \<^verbatim>\<open>Config_Loader\<close> (\<^verbatim>\<open>src/utils/config_loader\<close>): the routes.
  \<^item> \<^verbatim>\<open>Someip_Message\<close>, \<^verbatim>\<open>Someip_Publisher\<close>, \<^verbatim>\<open>Someip_Sd\<close>,
    \<^verbatim>\<open>Someip_Sd_Service\<close> (\<^verbatim>\<open>src/someip\<close>): messages, publication, service discovery.
    Messages round-trip, publisher and endpoint refine abstract machines, sessions have no gaps.
  \<^item> \<^verbatim>\<open>Benchmark\<close> (\<^verbatim>\<open>src/bench/benchmark.hpp\<close>), \<^verbatim>\<open>Watchdog\<close>
    (\<^verbatim>\<open>src/utils/watchdog.hpp\<close>): latency statistics and the bus watchdog.
  \<^item> \<^verbatim>\<open>Event_Loop\<close> (\<^verbatim>\<open>src/event/event_loop.hpp\<close>): the loop, with the locales
    \<open>callbacks\<close> (what every callback keeps, the loop keeps) and \<open>callbacks_also\<close> (a further
    invariant on top, a sublocale of the first for both).
  \<^item> \<^verbatim>\<open>Gateway\<close>, \<^verbatim>\<open>Gateway_Run\<close> (\<^verbatim>\<open>src/main.cpp\<close> and the constructors):
    the frame callback \<open>on_frame\<close>, the callbacks \<open>gw_call\<close>, start-up \<open>gw_start\<close> and the program
    \<open>gw_main\<close>; three interpretations of the event loop's locales on \<open>gw_call\<close> give safety, that
    the configuration stays, and that the watchdog's warning never comes.
  \<^item> \<^verbatim>\<open>Gateway_Traffic\<close>, \<^verbatim>\<open>Gateway_Shutdown\<close>, \<^verbatim>\<open>Gateway_Report\<close>: further invariants of
    all runs by the same locales: every output has the type of its kind, every descriptor is
    closed exactly once (the destructors in their order), the recorded statistics stay
    consistent with the frame counter, so that the report of the SIGINT handler is valid JSON at
    any time.
  \<^item> \<^verbatim>\<open>Cpp_Stream\<close>: \<open>std::ostream\<close> with its formatting state (base, width, adjustment,
    precision) and the manipulators the code uses. \<^verbatim>\<open>Json\<close>: a JSON reader and the texts it
    reads, the specification of the report.
  \<^item> \<^verbatim>\<open>Stats_Reporter\<close> (\<^verbatim>\<open>src/utils/stats_reporter\<close>): the latency table and the
    JSON report. \<^verbatim>\<open>Console\<close>: what the UDS handler, the DoIP server, the frame callback and the
    signal handler write to the one console stream they share, whose number base a listing of
    trouble codes leaves in hexadecimal.
  \<^item> \<^verbatim>\<open>Shipped_Config\<close> (\<^verbatim>\<open>config/vehicle.dbc\<close>, \<^verbatim>\<open>config/gateway.conf\<close>): the
    delivered files line by line, what the parsers make of them, and the path of the engine
    signals from the CAN bytes to the value a receiver reads.
  \<^item> \<^verbatim>\<open>Doip_Client\<close>, \<^verbatim>\<open>Someip_Tools\<close>, \<^verbatim>\<open>Can_Tools\<close>, \<^verbatim>\<open>Can_Simulator\<close>
    (\<^verbatim>\<open>tools\<close>): the test programs, and what they and the gateway make of each other's
    messages; the simulator's values stay in range under IEEE rounding. \<^verbatim>\<open>Gateway_Sim\<close> follows
    the simulator's engine frames through the delivered gateway to the receiver.

  \<^bold>\<open>How the code is modelled.\<close> A class is a record of its fields, an operation a function from
  the state to the new state and its outputs in program order; what the code gets from the kernel
  (results of \<open>recv\<close>, \<open>accept\<close>, \<open>read\<close>, \<open>epoll_wait\<close>, the clock) is an argument. Integers are
  words of their width, \<open>size_t\<close> is a natural number modulo \<open>2 ^ W\<close> with the width as an
  argument, since the gateway is built for 32-bit and 64-bit hosts. The result \<open>None\<close> is
  undefined behaviour (an access out of bounds, a shift by a negative amount, a conversion out of
  range); errors the code handles are values.

  \<^bold>\<open>Bounds and fuel.\<close> The receive loop of the DoIP server runs on fuel. A connection buffer holds
  4096 bytes and every iteration takes at least eight of them when \<open>size_t\<close> has more than 32
  bits, so 4097 units are enough: \<open>gw_main 64 4097\<close> is shown never to run out. With 32 bits no
  amount of fuel is enough for some input (\<^verbatim>\<open>Doip_Stream.doip_32bit_hang\<close>). The start-up
  and run-time results are quantified over all finite prefixes of the event sequence.

  \<^bold>\<open>What is not modelled.\<close> The console texts of the parts other than those of \<^verbatim>\<open>Console\<close>
  (progress messages of start-up, of the parsers, the publisher and service discovery), and the
  \<open>strerror\<close> part of messages; in \<open>gw_main\<close> the statistics table is an output event, whose text
  \<^verbatim>\<open>Console\<close> gives. The signal handler runs at a point where the program waits; C++ gives no
  meaning to stream output from a handler that interrupts other stream output. The descriptors of
  an object whose constructor throws (they are released by the end of the process). The hidden
  effect of \<open>epoll_ctl\<close> in the kernel, beyond its success, and the delivery of datagrams. The
  test scripts and build files. Class declarations in headers have no definition of their own
  beside the record of the fields and the operations they declare.

  \<^bold>\<open>Hypotheses.\<close> \<open>inet\<close> stands for \<open>inet_addr\<close>; nothing is assumed of it. \<open>sin_d\<close> stands for
  the C library's \<open>sin\<close>, whose results on finite numbers are finite and within one (\<open>sine_like\<close>). \<open>recv\<close> and \<open>read\<close>
  store no more bytes than they were asked for (\<open>recv_ok\<close>, \<open>input_ok\<close>). \<open>accept\<close> returns no
  descriptor that is open since start-up (\<open>accept_ok\<close>). \<open>iter\<close> is the order in which a loop meets
  the entries of a hash table, each once (\<open>iterates\<close>). \<open>setsockopt\<close> treats CAN filters as the
  kernel documents (\<open>kernel_filters\<close>). \<open>dbc_defined\<close> excludes
  databases with a signed signal of length zero, on which the decoder is undefined; the
  delivered database satisfies it.
\<close>

end
